(* ===== verification/Mesh_Prelude.thy ===== *)
theory Mesh_Prelude
  imports Main
begin

section \<open>Shared vocabulary of the mesh server model\<close>

text \<open>
  What every component of the development shares: the machine view of Go's integers and
  times, Go's errors as values, panics as an outcome, Go maps and the order in which a
  \<^verbatim>\<open>for range\<close> visits them, and the lemma collections the component theories feed.
\<close>

named_theorems outcome_simps "how an operation that may panic evaluates"
named_theorems keeps "an operation keeps an invariant of its component"
named_theorems frame "what an operation leaves alone"

subsection \<open>Integers and times\<close>

text \<open>
  Go's \<^verbatim>\<open>int\<close>, \<^verbatim>\<open>int64\<close> and \<^verbatim>\<open>time.Duration\<close> are 64-bit two's complement numbers. They
  are read as \<open>int\<close>; where the code's arithmetic can leave the range, \<open>wrap64\<close> writes the
  wrap-around out. A \<^verbatim>\<open>time.Time\<close> is the number of nanoseconds on the monotonic clock, and
  \<^verbatim>\<open>Time.Sub\<close> saturates at the ends of the \<^verbatim>\<open>Duration\<close> range, as the library does.
\<close>

type_synonym duration = int
type_synonym instant = int

definition min_int64 :: int where
  "min_int64 = - (2 ^ 63)"

definition max_int64 :: int where
  "max_int64 = 2 ^ 63 - 1"

definition int64_range :: "int \<Rightarrow> bool" where
  "int64_range x \<longleftrightarrow> min_int64 \<le> x \<and> x \<le> max_int64"

definition wrap64 :: "int \<Rightarrow> int" where
  "wrap64 x = (x + 2 ^ 63) mod 2 ^ 64 - 2 ^ 63"

lemmas int64_defs = min_int64_def max_int64_def int64_range_def

lemma wrap64_in_range [simp]: "int64_range (wrap64 x)"
  using pos_mod_bound [of "2 ^ 64" "x + 2 ^ 63"] by (simp add: wrap64_def int64_defs)

lemma wrap64_id: "int64_range x \<Longrightarrow> wrap64 x = x"
  by (simp add: wrap64_def int64_defs)

lemma wrap64_underflow:
  assumes "x < min_int64" and "min_int64 - 2 ^ 64 \<le> x"
  shows "wrap64 x = x + 2 ^ 64"
proof -
  have "(x + 2 ^ 63) mod 2 ^ 64 = (x + 2 ^ 63 + 2 ^ 64) mod 2 ^ 64"
    by (rule mod_add_self2 [symmetric])
  also have "\<dots> = x + 2 ^ 63 + 2 ^ 64"
    using assms by (intro mod_pos_pos_trivial) (simp_all add: int64_defs)
  finally show ?thesis by (simp add: wrap64_def)
qed

definition nanosecond :: duration where "nanosecond = 1"
definition millisecond :: duration where "millisecond = 1000000"
definition second :: duration where "second = 1000000000"
definition minute :: duration where "minute = 60 * second"

lemmas time_units = nanosecond_def millisecond_def second_def minute_def

definition time_Sub :: "instant \<Rightarrow> instant \<Rightarrow> duration" where
  "time_Sub t u =
     (if t - u > max_int64 then max_int64
      else if t - u < min_int64 then min_int64
      else t - u)"

lemma time_Sub_in_range: "int64_range (t - u) \<Longrightarrow> time_Sub t u = t - u"
  by (simp add: time_Sub_def int64_defs)

lemma time_Sub_self [simp]: "time_Sub t t = 0"
  by (simp add: time_Sub_def int64_defs)

lemma time_Sub_mono: "t \<le> t' \<Longrightarrow> time_Sub t u \<le> time_Sub t' u"
  by (auto simp: time_Sub_def int64_defs)

lemma time_Sub_nonneg: "u \<le> t \<Longrightarrow> 0 \<le> time_Sub t u"
  by (auto simp: time_Sub_def int64_defs)

lemma time_Sub_gt: "d < max_int64 \<Longrightarrow> min_int64 \<le> d \<Longrightarrow> d < time_Sub t u \<longleftrightarrow> d < t - u"
  by (auto simp: time_Sub_def int64_defs)

subsection \<open>Errors as values\<close>

text \<open>
  A package-level error variable is a \<open>Sentinel\<close>, compared by identity in Go and by its name
  here; \<^verbatim>\<open>errors.New\<close> inside a function, \<^verbatim>\<open>fmt.Errorf\<close> without and with \<^verbatim>\<open>%w\<close>, and a gRPC status
  are the other constructors. The format string and its arguments are kept, unformatted. An
  error that a library returned is \<open>Foreign\<close>.
\<close>

datatype fmt_arg = ArgInt int | ArgStr string

datatype grpc_code =
    OK | Canceled | Unknown | InvalidArgument | DeadlineExceeded | NotFound | AlreadyExists
  | PermissionDenied | ResourceExhausted | FailedPrecondition | Aborted | OutOfRange
  | Unimplemented | Internal | Unavailable | DataLoss | Unauthenticated

datatype go_error =
    Sentinel string
  | ErrorsNew string
  | Errorf string "fmt_arg list"
  | Wrapf string "fmt_arg list" go_error
  | StatusError grpc_code string
  | Foreign string

abbreviation io_EOF :: go_error where "io_EOF \<equiv> Sentinel ''io.EOF''"
abbreviation io_ErrUnexpectedEOF :: go_error where "io_ErrUnexpectedEOF \<equiv> Sentinel ''io.ErrUnexpectedEOF''"
abbreviation context_Canceled :: go_error where "context_Canceled \<equiv> Sentinel ''context.Canceled''"
abbreviation context_DeadlineExceeded :: go_error where
  "context_DeadlineExceeded \<equiv> Sentinel ''context.DeadlineExceeded''"

text \<open>\<^verbatim>\<open>errors.Is\<close> looks through the \<^verbatim>\<open>%w\<close> chain.\<close>

fun errors_Is :: "go_error \<Rightarrow> go_error \<Rightarrow> bool" where
  "errors_Is (Wrapf f args cause) t = (Wrapf f args cause = t \<or> errors_Is cause t)"
| "errors_Is e t = (e = t)"

text \<open>A Go result pair \<^verbatim>\<open>(T, error)\<close> is a sum, a bare \<^verbatim>\<open>error\<close> an option (\<open>None\<close> is \<^verbatim>\<open>nil\<close>).\<close>

type_synonym 'a result = "go_error + 'a"

subsection \<open>Panics\<close>

text \<open>
  A call either returns or panics (closing a closed channel, dereferencing \<^verbatim>\<open>nil\<close>). A panic is a
  value of the model, so that "this never panics" is a theorem and not an omission.
\<close>

datatype 'a outcome = Return 'a | Panic string

fun bind_outcome :: "'a outcome \<Rightarrow> ('a \<Rightarrow> 'b outcome) \<Rightarrow> 'b outcome" where
  "bind_outcome (Return x) f = f x"
| "bind_outcome (Panic s) f = Panic s"

declare bind_outcome.simps [outcome_simps]

lemma bind_outcome_Return_iff [outcome_simps]:
  "bind_outcome m f = Return y \<longleftrightarrow> (\<exists>x. m = Return x \<and> f x = Return y)"
  by (cases m) auto

fun returns :: "'a outcome \<Rightarrow> bool" where
  "returns (Return x) = True"
| "returns (Panic s) = False"

lemma returns_iff: "returns m \<longleftrightarrow> (\<exists>x. m = Return x)"
  by (cases m) auto

subsection \<open>Go maps\<close>

text \<open>
  A Go map is a finite partial function. \<^verbatim>\<open>for k, v := range m\<close> visits its keys in an order the
  language leaves open: an operation that ranges over a map takes the order as an argument, and
  \<open>go_range ks m\<close> says that \<open>ks\<close> is one of the orders the runtime may choose.
\<close>

definition go_range :: "'k list \<Rightarrow> ('k \<rightharpoonup> 'v) \<Rightarrow> bool" where
  "go_range ks m \<longleftrightarrow> distinct ks \<and> set ks = dom m"

definition map_len :: "('k \<rightharpoonup> 'v) \<Rightarrow> nat" where
  "map_len m = card (dom m)"

text \<open>\<^verbatim>\<open>m[k]\<close> on a missing key yields the zero value of the element type.\<close>

definition map_get :: "'v \<Rightarrow> ('k \<rightharpoonup> 'v) \<Rightarrow> 'k \<Rightarrow> 'v" where
  "map_get zero m k = (case m k of None \<Rightarrow> zero | Some v \<Rightarrow> v)"

lemma go_rangeD: "go_range ks m \<Longrightarrow> distinct ks" "go_range ks m \<Longrightarrow> set ks = dom m"
  by (simp_all add: go_range_def)

lemma go_range_finite: "go_range ks m \<Longrightarrow> finite (dom m)"
  by (metis go_rangeD(2) List.finite_set)

lemma go_range_exists: "finite (dom m) \<Longrightarrow> \<exists>ks. go_range ks m"
  unfolding go_range_def by (metis finite_distinct_list)

lemma go_range_length: "go_range ks m \<Longrightarrow> length ks = map_len m"
  unfolding go_range_def map_len_def by (metis distinct_card)

lemma go_range_empty_iff [simp]: "go_range ks Map.empty \<longleftrightarrow> ks = []"
  by (auto simp: go_range_def)

lemma map_len_0_iff: "finite (dom m) \<Longrightarrow> map_len m = 0 \<longleftrightarrow> m = Map.empty"
  by (auto simp: map_len_def)

lemma map_len_empty [simp]: "map_len Map.empty = 0"
  by (simp add: map_len_def)

text \<open>Copying a map key by key in any order gives the map back.\<close>

lemma fold_copy_map:
  assumes "go_range ks m"
  shows "fold (\<lambda>k acc. acc(k := m k)) ks Map.empty = m"
proof -
  have "fold (\<lambda>k acc. acc(k := m k)) ks acc = (\<lambda>k. if k \<in> set ks then m k else acc k)" for acc
    by (induction ks arbitrary: acc) auto
  with assms show ?thesis
    by (auto simp: go_range_def fun_eq_iff)
qed

text \<open>Counting the visited keys with a property does not depend on the order.\<close>

lemma length_filter_range:
  assumes "go_range ks m"
  shows "length (filter P ks) = card {k \<in> dom m. P k}"
proof -
  from assms have "distinct (filter P ks)" and "set (filter P ks) = {k \<in> dom m. P k}"
    by (auto simp: go_range_def)
  then show ?thesis by (metis distinct_card)
qed

end
