(* ===== verification/Auth_Policy.thy ===== *)
theory Auth_Policy
  imports Mesh_Prelude
begin

section \<open>Token authentication (pkg/control/auth.go)\<close>

text \<open>
  The policy that decides whether a handshake may claim a node id. A Go \<^verbatim>\<open>map[string]bool\<close> used
  as a set stays a map to \<open>bool\<close>. \<^verbatim>\<open>NewAuthPolicy\<close> ranges over the configured node tokens, so
  it takes the order of that loop as an argument.
\<close>

record auth_policy =
  ap_enabled :: bool
  ap_allowedTokens :: "string \<rightharpoonup> bool"
  ap_nodeTokens :: "string \<rightharpoonup> string"

definition token_map :: "string list \<Rightarrow> (string \<rightharpoonup> bool)" where
  "token_map tokens =
     fold (\<lambda>token m. if token \<noteq> '''' then m(token \<mapsto> True) else m) tokens Map.empty"

definition bind_tokens :: "string list \<Rightarrow> (string \<rightharpoonup> string) \<Rightarrow> (string \<rightharpoonup> string)" where
  "bind_tokens ks nodeTokens =
     fold (\<lambda>nodeID bound.
             case nodeTokens nodeID of
               None \<Rightarrow> bound
             | Some token \<Rightarrow> if nodeID \<noteq> '''' \<and> token \<noteq> '''' then bound(nodeID \<mapsto> token) else bound)
       ks Map.empty"

definition NewAuthPolicy ::
  "string list \<Rightarrow> bool \<Rightarrow> string list \<Rightarrow> (string \<rightharpoonup> string) \<Rightarrow> auth_policy" where
  "NewAuthPolicy ks enabled tokens nodeTokens =
     \<lparr>ap_enabled = enabled, ap_allowedTokens = token_map tokens,
      ap_nodeTokens = bind_tokens ks nodeTokens\<rparr>"

text \<open>The loop of \<^verbatim>\<open>Authorize\<close> over the bound tokens, in the order \<open>ks\<close>.\<close>

fun some_bound_token :: "string list \<Rightarrow> (string \<rightharpoonup> string) \<Rightarrow> string \<Rightarrow> bool" where
  "some_bound_token [] m token = False"
| "some_bound_token (k # ks) m token =
     (if m k = Some token then True else some_bound_token ks m token)"

definition Authorize :: "string list \<Rightarrow> auth_policy \<Rightarrow> string \<Rightarrow> go_error option" where
  "Authorize ks p token =
     (if \<not> ap_enabled p then None
      else if map_len (ap_allowedTokens p) = 0 \<and> map_len (ap_nodeTokens p) = 0
        then Some (ErrorsNew ''no allowed tokens configured'')
      else if token = '''' then Some (ErrorsNew ''token required but not provided'')
      else if map_get False (ap_allowedTokens p) token then None
      else if some_bound_token ks (ap_nodeTokens p) token then None
      else Some (ErrorsNew ''invalid token''))"

definition AuthorizeNode :: "auth_policy \<Rightarrow> string \<Rightarrow> string \<Rightarrow> go_error option" where
  "AuthorizeNode p nodeID token =
     (if \<not> ap_enabled p then None
      else if token = '''' then Some (ErrorsNew ''token required but not provided'')
      else if map_len (ap_nodeTokens p) > 0 then
        (case ap_nodeTokens p nodeID of
           None \<Rightarrow> Some (Errorf ''node %q is not authorized with the provided token'' [ArgStr nodeID])
         | Some bound \<Rightarrow>
             if bound \<noteq> token
             then Some (Errorf ''node %q is not authorized with the provided token'' [ArgStr nodeID])
             else None)
      else if map_len (ap_allowedTokens p) = 0
        then Some (ErrorsNew ''no allowed tokens configured'')
      else if \<not> map_get False (ap_allowedTokens p) token then Some (ErrorsNew ''invalid token'')
      else None)"

definition IdentityBound :: "auth_policy \<Rightarrow> bool" where
  "IdentityBound p \<longleftrightarrow> ap_enabled p \<and> map_len (ap_nodeTokens p) > 0"

subsection \<open>What the constructor builds\<close>

lemma token_map_fold:
  "fold (\<lambda>token m. if token \<noteq> '''' then m(token \<mapsto> True) else m) tokens m =
   (\<lambda>t. if t \<noteq> '''' \<and> t \<in> set tokens then Some True else m t)"
  by (induction tokens arbitrary: m) (auto simp: fun_eq_iff)

lemma token_map_eq:
  "token_map tokens = (\<lambda>t. if t \<noteq> '''' \<and> t \<in> set tokens then Some True else None)"
  by (simp add: token_map_def token_map_fold)

lemma dom_token_map: "dom (token_map tokens) = set tokens - {''''}"
  by (auto simp: token_map_eq dom_def)

lemma finite_dom_token_map [simp]: "finite (dom (token_map tokens))"
  by (simp add: dom_token_map)

lemma map_get_token_map: "map_get False (token_map tokens) t \<longleftrightarrow> t \<noteq> '''' \<and> t \<in> set tokens"
  by (simp add: map_get_def token_map_eq)

definition usable_binding :: "(string \<rightharpoonup> string) \<Rightarrow> string \<Rightarrow> string \<Rightarrow> bool" where
  "usable_binding nodeTokens nodeID token \<longleftrightarrow>
     nodeTokens nodeID = Some token \<and> nodeID \<noteq> '''' \<and> token \<noteq> ''''"

lemma bind_tokens_fold:
  "fold (\<lambda>nodeID bound.
           case nodeTokens nodeID of
             None \<Rightarrow> bound
           | Some token \<Rightarrow> if nodeID \<noteq> '''' \<and> token \<noteq> '''' then bound(nodeID \<mapsto> token) else bound)
     ks b =
   (\<lambda>n. case nodeTokens n of
          None \<Rightarrow> b n
        | Some token \<Rightarrow> if n \<in> set ks \<and> n \<noteq> '''' \<and> token \<noteq> '''' then Some token else b n)"
  by (induction ks arbitrary: b) (auto simp: fun_eq_iff split: option.splits)

lemma bind_tokens_iff:
  assumes "go_range ks nodeTokens"
  shows "bind_tokens ks nodeTokens n = Some t \<longleftrightarrow> usable_binding nodeTokens n t"
  using go_rangeD(2) [OF assms]
  by (auto simp: bind_tokens_def bind_tokens_fold usable_binding_def dom_def split: option.splits)

lemma bind_tokens_order:
  assumes "go_range ks nodeTokens" and "go_range ks' nodeTokens"
  shows "bind_tokens ks nodeTokens = bind_tokens ks' nodeTokens"
proof
  fix n
  show "bind_tokens ks nodeTokens n = bind_tokens ks' nodeTokens n"
    by (metis bind_tokens_iff [OF assms(1)] bind_tokens_iff [OF assms(2)] option.exhaust)
qed

lemma dom_bind_tokens:
  assumes "go_range ks nodeTokens"
  shows "dom (bind_tokens ks nodeTokens) = {n. \<exists>t. usable_binding nodeTokens n t}"
  using bind_tokens_iff [OF assms] by (auto simp: dom_def)

lemma finite_dom_bind_tokens:
  assumes "go_range ks nodeTokens"
  shows "finite (dom (bind_tokens ks nodeTokens))"
proof (rule finite_subset)
  show "dom (bind_tokens ks nodeTokens) \<subseteq> dom nodeTokens"
    by (auto simp: dom_bind_tokens [OF assms] usable_binding_def)
  show "finite (dom nodeTokens)" by (rule go_range_finite [OF assms])
qed

lemma IdentityBound_iff:
  assumes "go_range ks nodeTokens"
  shows "IdentityBound (NewAuthPolicy ks enabled tokens nodeTokens) \<longleftrightarrow>
    enabled \<and> (\<exists>n t. usable_binding nodeTokens n t)"
  using map_len_0_iff [OF finite_dom_bind_tokens [OF assms]] dom_bind_tokens [OF assms]
  by (auto simp: IdentityBound_def NewAuthPolicy_def)

lemma some_bound_token_iff: "some_bound_token ks m token \<longleftrightarrow> (\<exists>k\<in>set ks. m k = Some token)"
  by (induction ks) auto

subsection \<open>What the policy decides\<close>

text \<open>
  With node-bound tokens in force (authentication on and at least one usable binding), a
  handshake is accepted exactly when it presents the non-empty token configured for the node id it
  claims: no token admits another node, the shared tokens do not matter, and neither does the
  order in which the constructor visited the configuration.
\<close>

lemma bound_token_admits_only_its_node:
  assumes "go_range ks nodeTokens"
    and "IdentityBound (NewAuthPolicy ks enabled tokens nodeTokens)"
  shows "AuthorizeNode (NewAuthPolicy ks enabled tokens nodeTokens) nodeID token = None \<longleftrightarrow>
    usable_binding nodeTokens nodeID token"
proof -
  let ?p = "NewAuthPolicy ks enabled tokens nodeTokens"
  have on: "ap_enabled ?p" "map_len (ap_nodeTokens ?p) > 0"
    using assms(2) by (simp_all add: IdentityBound_def)
  have tok: "ap_nodeTokens ?p nodeID = Some t \<longleftrightarrow> usable_binding nodeTokens nodeID t" for t
    using bind_tokens_iff [OF assms(1)] by (simp add: NewAuthPolicy_def)
  have "AuthorizeNode ?p nodeID token = None \<longleftrightarrow>
      token \<noteq> '''' \<and> ap_nodeTokens ?p nodeID = Some token"
    using on by (auto simp: AuthorizeNode_def split: option.splits)
  also have "\<dots> \<longleftrightarrow> usable_binding nodeTokens nodeID token"
    by (auto simp: tok usable_binding_def)
  finally show ?thesis .
qed

lemma bound_token_example:
  "AuthorizeNode (NewAuthPolicy [''a'', ''b''] True [''shared''] [''a'' \<mapsto> ''ta'', ''b'' \<mapsto> ''tb'']) ''b'' ''tb'' = None \<and>
   AuthorizeNode (NewAuthPolicy [''a'', ''b''] True [''shared''] [''a'' \<mapsto> ''ta'', ''b'' \<mapsto> ''tb'']) ''b'' ''ta'' \<noteq> None \<and>
   AuthorizeNode (NewAuthPolicy [''a'', ''b''] True [''shared''] [''a'' \<mapsto> ''ta'', ''b'' \<mapsto> ''tb'']) ''a'' ''shared'' \<noteq> None"
proof -
  let ?m = "[''a'' \<mapsto> ''ta'', ''b'' \<mapsto> ''tb'']"
  have r: "go_range [''a'', ''b''] ?m"
    by (auto simp: go_range_def)
  have "usable_binding ?m ''a'' ''ta''"
    by (simp add: usable_binding_def)
  then have b: "IdentityBound (NewAuthPolicy [''a'', ''b''] True [''shared''] ?m)"
    using IdentityBound_iff [OF r] by blast
  show ?thesis
    using bound_token_admits_only_its_node [OF r b, of "''b''" "''tb''"]
      bound_token_admits_only_its_node [OF r b, of "''b''" "''ta''"]
      bound_token_admits_only_its_node [OF r b, of "''a''" "''shared''"]
    by (simp add: usable_binding_def)
qed

text \<open>
  When no configured binding is usable (all node ids or tokens are blank), the policy silently
  falls back to the shared tokens, whatever node is claimed: an enabled policy accepts exactly the
  non-empty tokens of the shared list, and rejects everyone when that list is blank too. A
  disabled policy accepts everyone.
\<close>

lemma unbound_policy_decides_by_shared_tokens:
  assumes "go_range ks nodeTokens"
    and "\<not> IdentityBound (NewAuthPolicy ks enabled tokens nodeTokens)"
  shows "AuthorizeNode (NewAuthPolicy ks enabled tokens nodeTokens) nodeID token = None \<longleftrightarrow>
    \<not> enabled \<or> (token \<noteq> '''' \<and> token \<in> set tokens)"
proof (cases enabled)
  case True
  with assms(2) have "map_len (bind_tokens ks nodeTokens) = 0"
    by (simp add: IdentityBound_def NewAuthPolicy_def)
  moreover have "map_len (token_map tokens) = 0 \<longleftrightarrow> set tokens \<subseteq> {''''}"
    by (auto simp: map_len_def dom_token_map)
  ultimately show ?thesis
    using True by (auto simp: AuthorizeNode_def NewAuthPolicy_def map_get_token_map)
next
  case False
  then show ?thesis by (simp add: AuthorizeNode_def NewAuthPolicy_def)
qed

text \<open>A \<^verbatim>\<open>node_tokens\<close> map whose only token is blank leaves node ids unbound.\<close>

lemma blank_binding_example:
  "AuthorizeNode (NewAuthPolicy [''a''] True [''shared''] [''a'' \<mapsto> '''']) ''whoever'' ''shared'' = None"
proof -
  have r: "go_range [''a''] [''a'' \<mapsto> '''']"
    by (simp add: go_range_def)
  have "\<not> IdentityBound (NewAuthPolicy [''a''] True [''shared''] [''a'' \<mapsto> ''''])"
    unfolding IdentityBound_iff [OF r] by (simp add: usable_binding_def)
  then show ?thesis
    by (simp add: unbound_policy_decides_by_shared_tokens [OF r])
qed

text \<open>
  The deprecated \<^verbatim>\<open>Authorize\<close> accepts whatever \<^verbatim>\<open>AuthorizeNode\<close> accepts for some node, and under
  node-bound tokens strictly more: the shared tokens too.
\<close>

lemma AuthorizeNode_imp_Authorize:
  assumes "go_range ks' (ap_nodeTokens p)" and "AuthorizeNode p nodeID token = None"
  shows "Authorize ks' p token = None"
  using assms go_rangeD(2) [OF assms(1)]
  by (auto simp: AuthorizeNode_def Authorize_def some_bound_token_iff domI split: if_splits option.splits)

text \<open>
  C19. Whom an authentication policy admits, whatever order its constructor visits the configuration
  in: everyone when authentication is off. Otherwise, when some binding is usable (neither its node id
  nor its token is blank), exactly the handshakes that present the non-empty token configured for the
  node id they claim, so that no token admits another node and the shared tokens do not matter. When
  no binding is usable, the policy silently falls back to the non-empty shared tokens, each of which
  admits any node id.
\<close>

theorem policy_decides_by_configuration:
  assumes "go_range ks nodeTokens"
  shows "AuthorizeNode (NewAuthPolicy ks enabled tokens nodeTokens) nodeID token = None \<longleftrightarrow>
    \<not> enabled \<or>
    (if \<exists>n t. usable_binding nodeTokens n t then usable_binding nodeTokens nodeID token
     else token \<noteq> [] \<and> token \<in> set tokens)"
proof (cases "IdentityBound (NewAuthPolicy ks enabled tokens nodeTokens)")
  case True
  then show ?thesis
    using bound_token_admits_only_its_node [OF assms True] IdentityBound_iff [OF assms] by simp
next
  case False
  then show ?thesis
    using unbound_policy_decides_by_shared_tokens [OF assms False] IdentityBound_iff [OF assms] by auto
qed

theorem policy_decides_by_configuration_witness:
  "AuthorizeNode (NewAuthPolicy [''a'', ''b''] True [''shared''] [''a'' \<mapsto> ''ta'', ''b'' \<mapsto> ''tb'']) ''b'' ''tb'' = None \<and>
   AuthorizeNode (NewAuthPolicy [''a'', ''b''] True [''shared''] [''a'' \<mapsto> ''ta'', ''b'' \<mapsto> ''tb'']) ''b'' ''ta'' \<noteq> None \<and>
   AuthorizeNode (NewAuthPolicy [''a''] True [''shared''] [''a'' \<mapsto> []]) ''whoever'' ''shared'' = None"
proof -
  let ?m = "[''a'' \<mapsto> ''ta'', ''b'' \<mapsto> ''tb'']"
  have r: "go_range [''a'', ''b''] ?m" "go_range [''a''] [''a'' \<mapsto> []]" by (auto simp: go_range_def)
  have "usable_binding ?m ''a'' ''ta''" by (simp add: usable_binding_def)
  then have "\<exists>n t. usable_binding ?m n t" by blast
  then show ?thesis
    using policy_decides_by_configuration [OF r(1), of True "[''shared'']" "''b''" "''tb''"]
      policy_decides_by_configuration [OF r(1), of True "[''shared'']" "''b''" "''ta''"]
      policy_decides_by_configuration [OF r(2), of True "[''shared'']" "''whoever''" "''shared''"]
    by (auto simp: usable_binding_def)
qed

end
