(* ===== verification/Control_Types.thy ===== *)
theory Control_Types
  imports Mesh_Prelude "HOL-Library.Word"
begin

section \<open>Handshakes, heartbeats and control messages (pkg/control/types.go)\<close>

text \<open>
  The messages a node sends on its control stream and the checks made on them. Timestamps are
  \<^verbatim>\<open>int64\<close> seconds a peer chose freely, so the differences of \<^verbatim>\<open>Heartbeat.Validate\<close> and
  \<^verbatim>\<open>Handshake.ValidateBasics\<close> are taken with Go's wrap-around. The current Unix time is an
  argument. A nil slice or map is \<open>None\<close>. The values of \<^verbatim>\<open>map[string]interface{}\<close> are never
  looked at: they are the type parameter \<open>'v\<close>.
\<close>

subsection \<open>The messages\<close>

record handshake =
  hs_NodeID :: string
  hs_Version :: string
  hs_Features :: "string list option"
  hs_Metadata :: "(string \<rightharpoonup> string) option"
  hs_TimestampSec :: int
  hs_Token :: string

record 'v heartbeat =
  hb_NodeID :: string
  hb_TimestampUnixSec :: int
  hb_Sequence :: "64 word"
  hb_Metrics :: "(string \<rightharpoonup> 'v) option"
  hb_Status :: string

record 'v control_message =
  cm_Type :: string
  cm_Handshake :: "handshake option"
  cm_Heartbeat :: "'v heartbeat option"
  cm_Payload :: "(string \<rightharpoonup> 'v) option"

abbreviation ErrHandshakeExpired :: go_error where
  "ErrHandshakeExpired \<equiv> Sentinel ''control.ErrHandshakeExpired''"
abbreviation ErrHeartbeatExpired :: go_error where
  "ErrHeartbeatExpired \<equiv> Sentinel ''control.ErrHeartbeatExpired''"
abbreviation ErrHeartbeatInFuture :: go_error where
  "ErrHeartbeatInFuture \<equiv> Sentinel ''control.ErrHeartbeatInFuture''"

subsection \<open>Handshakes\<close>

definition ValidateBasics :: "int \<Rightarrow> handshake \<Rightarrow> go_error option" where
  "ValidateBasics now h =
     (if hs_NodeID h = '''' then Some (ErrorsNew ''node_id is required'')
      else if hs_Version h = '''' then Some (ErrorsNew ''version is required'')
      else if hs_TimestampSec h > 0 \<and> wrap64 (now - hs_TimestampSec h) > 300
        then Some ErrHandshakeExpired
      else None)"

fun Supports_loop :: "string list \<Rightarrow> string \<Rightarrow> bool" where
  "Supports_loop [] feature = False"
| "Supports_loop (f # fs) feature = (if f = feature then True else Supports_loop fs feature)"

definition Supports :: "handshake \<Rightarrow> string \<Rightarrow> bool" where
  "Supports h feature =
     (case hs_Features h of None \<Rightarrow> False | Some fs \<Rightarrow> Supports_loop fs feature)"

subsection \<open>Heartbeats\<close>

definition EnsureTimestamp :: "int \<Rightarrow> 'v heartbeat \<Rightarrow> 'v heartbeat" where
  "EnsureTimestamp now h =
     (if hb_TimestampUnixSec h = 0 then h\<lparr>hb_TimestampUnixSec := now\<rparr> else h)"

definition hb_Validate :: "int \<Rightarrow> 'v heartbeat \<Rightarrow> go_error option" where
  "hb_Validate now h =
     (if hb_NodeID h = '''' then Some (ErrorsNew ''node_id is required'')
      else if hb_TimestampUnixSec h > wrap64 (now + 10) then Some ErrHeartbeatInFuture
      else if wrap64 (now - hb_TimestampUnixSec h) > 120 then Some ErrHeartbeatExpired
      else None)"

text \<open>
  \<^verbatim>\<open>time.Unix\<close> counts a \<^verbatim>\<open>Time\<close>'s seconds from the year 1, so that seconds close to the end of the
  \<^verbatim>\<open>int64\<close> range wrap around. \<open>now\<close> is the wall clock in nanoseconds since 1970.
\<close>

definition unixToInternal :: int where
  "unixToInternal = 62135596800"

definition time_Unix :: "int \<Rightarrow> instant" where
  "time_Unix sec = (wrap64 (sec + unixToInternal) - unixToInternal) * second"

definition Age :: "instant \<Rightarrow> 'v heartbeat \<Rightarrow> duration" where
  "Age now h = time_Sub now (time_Unix (hb_TimestampUnixSec h))"

text \<open>\<open>ks\<close> is the order in which the copying loop visits the metrics.\<close>

definition hb_Clone :: "string list \<Rightarrow> 'v heartbeat \<Rightarrow> 'v heartbeat" where
  "hb_Clone ks h =
     (let src = (case hb_Metrics h of None \<Rightarrow> Map.empty | Some m \<Rightarrow> m);
          metrics = fold (\<lambda>k acc. acc(k := src k)) ks Map.empty
      in \<lparr>hb_NodeID = hb_NodeID h, hb_TimestampUnixSec = hb_TimestampUnixSec h,
          hb_Sequence = hb_Sequence h, hb_Metrics = Some metrics, hb_Status = hb_Status h\<rparr>)"

definition NewHeartbeatMessage :: "int \<Rightarrow> string \<Rightarrow> 64 word \<Rightarrow> 'v control_message" where
  "NewHeartbeatMessage now nodeID seq =
     \<lparr>cm_Type = ''heartbeat'', cm_Handshake = None,
      cm_Heartbeat = Some \<lparr>hb_NodeID = nodeID, hb_TimestampUnixSec = now, hb_Sequence = seq,
                           hb_Metrics = None, hb_Status = ''''\<rparr>,
      cm_Payload = None\<rparr>"

subsection \<open>Control messages\<close>

definition cm_Validate :: "int \<Rightarrow> 'v control_message \<Rightarrow> go_error option" where
  "cm_Validate now m =
     (if cm_Type m = '''' then Some (ErrorsNew ''type is required'')
      else if cm_Type m = ''handshake'' then
        (case cm_Handshake m of
           None \<Rightarrow> Some (ErrorsNew ''handshake is required for handshake message'')
         | Some h \<Rightarrow> ValidateBasics now h)
      else if cm_Type m = ''heartbeat'' then
        (case cm_Heartbeat m of
           None \<Rightarrow> Some (ErrorsNew ''heartbeat is required for heartbeat message'')
         | Some h \<Rightarrow> hb_Validate now h)
      else if cm_Type m = ''custom'' \<or> cm_Type m = ''update_methods'' then None
      else Some (ErrorsNew (''unknown message type: '' @ cm_Type m)))"

subsection \<open>Lemmas\<close>

lemma Supports_loop_iff: "Supports_loop fs feature \<longleftrightarrow> feature \<in> set fs"
  by (induction fs) auto

lemma Supports_iff: "Supports h feature \<longleftrightarrow> (\<exists>fs. hs_Features h = Some fs \<and> feature \<in> set fs)"
  by (simp add: Supports_def Supports_loop_iff split: option.splits)

text \<open>A clock reading the rest of the development calls sane: non-negative and far from overflow.\<close>

definition sane_clock :: "int \<Rightarrow> bool" where
  "sane_clock now \<longleftrightarrow> 0 \<le> now \<and> now \<le> 2 ^ 62"

lemma wrap64_now_plus: "sane_clock now \<Longrightarrow> wrap64 (now + 10) = now + 10"
  by (rule wrap64_id) (simp add: sane_clock_def int64_defs)

lemma wrap64_now_minus_pos:
  "sane_clock now \<Longrightarrow> int64_range ts \<Longrightarrow> 0 < ts \<Longrightarrow> wrap64 (now - ts) = now - ts"
  by (rule wrap64_id) (simp add: sane_clock_def int64_defs)

text \<open>The age of a timestamp no later than a sane clock, as the code computes it.\<close>

lemma wrap64_age:
  assumes "sane_clock now" and "int64_range ts" and "ts \<le> now + 10"
  shows "wrap64 (now - ts) > 120 \<longleftrightarrow> now - ts > 120 \<and> now - ts \<le> max_int64"
proof (cases "now - ts \<le> max_int64")
  case True
  with assms have "wrap64 (now - ts) = now - ts"
    by (intro wrap64_id) (simp add: int64_defs)
  with True show ?thesis by simp
next
  case False
  have "wrap64 (now - ts) = now - ts - 2 ^ 64"
  proof -
    have "(now - ts + 2 ^ 63) mod 2 ^ 64 = (now - ts + 2 ^ 63 - 2 ^ 64) mod (2 ^ 64 :: int)"
      by (rule minus_mod_self2 [symmetric])
    also have "\<dots> = now - ts + 2 ^ 63 - 2 ^ 64"
      using False assms by (intro mod_pos_pos_trivial) (simp_all add: int64_defs sane_clock_def)
    finally show ?thesis by (simp add: wrap64_def)
  qed
  with False assms show ?thesis by (simp add: int64_defs sane_clock_def)
qed

text \<open>
  In the window of \<^verbatim>\<open>Validate\<close>, \<^verbatim>\<open>Age\<close> is the difference of the seconds: nothing wraps or saturates.
\<close>

lemma time_Unix_sane: "int64_range (sec + unixToInternal) \<Longrightarrow> time_Unix sec = sec * second"
  by (simp add: time_Unix_def wrap64_id)

lemma Age_of_fresh:
  assumes "sane_clock now" and "now - 120 \<le> hb_TimestampUnixSec h" and "hb_TimestampUnixSec h \<le> now + 10"
  shows "Age (now * second) h = (now - hb_TimestampUnixSec h) * second"
proof -
  have "time_Unix (hb_TimestampUnixSec h) = hb_TimestampUnixSec h * second"
    using assms by (intro time_Unix_sane) (simp add: sane_clock_def int64_defs unixToInternal_def)
  moreover have "int64_range (now * second - hb_TimestampUnixSec h * second)"
    using assms by (simp add: int64_defs second_def)
  ultimately show ?thesis by (simp add: Age_def time_Sub_in_range left_diff_distrib)
qed

lemma ValidateBasics_None_iff:
  assumes "sane_clock now" and "int64_range (hs_TimestampSec h)"
  shows "ValidateBasics now h = None \<longleftrightarrow>
    hs_NodeID h \<noteq> '''' \<and> hs_Version h \<noteq> '''' \<and>
    (hs_TimestampSec h \<le> 0 \<or> now - hs_TimestampSec h \<le> 300)"
  using assms wrap64_now_minus_pos [of now "hs_TimestampSec h"]
  by (auto simp: ValidateBasics_def)

lemma ValidateBasics_NodeID: "ValidateBasics now h = None \<Longrightarrow> hs_NodeID h \<noteq> ''''"
  by (simp add: ValidateBasics_def split: if_splits)

lemma hb_Clone_id:
  assumes "go_range ks (case hb_Metrics h of None \<Rightarrow> Map.empty | Some m \<Rightarrow> m)"
  shows "hb_Clone ks h = h\<lparr>hb_Metrics := Some (case hb_Metrics h of None \<Rightarrow> Map.empty | Some m \<Rightarrow> m)\<rparr>"
  using fold_copy_map [OF assms] by (simp add: hb_Clone_def Let_def)

subsection \<open>What the checks accept\<close>

text \<open>
  C40. \<^verbatim>\<open>Heartbeat.Validate\<close> accepts exactly the heartbeats that name a node, are at most ten
  seconds ahead of the server's clock and at most 120 seconds behind it, and, because the age
  is an \<^verbatim>\<open>int64\<close> difference that wraps, those whose timestamp lies more than
  \<^verbatim>\<open>math.MaxInt64\<close> seconds in the past.
\<close>

theorem heartbeat_accepted_iff:
  assumes "sane_clock now" and "int64_range (hb_TimestampUnixSec h)"
  shows "hb_Validate now h = None \<longleftrightarrow>
    hb_NodeID h \<noteq> '''' \<and> hb_TimestampUnixSec h \<le> now + 10 \<and>
    (now - hb_TimestampUnixSec h \<le> 120 \<or> now - hb_TimestampUnixSec h > max_int64)"
proof (cases "hb_TimestampUnixSec h \<le> now + 10")
  case True
  with assms show ?thesis
    by (auto simp: hb_Validate_def wrap64_now_plus wrap64_age)
next
  case False
  with assms show ?thesis by (simp add: hb_Validate_def wrap64_now_plus)
qed

text \<open>Witness: the most negative timestamp, 292 billion years old, is accepted.\<close>

theorem heartbeat_accepted_iff_witness:
  "hb_Validate 1700000000
     \<lparr>hb_NodeID = ''n'', hb_TimestampUnixSec = min_int64, hb_Sequence = 1,
      hb_Metrics = (None :: (string \<rightharpoonup> unit) option), hb_Status = ''''\<rparr> = None"
  by (subst heartbeat_accepted_iff) (simp_all add: sane_clock_def int64_defs)

end
