(* ===== verification/Control_Stream.thy ===== *)
theory Control_Stream
  imports Control_Types
begin

unbundle bit_operations_syntax

section \<open>Length-prefixed frames on the control stream (pkg/control/stream.go)\<close>

text \<open>
  A control stream carries frames: a four-byte big-endian length, then that many bytes of JSON.
  The yamux stream below it belongs to a library. What the code can observe of it is the record
  \<open>wire\<close>: the pieces in which the peer's bytes will arrive (one per \<^verbatim>\<open>Read\<close>), the error
  that ends them, the outcome of each \<^verbatim>\<open>Write\<close>, and the answer of \<^verbatim>\<open>SetDeadline\<close>. All are
  arbitrary. The JSON codec is a parameter of the operations that use it.
\<close>

type_synonym byte = "8 word"

subsection \<open>The stream underneath\<close>

record wire =
  w_in :: "byte list list"                        \<comment> \<open>what each coming \<^verbatim>\<open>Read\<close> can deliver\<close>
  w_end :: go_error                               \<comment> \<open>what \<^verbatim>\<open>Read\<close> returns afterwards\<close>
  w_out :: "byte list"                            \<comment> \<open>bytes written so far\<close>
  w_writes :: "(nat \<times> go_error) option list"      \<comment> \<open>failures of the coming writes\<close>
  w_deadline :: "instant option"
  w_deadline_error :: "go_error option"
  w_closed :: bool

definition stream_Write :: "byte list \<Rightarrow> wire \<Rightarrow> go_error option \<times> wire" where
  "stream_Write bs w =
     (case w_writes w of
        [] \<Rightarrow> (None, w\<lparr>w_out := w_out w @ bs\<rparr>)
      | None # ws \<Rightarrow> (None, w\<lparr>w_out := w_out w @ bs, w_writes := ws\<rparr>)
      | Some (n, e) # ws \<Rightarrow> (Some e, w\<lparr>w_out := w_out w @ take n bs, w_writes := ws\<rparr>))"

definition stream_SetDeadline :: "instant \<Rightarrow> wire \<Rightarrow> go_error option \<times> wire" where
  "stream_SetDeadline t w =
     (case w_deadline_error w of
        Some e \<Rightarrow> (Some e, w)
      | None \<Rightarrow> (None, w\<lparr>w_deadline := Some t\<rparr>))"

definition stream_Close :: "wire \<Rightarrow> wire" where
  "stream_Close w = w\<lparr>w_closed := True\<rparr>"

text \<open>
  \<^verbatim>\<open>io.ReadFull\<close> reads piece after piece until the buffer of \<open>n\<close> bytes is full; a \<^verbatim>\<open>Read\<close>
  takes no more of a piece than the buffer holds. An end before the first byte is the stream's
  own error, an EOF in the middle is \<^verbatim>\<open>io.ErrUnexpectedEOF\<close>.
\<close>

fun read_loop :: "nat \<Rightarrow> byte list \<Rightarrow> byte list list \<Rightarrow> byte list \<times> byte list list \<times> bool" where
  "read_loop 0 acc cs = (acc, cs, True)"
| "read_loop (Suc n) acc [] = (acc, [], False)"
| "read_loop (Suc n) acc (c # cs) =
     (if length c \<le> Suc n then read_loop (Suc n - length c) (acc @ c) cs
      else (acc @ take (Suc n) c, drop (Suc n) c # cs, True))"

definition io_ReadFull :: "nat \<Rightarrow> wire \<Rightarrow> byte list result \<times> wire" where
  "io_ReadFull n w =
     (case read_loop n [] (w_in w) of
        (bs, cs, full) \<Rightarrow>
          (if full then Inr bs
           else if bs = [] then Inl (w_end w)
           else if w_end w = io_EOF then Inl io_ErrUnexpectedEOF
           else Inl (w_end w),
           w\<lparr>w_in := cs\<rparr>))"

subsection \<open>Big-endian lengths\<close>

definition PutUint32 :: "32 word \<Rightarrow> byte list" where
  "PutUint32 v = [ucast (drop_bit 24 v), ucast (drop_bit 16 v), ucast (drop_bit 8 v), ucast v]"

fun Uint32 :: "byte list \<Rightarrow> 32 word" where
  "Uint32 [b0, b1, b2, b3] =
     ucast b3 OR push_bit 8 (ucast b2) OR push_bit 16 (ucast b1) OR push_bit 24 (ucast b0)"
| "Uint32 _ = 0"

lemma length_PutUint32 [simp]: "length (PutUint32 v) = 4"
  by (simp add: PutUint32_def)

lemma Uint32_PutUint32 [simp]: "Uint32 (PutUint32 v) = v"
proof (rule bit_word_eqI)
  fix n
  assume "n < LENGTH(32)"
  then show "bit (Uint32 (PutUint32 v)) n = bit v n"
    by (cases "24 \<le> n"; cases "16 \<le> n"; cases "8 \<le> n")
       (auto simp: PutUint32_def bit_simps)
qed

lemma bytes4_cases:
  assumes "length bs = 4"
  obtains b0 b1 b2 b3 where "bs = [b0, b1, b2, b3]"
proof -
  have "bs = [bs ! 0, bs ! 1, bs ! 2, bs ! 3]"
    using assms by (intro nth_equalityI) (auto simp: less_Suc_eq numeral_eq_Suc nth_Cons')
  then show ?thesis by (rule that)
qed

lemma bit_byte_beyond [simp]: "8 \<le> n \<Longrightarrow> \<not> bit (b :: byte) n"
  using bit_imp_le_length [of b n] by auto

lemma PutUint32_Uint32: "length bs = 4 \<Longrightarrow> PutUint32 (Uint32 bs) = bs"
  by (erule bytes4_cases)
     (auto simp: PutUint32_def bit_simps intro!: bit_word_eqI)

subsection \<open>The control stream\<close>

definition defaultMaxFrame :: "32 word" where
  "defaultMaxFrame = push_bit 20 1"

definition frameHeaderSize :: nat where
  "frameHeaderSize = 4"

record control_stream =
  cs_stream :: wire
  cs_maxFrame :: "32 word"
  cs_deadline :: duration

definition NewControlStream :: "wire \<Rightarrow> control_stream" where
  "NewControlStream w = \<lparr>cs_stream = w, cs_maxFrame = defaultMaxFrame, cs_deadline = 30 * second\<rparr>"

definition cs_Close :: "control_stream \<Rightarrow> control_stream" where
  "cs_Close cs = cs\<lparr>cs_stream := stream_Close (cs_stream cs)\<rparr>"

definition cs_SetDeadline :: "duration \<Rightarrow> control_stream \<Rightarrow> control_stream" where
  "cs_SetDeadline d cs = cs\<lparr>cs_deadline := d\<rparr>"

definition applyDeadline :: "instant \<Rightarrow> control_stream \<Rightarrow> go_error option \<times> control_stream" where
  "applyDeadline now cs =
     (if cs_deadline cs > 0 then
        (case stream_SetDeadline (now + cs_deadline cs) (cs_stream cs) of
           (e, w) \<Rightarrow> (e, cs\<lparr>cs_stream := w\<rparr>))
      else (None, cs))"

definition SendFrame :: "instant \<Rightarrow> byte list \<Rightarrow> control_stream \<Rightarrow> go_error option \<times> control_stream" where
  "SendFrame now data cs =
     (if length data > unat (cs_maxFrame cs) then
        (Some (Errorf ''frame size %d exceeds max %d''
                 [ArgInt (int (length data)), ArgInt (uint (cs_maxFrame cs))]), cs)
      else
        (case applyDeadline now cs of
           (Some e, cs1) \<Rightarrow> (Some e, cs1)
         | (None, cs1) \<Rightarrow>
             (case stream_Write (PutUint32 (word_of_nat (length data))) (cs_stream cs1) of
                (Some e, w) \<Rightarrow>
                  (Some (Wrapf ''failed to write frame header: %w'' [] e), cs1\<lparr>cs_stream := w\<rparr>)
              | (None, w) \<Rightarrow>
                  (case stream_Write data w of
                     (Some e, w') \<Rightarrow>
                       (Some (Wrapf ''failed to write frame payload: %w'' [] e), cs1\<lparr>cs_stream := w'\<rparr>)
                   | (None, w') \<Rightarrow> (None, cs1\<lparr>cs_stream := w'\<rparr>)))))"

definition ReceiveFrame :: "instant \<Rightarrow> control_stream \<Rightarrow> byte list result \<times> control_stream" where
  "ReceiveFrame now cs =
     (case applyDeadline now cs of
        (Some e, cs1) \<Rightarrow> (Inl e, cs1)
      | (None, cs1) \<Rightarrow>
          (case io_ReadFull frameHeaderSize (cs_stream cs1) of
             (Inl e, w) \<Rightarrow> (Inl (Wrapf ''failed to read frame header: %w'' [] e), cs1\<lparr>cs_stream := w\<rparr>)
           | (Inr header, w) \<Rightarrow>
               let len = Uint32 header in
               if len > cs_maxFrame cs1 then
                 (Inl (Errorf ''frame length %d exceeds limit %d''
                         [ArgInt (uint len), ArgInt (uint (cs_maxFrame cs1))]), cs1\<lparr>cs_stream := w\<rparr>)
               else
                 (case io_ReadFull (unat len) w of
                    (Inl e, w') \<Rightarrow>
                      (Inl (Wrapf ''failed to read frame payload: %w'' [] e), cs1\<lparr>cs_stream := w'\<rparr>)
                  | (Inr payload, w') \<Rightarrow> (Inr payload, cs1\<lparr>cs_stream := w'\<rparr>))))"

subsection \<open>JSON messages\<close>

text \<open>
  \<open>marshal\<close> and \<open>unmarshal\<close> stand for \<^verbatim>\<open>json.Marshal\<close> and \<^verbatim>\<open>json.Unmarshal\<close> at the message's
  type.
\<close>

definition SendJSON ::
  "('a \<Rightarrow> byte list result) \<Rightarrow> instant \<Rightarrow> 'a \<Rightarrow> control_stream \<Rightarrow> go_error option \<times> control_stream" where
  "SendJSON marshal now v cs =
     (case marshal v of
        Inl e \<Rightarrow> (Some (Wrapf ''failed to marshal JSON: %w'' [] e), cs)
      | Inr data \<Rightarrow> SendFrame now data cs)"

definition ReceiveJSON ::
  "(byte list \<Rightarrow> 'a result) \<Rightarrow> instant \<Rightarrow> control_stream \<Rightarrow> 'a result \<times> control_stream" where
  "ReceiveJSON unmarshal now cs =
     (case ReceiveFrame now cs of
        (Inl e, cs') \<Rightarrow> (Inl e, cs')
      | (Inr data, cs') \<Rightarrow>
          (case unmarshal data of
             Inl e \<Rightarrow> (Inl (Wrapf ''failed to unmarshal JSON: %w'' [] e), cs')
           | Inr v \<Rightarrow> (Inr v, cs')))"

definition SendHandshake ::
  "('v control_message \<Rightarrow> byte list result) \<Rightarrow> instant \<Rightarrow> handshake \<Rightarrow> control_stream
     \<Rightarrow> go_error option \<times> control_stream" where
  "SendHandshake marshal now h cs =
     SendJSON marshal now
       \<lparr>cm_Type = ''handshake'', cm_Handshake = Some h, cm_Heartbeat = None, cm_Payload = None\<rparr> cs"

text \<open>\<open>unix\<close> is the wall clock in seconds, \<open>now\<close> the clock the deadlines use.\<close>

definition ReceiveHandshake ::
  "(byte list \<Rightarrow> handshake result) \<Rightarrow> instant \<Rightarrow> int \<Rightarrow> control_stream
     \<Rightarrow> handshake result \<times> control_stream" where
  "ReceiveHandshake unmarshal now unix cs =
     (case ReceiveJSON unmarshal now cs of
        (Inl e, cs') \<Rightarrow> (Inl e, cs')
      | (Inr h, cs') \<Rightarrow>
          (case ValidateBasics unix h of
             Some e \<Rightarrow> (Inl e, cs')
           | None \<Rightarrow> (Inr h, cs')))"

definition SendHeartbeat ::
  "('v control_message \<Rightarrow> byte list result) \<Rightarrow> instant \<Rightarrow> 'v heartbeat \<Rightarrow> control_stream
     \<Rightarrow> go_error option \<times> control_stream" where
  "SendHeartbeat marshal now h cs =
     SendJSON marshal now
       \<lparr>cm_Type = ''heartbeat'', cm_Handshake = None, cm_Heartbeat = Some h, cm_Payload = None\<rparr> cs"

definition ReceiveHeartbeat ::
  "(byte list \<Rightarrow> 'v control_message result) \<Rightarrow> instant \<Rightarrow> control_stream
     \<Rightarrow> 'v heartbeat result \<times> control_stream" where
  "ReceiveHeartbeat unmarshal now cs =
     (case ReceiveJSON unmarshal now cs of
        (Inl e, cs') \<Rightarrow> (Inl e, cs')
      | (Inr msg, cs') \<Rightarrow>
          if cm_Type msg \<noteq> ''heartbeat'' then
            (Inl (Errorf ''expected heartbeat, got %s'' [ArgStr (cm_Type msg)]), cs')
          else
            (case cm_Heartbeat msg of
               None \<Rightarrow> (Inl (Errorf ''heartbeat payload is nil'' []), cs')
             | Some h \<Rightarrow> (Inr h, cs')))"

definition SendControlMessage ::
  "('v control_message \<Rightarrow> byte list result) \<Rightarrow> instant \<Rightarrow> 'v control_message \<Rightarrow> control_stream
     \<Rightarrow> go_error option \<times> control_stream" where
  "SendControlMessage marshal now msg cs = SendJSON marshal now msg cs"

definition ReceiveControlMessage ::
  "(byte list \<Rightarrow> 'v control_message result) \<Rightarrow> instant \<Rightarrow> int \<Rightarrow> control_stream
     \<Rightarrow> 'v control_message result \<times> control_stream" where
  "ReceiveControlMessage unmarshal now unix cs =
     (case ReceiveJSON unmarshal now cs of
        (Inl e, cs') \<Rightarrow> (Inl e, cs')
      | (Inr msg, cs') \<Rightarrow>
          (case cm_Validate unix msg of
             Some e \<Rightarrow> (Inl e, cs')
           | None \<Rightarrow> (Inr msg, cs')))"

definition ReceiveControlMessageRaw ::
  "(byte list \<Rightarrow> 'v control_message result) \<Rightarrow> instant \<Rightarrow> control_stream
     \<Rightarrow> 'v control_message result \<times> control_stream" where
  "ReceiveControlMessageRaw unmarshal now cs =
     (case ReceiveFrame now cs of
        (Inl e, cs') \<Rightarrow> (Inl e, cs')
      | (Inr data, cs') \<Rightarrow>
          (case unmarshal data of
             Inl e \<Rightarrow> (Inl (Wrapf ''failed to unmarshal control message: %w'' [] e), cs')
           | Inr msg \<Rightarrow> (Inr msg, cs')))"

definition ParseHandshakeFrame ::
  "(byte list \<Rightarrow> 'v control_message result) \<Rightarrow> byte list \<Rightarrow> handshake result" where
  "ParseHandshakeFrame unmarshal data =
     (case unmarshal data of
        Inl e \<Rightarrow> Inl e
      | Inr msg \<Rightarrow>
          if cm_Type msg \<noteq> ''handshake'' then Inl (Errorf ''not a handshake message'' [])
          else (case cm_Handshake msg of
                  None \<Rightarrow> Inl (Errorf ''not a handshake message'' [])
                | Some h \<Rightarrow> Inr h))"

text \<open>\<open>accept\<close> is the outcome of \<^verbatim>\<open>session.AcceptStream()\<close>.\<close>

definition AcceptControlStream :: "wire result \<Rightarrow> control_stream result" where
  "AcceptControlStream accept =
     (case accept of
        Inl e \<Rightarrow> Inl (Wrapf ''failed to accept stream: %w'' [] e)
      | Inr w \<Rightarrow> Inr (NewControlStream w))"

subsection \<open>Feature lists\<close>

fun normalize_loop :: "string list \<Rightarrow> (string \<Rightarrow> bool) \<Rightarrow> string list \<Rightarrow> string list" where
  "normalize_loop [] seen result = result"
| "normalize_loop (f # fs) seen result =
     (if \<not> seen f then normalize_loop fs (seen(f := True)) (result @ [f])
      else normalize_loop fs seen result)"

definition normalizeFeatures :: "string list \<Rightarrow> string list" where
  "normalizeFeatures features = normalize_loop features (\<lambda>_. False) []"

definition toSet :: "string list \<Rightarrow> (string \<rightharpoonup> bool)" where
  "toSet items = fold (\<lambda>item set. set(item \<mapsto> True)) items Map.empty"


subsection \<open>Reading is independent of fragmentation\<close>

lemma read_loop_enough:
  "n \<le> length (concat cs) \<Longrightarrow>
   \<exists>cs'. read_loop n acc cs = (acc @ take n (concat cs), cs', True) \<and> concat cs' = drop n (concat cs)"
proof (induction n acc cs rule: read_loop.induct)
  case (3 n acc c cs)
  show ?case
  proof (cases "length c \<le> Suc n")
    case True
    with "3.prems" have "Suc n - length c \<le> length (concat cs)" by simp
    with "3.IH" True show ?thesis by (auto simp: drop_all)
  next
    case False
    then show ?thesis by simp
  qed
qed auto

lemma read_loop_short:
  "length (concat cs) < n \<Longrightarrow> read_loop n acc cs = (acc @ concat cs, [], False)"
  by (induction n acc cs rule: read_loop.induct) auto

definition read_result :: "nat \<Rightarrow> byte list \<Rightarrow> go_error \<Rightarrow> byte list result" where
  "read_result n bs e =
     (if n \<le> length bs then Inr (take n bs)
      else if bs = [] then Inl e
      else if e = io_EOF then Inl io_ErrUnexpectedEOF else Inl e)"

lemma io_ReadFull_spec:
  "\<exists>cs. io_ReadFull n w = (read_result n (concat (w_in w)) (w_end w), w\<lparr>w_in := cs\<rparr>) \<and>
        concat cs = drop n (concat (w_in w))"
proof (cases "n \<le> length (concat (w_in w))")
  case True
  then show ?thesis
    using read_loop_enough [OF True, of "[]"] by (auto simp: io_ReadFull_def read_result_def)
next
  case False
  then show ?thesis
    using read_loop_short [of "w_in w" n "[]"]
    by (intro exI [of _ "[]"]) (simp add: io_ReadFull_def read_result_def)
qed

text \<open>The bytes a control stream can still deliver, and whether its deadline can be set.\<close>

definition stream_bytes :: "control_stream \<Rightarrow> byte list" where
  "stream_bytes cs = concat (w_in (cs_stream cs))"

definition deadline_ok :: "control_stream \<Rightarrow> bool" where
  "deadline_ok cs \<longleftrightarrow> cs_deadline cs \<le> 0 \<or> w_deadline_error (cs_stream cs) = None"

lemma applyDeadline_ok:
  assumes "deadline_ok cs"
  obtains d where "applyDeadline now cs = (None, cs\<lparr>cs_stream := (cs_stream cs)\<lparr>w_deadline := d\<rparr>\<rparr>)"
proof (cases "cs_deadline cs > 0")
  case True
  with assms show ?thesis
    by (intro that [of "Some (now + cs_deadline cs)"])
       (simp add: applyDeadline_def stream_SetDeadline_def deadline_ok_def)
next
  case False
  then show ?thesis
    by (intro that [of "w_deadline (cs_stream cs)"]) (simp add: applyDeadline_def)
qed

text \<open>
  The reference decoder works on the flat byte sequence: what the next frame is, and the bytes
  after it.
\<close>

definition parse_frame :: "32 word \<Rightarrow> go_error \<Rightarrow> byte list \<Rightarrow> byte list result \<times> byte list" where
  "parse_frame limit e bs =
     (case read_result 4 bs e of
        Inl err \<Rightarrow> (Inl (Wrapf ''failed to read frame header: %w'' [] err), [])
      | Inr header \<Rightarrow>
          let len = Uint32 header in
          if len > limit then
            (Inl (Errorf ''frame length %d exceeds limit %d'' [ArgInt (uint len), ArgInt (uint limit)]),
             drop 4 bs)
          else
            (case read_result (unat len) (drop 4 bs) e of
               Inl err \<Rightarrow> (Inl (Wrapf ''failed to read frame payload: %w'' [] err), [])
             | Inr payload \<Rightarrow> (Inr payload, drop (4 + unat len) bs)))"

lemma read_result_Inl: "read_result n (drop k bs) e = Inl err \<Longrightarrow> length bs \<le> k + n"
  by (auto simp: read_result_def split: if_splits)

lemma ReceiveFrame_parse:
  assumes "deadline_ok cs"
  obtains cs' where
    "ReceiveFrame now cs = (fst (parse_frame (cs_maxFrame cs) (w_end (cs_stream cs)) (stream_bytes cs)), cs')"
    "stream_bytes cs' = snd (parse_frame (cs_maxFrame cs) (w_end (cs_stream cs)) (stream_bytes cs))"
    "deadline_ok cs'" "cs_maxFrame cs' = cs_maxFrame cs" "w_end (cs_stream cs') = w_end (cs_stream cs)"
proof -
  let ?w = "cs_stream cs" and ?bs = "stream_bytes cs"
  obtain d where d: "applyDeadline now cs = (None, cs\<lparr>cs_stream := ?w\<lparr>w_deadline := d\<rparr>\<rparr>)"
    using applyDeadline_ok [OF assms] .
  let ?w1 = "?w\<lparr>w_deadline := d\<rparr>"
  obtain c1 where h: "io_ReadFull 4 ?w1 = (read_result 4 ?bs (w_end ?w), ?w1\<lparr>w_in := c1\<rparr>)"
      and c1: "concat c1 = drop 4 ?bs"
    using io_ReadFull_spec [of 4 ?w1] by (auto simp: stream_bytes_def)
  obtain c2 where p: "io_ReadFull m (?w1\<lparr>w_in := c1\<rparr>) =
        (read_result m (drop 4 ?bs) (w_end ?w), ?w1\<lparr>w_in := c2 m\<rparr>)"
      and c2: "concat (c2 m) = drop (4 + m) ?bs" for m
  proof -
    have "\<forall>m. \<exists>c. io_ReadFull m (?w1\<lparr>w_in := c1\<rparr>) = (read_result m (drop 4 ?bs) (w_end ?w), ?w1\<lparr>w_in := c\<rparr>) \<and>
          concat c = drop (4 + m) ?bs"
      using io_ReadFull_spec [of _ "?w1\<lparr>w_in := c1\<rparr>"] c1 by (simp add: add.commute)
    then show ?thesis using that by metis
  qed
  show ?thesis
    using assms d h c1 p c2 read_result_Inl [of 4 0 ?bs] read_result_Inl [of _ 4 ?bs]
    by (intro that [of "snd (ReceiveFrame now cs)"])
       (auto simp: ReceiveFrame_def parse_frame_def frameHeaderSize_def Let_def stream_bytes_def
          deadline_ok_def split: sum.splits)
qed


text \<open>
  A frame as it stands on the wire; parsing one that starts the bytes yields its payload and
  what follows it.
\<close>

definition frame_bytes :: "byte list \<Rightarrow> byte list" where
  "frame_bytes data = PutUint32 (word_of_nat (length data)) @ data"

lemma unat_length_frame:
  assumes "length data \<le> unat (limit :: 32 word)"
  shows "unat (word_of_nat (length data) :: 32 word) = length data"
proof -
  have "unat limit < 2 ^ LENGTH(32)" by (rule unsigned_less)
  with assms show ?thesis by (simp add: unat_of_nat)
qed

lemma parse_frame_empty [simp]:
  "parse_frame limit e [] = (Inl (Wrapf ''failed to read frame header: %w'' [] e), [])"
  by (simp add: parse_frame_def read_result_def)

lemma parse_frame_frame_bytes:
  assumes "length data \<le> unat limit"
  shows "parse_frame limit e (frame_bytes data @ rest) = (Inr data, rest)"
  using unat_length_frame [OF assms] assms
  by (simp add: parse_frame_def frame_bytes_def read_result_def Let_def word_less_nat_alt)

lemma SendFrame_Some_or_frame:
  assumes "SendFrame now data cs = (None, cs')"
  shows "length data \<le> unat (cs_maxFrame cs)"
    and "w_out (cs_stream cs') = w_out (cs_stream cs) @ frame_bytes data"
    and "cs_maxFrame cs' = cs_maxFrame cs"
  using assms
  by (auto simp: SendFrame_def applyDeadline_def stream_SetDeadline_def stream_Write_def frame_bytes_def
      split: if_splits option.splits list.splits prod.splits)

fun SendFrames :: "instant \<Rightarrow> byte list list \<Rightarrow> control_stream \<Rightarrow> go_error option \<times> control_stream" where
  "SendFrames now [] cs = (None, cs)"
| "SendFrames now (d # ds) cs =
     (case SendFrame now d cs of
        (Some e, cs') \<Rightarrow> (Some e, cs')
      | (None, cs') \<Rightarrow> SendFrames now ds cs')"

fun ReceiveFrames :: "instant \<Rightarrow> nat \<Rightarrow> control_stream \<Rightarrow> byte list list result \<times> control_stream" where
  "ReceiveFrames now 0 cs = (Inr [], cs)"
| "ReceiveFrames now (Suc n) cs =
     (case ReceiveFrame now cs of
        (Inl e, cs') \<Rightarrow> (Inl e, cs')
      | (Inr d, cs') \<Rightarrow>
          (case ReceiveFrames now n cs' of
             (Inl e, cs'') \<Rightarrow> (Inl e, cs'')
           | (Inr ds, cs'') \<Rightarrow> (Inr (d # ds), cs'')))"

lemma SendFrames_out:
  "SendFrames now ds cs = (None, cs') \<Longrightarrow>
   w_out (cs_stream cs') = w_out (cs_stream cs) @ concat (map frame_bytes ds) \<and>
   (\<forall>d\<in>set ds. length d \<le> unat (cs_maxFrame cs))"
proof (induction ds arbitrary: cs)
  case (Cons d ds)
  then obtain cs1 where "SendFrame now d cs = (None, cs1)" and "SendFrames now ds cs1 = (None, cs')"
    by (auto split: prod.splits option.splits)
  with Cons.IH [of cs1] SendFrame_Some_or_frame [of now d cs cs1] show ?case by simp
qed simp

lemma ReceiveFrames_in:
  assumes "deadline_ok cs" and "\<forall>d\<in>set ds. length d \<le> unat (cs_maxFrame cs)"
    and "stream_bytes cs = concat (map frame_bytes ds) @ rest"
  shows "\<exists>cs'. ReceiveFrames now (length ds) cs = (Inr ds, cs') \<and> stream_bytes cs' = rest \<and>
    deadline_ok cs' \<and> cs_maxFrame cs' = cs_maxFrame cs \<and> w_end (cs_stream cs') = w_end (cs_stream cs)"
  using assms
proof (induction ds arbitrary: cs)
  case (Cons d ds)
  obtain cs1 where r: "ReceiveFrame now cs = (Inr d, cs1)"
    and cs1: "stream_bytes cs1 = concat (map frame_bytes ds) @ rest" "deadline_ok cs1"
      "cs_maxFrame cs1 = cs_maxFrame cs" "w_end (cs_stream cs1) = w_end (cs_stream cs)"
    using ReceiveFrame_parse [OF Cons.prems(1), of now] Cons.prems
      parse_frame_frame_bytes [of d "cs_maxFrame cs" "w_end (cs_stream cs)"] by auto
  from Cons.IH [OF cs1(2) _ cs1(1)] Cons.prems(2) cs1 obtain cs2 where
    "ReceiveFrames now (length ds) cs1 = (Inr ds, cs2)" "stream_bytes cs2 = rest" "deadline_ok cs2"
    "cs_maxFrame cs2 = cs_maxFrame cs" "w_end (cs_stream cs2) = w_end (cs_stream cs)"
    by auto
  with r show ?case by auto
qed auto

subsection \<open>What travels over a control stream\<close>

text \<open>
  C11. \<^verbatim>\<open>ReceiveFrame\<close> is the reference decoder of the flat byte sequence: however the network
  cuts the bytes into reads, it returns the frame, or the error, that the bytes determine, leaves
  exactly the bytes behind that frame, and never returns a frame longer than the limit.
\<close>

theorem ReceiveFrame_refines_parse_frame:
  assumes "deadline_ok cs"
  shows "fst (ReceiveFrame now cs) =
      fst (parse_frame (cs_maxFrame cs) (w_end (cs_stream cs)) (concat (w_in (cs_stream cs)))) \<and>
    concat (w_in (cs_stream (snd (ReceiveFrame now cs)))) =
      snd (parse_frame (cs_maxFrame cs) (w_end (cs_stream cs)) (concat (w_in (cs_stream cs))))"
proof -
  let ?p = "parse_frame (cs_maxFrame cs) (w_end (cs_stream cs)) (stream_bytes cs)"
  obtain cs' where "ReceiveFrame now cs = (fst ?p, cs')" and "stream_bytes cs' = snd ?p"
    using ReceiveFrame_parse [OF assms] by metis
  then show ?thesis by (simp add: stream_bytes_def)
qed

text \<open>
  C12. The frames a sender wrote without an error arrive, in order and intact, however the network
  fragments them; the receiver only needs a limit no smaller than the
  sender's. After the last frame of a stream that ends there, the receiver reports the end of
  the stream, which \<^verbatim>\<open>errors.Is(err, io.EOF)\<close> recognises.
\<close>

theorem frames_arrive:
  assumes "SendFrames now ds snd0 = (None, snd1)"
    and "w_out (cs_stream snd0) = []"
    and "concat (w_in (cs_stream rcv)) = w_out (cs_stream snd1)"
    and "w_end (cs_stream rcv) = io_EOF"
    and "cs_maxFrame snd0 \<le> cs_maxFrame rcv"
    and "deadline_ok rcv"
  shows "\<exists>rcv'. ReceiveFrames now' (length ds) rcv = (Inr ds, rcv') \<and>
    (\<exists>e. fst (ReceiveFrame now'' rcv') = Inl e \<and> errors_Is e io_EOF)"
proof -
  have "stream_bytes rcv = concat (map frame_bytes ds) @ []"
    using SendFrames_out [OF assms(1)] assms(2,3) by (simp add: stream_bytes_def)
  moreover have "\<forall>d\<in>set ds. length d \<le> unat (cs_maxFrame rcv)"
    using SendFrames_out [OF assms(1)] assms(5) by (auto simp: word_le_nat_alt)
  ultimately obtain rcv' where r: "ReceiveFrames now' (length ds) rcv = (Inr ds, rcv')"
      and rcv': "stream_bytes rcv' = []" "deadline_ok rcv'" "w_end (cs_stream rcv') = io_EOF"
    using ReceiveFrames_in [OF assms(6)] assms(4) by metis
  have "fst (ReceiveFrame now'' rcv') = Inl (Wrapf ''failed to read frame header: %w'' [] io_EOF)"
    using ReceiveFrame_parse [OF rcv'(2), of now''] rcv'(1,3) by (metis fst_conv parse_frame_empty)
  with r show ?thesis by simp
qed

text \<open>A stream with nothing to read, on which the witnesses run.\<close>

definition demo_wire :: wire where
  "demo_wire = \<lparr>w_in = [], w_end = io_EOF, w_out = [], w_writes = [], w_deadline = None,
     w_deadline_error = None, w_closed = False\<rparr>"

lemma demo_send: "SendFrames 0 [[7, 8], []] (NewControlStream demo_wire) =
  (None, NewControlStream demo_wire\<lparr>cs_stream := demo_wire\<lparr>w_out := [0, 0, 0, 2, 7, 8, 0, 0, 0, 0],
                     w_deadline := Some (30 * second)\<rparr>\<rparr>)"
  by (simp add: SendFrame_def applyDeadline_def stream_SetDeadline_def stream_Write_def NewControlStream_def demo_wire_def second_def defaultMaxFrame_def PutUint32_def)

theorem ReceiveFrame_refines_parse_frame_witness:
  "deadline_ok (NewControlStream (demo_wire\<lparr>w_in := [[0, 0], [0, 2, 7], [8, 9]]\<rparr>)) \<and>
   fst (ReceiveFrame 0 (NewControlStream (demo_wire\<lparr>w_in := [[0, 0], [0, 2, 7], [8, 9]]\<rparr>))) = Inr [7, 8]"
proof -
  let ?cs = "NewControlStream (demo_wire\<lparr>w_in := [[0, 0], [0, 2, 7], [8, 9]]\<rparr>)"
  have ok: "deadline_ok ?cs"
    by (simp add: deadline_ok_def NewControlStream_def demo_wire_def)
  have "fst (parse_frame (cs_maxFrame ?cs) (w_end (cs_stream ?cs)) (concat (w_in (cs_stream ?cs)))) = Inr [7, 8]"
    by (simp add: parse_frame_def NewControlStream_def demo_wire_def read_result_def defaultMaxFrame_def Let_def)
  with ReceiveFrame_refines_parse_frame [OF ok, of 0] ok show ?thesis by simp
qed

theorem frames_arrive_witness:
  "\<exists>rcv'. ReceiveFrames 0 2
     (NewControlStream (demo_wire\<lparr>w_in := [[0, 0], [0, 2, 7], [8, 0, 0, 0], [0]]\<rparr>)) = (Inr [[7, 8], []], rcv')"
proof -
  let ?rcv = "NewControlStream (demo_wire\<lparr>w_in := [[0, 0], [0, 2, 7], [8, 0, 0, 0], [0]]\<rparr>)"
  have "deadline_ok ?rcv" 
    by (simp add: deadline_ok_def NewControlStream_def demo_wire_def)
  then show ?thesis
    using frames_arrive [OF demo_send, of ?rcv 0 0]
    by (auto simp: NewControlStream_def demo_wire_def numeral_2_eq_2)
qed

subsection \<open>Feature lists and handshakes: what the helpers compute\<close>

lemma remdups_snoc: "remdups (xs @ [x]) = filter (\<lambda>y. y \<noteq> x) (remdups xs) @ [x]"
  by (induction xs) auto

lemma normalize_loop_eq:
  "normalize_loop fs seen result = result @ rev (remdups (rev (filter (\<lambda>f. \<not> seen f) fs)))"
proof (induction fs seen result rule: normalize_loop.induct)
  case (2 f fs seen result)
  have "(\<lambda>g. \<not> (seen(f := True)) g) = (\<lambda>g. \<not> seen g \<and> g \<noteq> f)" by auto
  with "2" show ?case
    by (auto simp: remdups_snoc rev_filter remdups_filter simp del: fun_upd_apply)
qed simp

text \<open>
  \<^verbatim>\<open>normalizeFeatures\<close> removes duplicates and keeps the first occurrence of each feature,
  in order: it is the library's \<open>remdups\<close>, which keeps the last ones, run from the other end.
\<close>

lemma normalizeFeatures_keeps_first_occurrences:
  "normalizeFeatures features = rev (remdups (rev features))"
  by (simp add: normalizeFeatures_def normalize_loop_eq)

lemma toSet_fold: "fold (\<lambda>item set. set(item \<mapsto> True)) items m = (\<lambda>x. if x \<in> set items then Some True else m x)"
  by (induction items arbitrary: m) (auto simp: fun_eq_iff)

lemma map_get_toSet: "map_get False (toSet items) x \<longleftrightarrow> x \<in> set items"
  by (simp add: toSet_def toSet_fold map_get_def)

lemma ReceiveHandshake_valid:
  "ReceiveHandshake unmarshal now unix cs = (Inr h, cs') \<Longrightarrow> ValidateBasics unix h = None"
  by (auto simp: ReceiveHandshake_def split: sum.splits prod.splits option.splits)

end
