(* ===== verification/Go_Strings.thy ===== *)
theory Go_Strings
  imports Mesh_Prelude "HOL-Library.Sublist"
begin

section \<open>The functions of Go's strings package that the server uses\<close>

text \<open>
  A Go string is a sequence of bytes, here a list of \<open>char\<close>. The functions below are the ones
  \<^verbatim>\<open>pkg/registry\<close>, \<^verbatim>\<open>pkg/server\<close>, \<^verbatim>\<open>pkg/reverse\<close> and \<^verbatim>\<open>pkg/logging\<close> call, with the lemmas
  their clients need.
\<close>

subsection \<open>Prefixes, suffixes and substrings\<close>

definition HasPrefix :: "string \<Rightarrow> string \<Rightarrow> bool" where
  "HasPrefix s p \<longleftrightarrow> length p \<le> length s \<and> take (length p) s = p"

definition HasSuffix :: "string \<Rightarrow> string \<Rightarrow> bool" where
  "HasSuffix s p \<longleftrightarrow> length p \<le> length s \<and> drop (length s - length p) s = p"

fun Contains :: "string \<Rightarrow> string \<Rightarrow> bool" where
  "Contains [] sub = (sub = [])"
| "Contains (c # s) sub = (HasPrefix (c # s) sub \<or> Contains s sub)"

definition TrimPrefix :: "string \<Rightarrow> string \<Rightarrow> string" where
  "TrimPrefix s p = (if HasPrefix s p then drop (length p) s else s)"

definition TrimSuffix :: "string \<Rightarrow> string \<Rightarrow> string" where
  "TrimSuffix s p = (if HasSuffix s p then take (length s - length p) s else s)"

text \<open>\<^verbatim>\<open>strings.Trim\<close> with a cutset of one ASCII character.\<close>

definition Trim :: "string \<Rightarrow> char \<Rightarrow> string" where
  "Trim s c = rev (dropWhile (\<lambda>x. x = c) (rev (dropWhile (\<lambda>x. x = c) s)))"

lemma HasPrefix_iff: "HasPrefix s p \<longleftrightarrow> (\<exists>r. s = p @ r)"
  unfolding HasPrefix_def by (metis append_eq_conv_conj append_take_drop_id length_append le_add1)

lemma HasPrefix_prefix: "HasPrefix s p \<longleftrightarrow> prefix p s"
  by (simp add: HasPrefix_iff prefix_def)

lemma HasSuffix_iff: "HasSuffix s p \<longleftrightarrow> (\<exists>r. s = r @ p)"
proof
  assume "HasSuffix s p"
  then have "s = take (length s - length p) s @ p"
    unfolding HasSuffix_def by (metis append_take_drop_id)
  then show "\<exists>r. s = r @ p" ..
qed (auto simp: HasSuffix_def)

lemma Contains_iff: "Contains s sub \<longleftrightarrow> (\<exists>l r. s = l @ sub @ r)"
proof (induction s)
  case Nil
  then show ?case by simp
next
  case (Cons c s)
  have "(\<exists>l r. c # s = l @ sub @ r) \<longleftrightarrow> (\<exists>r. c # s = sub @ r) \<or> (\<exists>l r. s = l @ sub @ r)"
    by (metis append_Cons append_Nil list.exhaust list.inject)
  with Cons show ?case by (simp add: HasPrefix_iff)
qed

lemma HasPrefix_single: "HasPrefix s [c] \<longleftrightarrow> (\<exists>t. s = c # t)"
  by (simp add: HasPrefix_iff)

lemma HasSuffix_single: "HasSuffix s [c] \<longleftrightarrow> (\<exists>t. s = t @ [c])"
  by (simp add: HasSuffix_iff)

lemma Contains_single: "Contains s [c] \<longleftrightarrow> c \<in> set s"
  by (auto simp: Contains_iff in_set_conv_decomp)

lemma TrimPrefix_app [simp]: "TrimPrefix (p @ s) p = s"
  by (simp add: TrimPrefix_def HasPrefix_def)

lemma TrimSuffix_app [simp]: "TrimSuffix (s @ p) p = s"
  by (simp add: TrimSuffix_def HasSuffix_def)

lemma Trim_both:
  assumes "c \<notin> set s" and "s \<noteq> []"
  shows "Trim (c # s @ [c]) c = s"
proof -
  from assms have "dropWhile (\<lambda>x. x = c) (s @ [c]) = s @ [c]"
    by (cases s) auto
  moreover from assms have "hd (rev s) \<in> set s"
    by (metis hd_in_set rev_is_Nil_conv set_rev)
  then have "dropWhile (\<lambda>x. x = c) (rev s) = rev s"
    using assms by (auto simp: dropWhile_eq_self_iff)
  ultimately show ?thesis by (simp add: Trim_def)
qed

lemma Trim_only_cut [simp]: "Trim [c, c] c = []"
  by (simp add: Trim_def)

subsection \<open>Splitting and joining at a separator of one character\<close>

fun Split :: "string \<Rightarrow> char \<Rightarrow> string list" where
  "Split [] c = [[]]"
| "Split (x # s) c =
     (if x = c then [] # Split s c
      else (case Split s c of [] \<Rightarrow> [[x]] | w # ws \<Rightarrow> (x # w) # ws))"

fun Join :: "string list \<Rightarrow> char \<Rightarrow> string" where
  "Join [] c = []"
| "Join [w] c = w"
| "Join (w # ws) c = w @ c # Join ws c"

lemma Split_not_Nil [simp]: "Split s c \<noteq> []"
  by (cases s) (auto split: list.splits)

lemma Split_no_sep: "w \<in> set (Split s c) \<Longrightarrow> c \<notin> set w"
  by (induction s arbitrary: w) (auto split: if_splits list.splits)

lemma Split_word: "c \<notin> set w \<Longrightarrow> Split w c = [w]"
  by (induction w) auto

lemma Split_append: "c \<notin> set w \<Longrightarrow> Split (w @ c # s) c = w # Split s c"
  by (induction w) auto

lemma Split_Join: "ws \<noteq> [] \<Longrightarrow> \<forall>w\<in>set ws. c \<notin> set w \<Longrightarrow> Split (Join ws c) c = ws"
  by (induction ws c rule: Join.induct) (auto simp: Split_word Split_append)

lemma Join_Cons2: "ws \<noteq> [] \<Longrightarrow> Join (w # ws) c = w @ c # Join ws c"
  by (cases ws) auto

lemma Join_Split: "Join (Split s c) c = s"
proof (induction s)
  case (Cons x s)
  obtain w ws where "Split s c = w # ws"
    by (cases "Split s c") auto
  with Cons show ?case
    by (cases ws) (auto simp: Join_Cons2)
qed simp

subsection \<open>Trimming white space\<close>

text \<open>
  \<^verbatim>\<open>strings.TrimSpace\<close> cuts the runes of \<^verbatim>\<open>unicode.IsSpace\<close> at both ends. Their UTF-8 encodings are
  listed; a lead byte is followed by continuation bytes only, so matching an encoding at the front
  or at the back of a string is decoding its first or last rune.
\<close>

definition space_runes :: "string list" where
  "space_runes =
     [[CHR 0x09], [CHR 0x0A], [CHR 0x0B], [CHR 0x0C], [CHR 0x0D], [CHR 0x20],
      [CHR 0xC2, CHR 0x85], [CHR 0xC2, CHR 0xA0], [CHR 0xE1, CHR 0x9A, CHR 0x80],
      [CHR 0xE2, CHR 0x80, CHR 0x80], [CHR 0xE2, CHR 0x80, CHR 0x81], [CHR 0xE2, CHR 0x80, CHR 0x82],
      [CHR 0xE2, CHR 0x80, CHR 0x83], [CHR 0xE2, CHR 0x80, CHR 0x84], [CHR 0xE2, CHR 0x80, CHR 0x85],
      [CHR 0xE2, CHR 0x80, CHR 0x86], [CHR 0xE2, CHR 0x80, CHR 0x87], [CHR 0xE2, CHR 0x80, CHR 0x88],
      [CHR 0xE2, CHR 0x80, CHR 0x89], [CHR 0xE2, CHR 0x80, CHR 0x8A], [CHR 0xE2, CHR 0x80, CHR 0xA8],
      [CHR 0xE2, CHR 0x80, CHR 0xA9], [CHR 0xE2, CHR 0x80, CHR 0xAF], [CHR 0xE2, CHR 0x81, CHR 0x9F],
      [CHR 0xE3, CHR 0x80, CHR 0x80]]"

definition starts_with_one :: "string list \<Rightarrow> string \<Rightarrow> string option" where
  "starts_with_one qs s = find (\<lambda>q. q \<noteq> [] \<and> HasPrefix s q) qs"

lemma starts_with_one_Some:
  "starts_with_one qs s = Some q \<Longrightarrow> q \<in> set qs \<and> q \<noteq> [] \<and> HasPrefix s q"
  by (auto simp: starts_with_one_def find_Some_iff)

lemma starts_with_one_None:
  "starts_with_one qs s = None \<longleftrightarrow> (\<forall>q\<in>set qs. q \<noteq> [] \<longrightarrow> \<not> HasPrefix s q)"
  by (auto simp: starts_with_one_def find_None_iff)

function strip_front :: "string list \<Rightarrow> string \<Rightarrow> string" where
  "strip_front qs s =
     (case starts_with_one qs s of None \<Rightarrow> s | Some q \<Rightarrow> strip_front qs (drop (length q) s))"
  by pat_completeness auto
termination
proof (relation "measure (\<lambda>(qs, s). length s)")
  fix qs s q
  assume "starts_with_one qs s = Some q"
  then have "0 < length q" and "length q \<le> length s"
    using starts_with_one_Some [of qs s q] by (auto simp: HasPrefix_def)
  then have "length s - length q < length s" by linarith
  then show "((qs, drop (length q) s), qs, s) \<in> measure (\<lambda>(qs, s). length s)"
    by simp
qed simp

declare strip_front.simps [simp del]

definition TrimSpace :: "string \<Rightarrow> string" where
  "TrimSpace s = rev (strip_front (map rev space_runes) (rev (strip_front space_runes s)))"

text \<open>A string is trimmed when no space rune stands at either end.\<close>

definition trimmed :: "string \<Rightarrow> bool" where
  "trimmed s \<longleftrightarrow> (\<forall>q\<in>set space_runes. \<not> HasPrefix s q \<and> \<not> HasSuffix s q)"

lemma strip_front_stops: "starts_with_one qs (strip_front qs s) = None"
proof (induction qs s rule: strip_front.induct)
  case (1 qs s)
  then show ?case
    by (cases "starts_with_one qs s") (simp_all add: strip_front.simps [of qs s])
qed

lemma strip_front_suffix: "\<exists>l. s = l @ strip_front qs s"
proof (induction qs s rule: strip_front.induct)
  case (1 qs s)
  show ?case
  proof (cases "starts_with_one qs s")
    case None
    then show ?thesis by (simp add: strip_front.simps [of qs s])
  next
    case (Some q)
    with "1" obtain l where "drop (length q) s = l @ strip_front qs (drop (length q) s)" by blast
    then have "s = (take (length q) s @ l) @ strip_front qs (drop (length q) s)"
      by (metis append.assoc append_take_drop_id)
    with Some show ?thesis by (metis strip_front.simps option.simps(5))
  qed
qed

lemma strip_front_id: "starts_with_one qs s = None \<Longrightarrow> strip_front qs s = s"
  by (simp add: strip_front.simps [of qs s])

lemma space_runes_nonempty: "q \<in> set space_runes \<Longrightarrow> q \<noteq> []"
  by (auto simp: space_runes_def)

lemma HasPrefix_rev: "HasPrefix (rev s) (rev q) \<longleftrightarrow> HasSuffix s q"
  by (metis HasPrefix_iff HasSuffix_iff rev_append rev_rev_ident)

lemma starts_with_space_None:
  "starts_with_one space_runes s = None \<longleftrightarrow> (\<forall>q\<in>set space_runes. \<not> HasPrefix s q)"
  "starts_with_one (map rev space_runes) (rev s) = None \<longleftrightarrow> (\<forall>q\<in>set space_runes. \<not> HasSuffix s q)"
  using space_runes_nonempty by (auto simp: starts_with_one_None HasPrefix_rev)

lemma trimmed_alt:
  "trimmed s \<longleftrightarrow> starts_with_one space_runes s = None \<and> starts_with_one (map rev space_runes) (rev s) = None"
  by (auto simp: trimmed_def starts_with_space_None)

lemma TrimSpace_id: "trimmed s \<Longrightarrow> TrimSpace s = s"
  by (simp add: TrimSpace_def trimmed_alt strip_front_id)

lemma TrimSpace_infix: "\<exists>l r. s = l @ TrimSpace s @ r"
proof -
  obtain l where l: "s = l @ strip_front space_runes s"
    using strip_front_suffix by blast
  obtain r where "rev (strip_front space_runes s) = r @ rev (TrimSpace s)"
    using strip_front_suffix [of "rev (strip_front space_runes s)" "map rev space_runes"]
    by (auto simp: TrimSpace_def)
  then have "strip_front space_runes s = TrimSpace s @ rev r"
    by (metis rev_append rev_rev_ident)
  with l show ?thesis by metis
qed

lemma set_TrimSpace: "set (TrimSpace s) \<subseteq> set s"
  using TrimSpace_infix [of s] by (metis Un_iff set_append subsetI)

text \<open>Cutting at the back cannot bring a space rune to the front.\<close>

lemma trimmed_TrimSpace: "trimmed (TrimSpace s)"
proof -
  let ?t = "strip_front space_runes s"
  obtain r where "rev ?t = r @ rev (TrimSpace s)"
    using strip_front_suffix [of "rev ?t" "map rev space_runes"] by (auto simp: TrimSpace_def)
  then have t: "?t = TrimSpace s @ rev r"
    by (metis rev_append rev_rev_ident)
  have "\<not> HasPrefix (TrimSpace s) q" if "q \<in> set space_runes" for q
  proof
    assume "HasPrefix (TrimSpace s) q"
    then have "HasPrefix ?t q"
      using t by (metis HasPrefix_iff append.assoc)
    with that show False
      using strip_front_stops [of space_runes s] starts_with_space_None(1) by blast
  qed
  moreover have "starts_with_one (map rev space_runes) (rev (TrimSpace s)) = None"
    by (simp add: TrimSpace_def strip_front_stops)
  ultimately show ?thesis
    by (simp add: trimmed_alt starts_with_space_None)
qed

end
