(* ===== verification/Session_Registry.thy ===== *)
theory Session_Registry
  imports Control_Types Go_Strings
begin

section \<open>The session registry (pkg/registry/registry.go)\<close>

text \<open>
  The registry maps a peer id to the \<^verbatim>\<open>*SessionState\<close> of its live connection. Who holds which
  pointer matters (\<^verbatim>\<open>RemoveIfCurrent\<close> compares pointers, \<^verbatim>\<open>Close\<close> closes a channel, and closing it
  twice panics), so sessions live in an explicit heap: a \<open>sref\<close> is the address of a
  \<^verbatim>\<open>SessionState\<close>. Channels and yamux sessions are identities; the registry records which have
  been closed. What the yamux library returns from \<^verbatim>\<open>Close\<close> is arbitrary (\<open>reg_yamux_err\<close>).
  Every public method holds the manager's lock from start to end, so it is one step; the three
  that do not (\<^verbatim>\<open>OpenStream\<close>, \<^verbatim>\<open>Heartbeat\<close>, and \<^verbatim>\<open>TouchHeartbeat\<close> on a pointer kept from before)
  are built from a locked lookup and a later step on the pointer.
\<close>

type_synonym peer_id = string
type_synonym sref = nat
type_synonym chan = nat
type_synonym yamux = nat

record session_state =
  ss_PeerID :: peer_id
  ss_Handshake :: "handshake option"
  ss_Session :: "yamux option"
  ss_ControlChan :: "chan option"
  ss_Connected :: bool
  ss_ConnectedAt :: instant
  ss_LastHeartbeat :: instant

record registry =
  reg_sessions :: "peer_id \<rightharpoonup> sref"
  reg_heap :: "sref \<rightharpoonup> session_state"
  reg_next :: nat                                 \<comment> \<open>the next unused address and channel\<close>
  reg_closed_chans :: "chan set"
  reg_closed_yamux :: "yamux set"
  reg_yamux_err :: "yamux \<Rightarrow> go_error option"

record session_stats =
  st_TotalSessions :: int
  st_ActiveSessions :: int
  st_InactiveSessions :: int
  st_TotalHeartbeats :: "64 word"

abbreviation ErrSessionNotFound :: go_error where
  "ErrSessionNotFound \<equiv> Sentinel ''registry.ErrSessionNotFound''"
abbreviation ErrInvalidHandshake :: go_error where
  "ErrInvalidHandshake \<equiv> Sentinel ''registry.ErrInvalidHandshake''"

subsection \<open>Pointers and channels\<close>

definition deref :: "sref \<Rightarrow> registry \<Rightarrow> session_state outcome" where
  "deref a st =
     (case reg_heap st a of
        None \<Rightarrow> Panic ''invalid memory address or nil pointer dereference''
      | Some s \<Rightarrow> Return s)"

definition store :: "sref \<Rightarrow> session_state \<Rightarrow> registry \<Rightarrow> registry" where
  "store a s st = st\<lparr>reg_heap := (reg_heap st)(a \<mapsto> s)\<rparr>"

definition close_chan :: "chan option \<Rightarrow> registry \<Rightarrow> registry outcome" where
  "close_chan c st =
     (case c of
        None \<Rightarrow> Panic ''close of nil channel''
      | Some ch \<Rightarrow>
          if ch \<in> reg_closed_chans st then Panic ''close of closed channel''
          else Return (st\<lparr>reg_closed_chans := insert ch (reg_closed_chans st)\<rparr>))"

definition yamux_Close :: "yamux \<Rightarrow> registry \<Rightarrow> go_error option \<times> registry" where
  "yamux_Close y st = (reg_yamux_err st y, st\<lparr>reg_closed_yamux := insert y (reg_closed_yamux st)\<rparr>)"

subsection \<open>Operations of one session\<close>

definition TouchHeartbeat :: "instant \<Rightarrow> sref \<Rightarrow> registry \<Rightarrow> registry outcome" where
  "TouchHeartbeat now a st =
     bind_outcome (deref a st) (\<lambda>s. Return (store a (s\<lparr>ss_LastHeartbeat := now\<rparr>) st))"

definition ss_Close :: "sref \<Rightarrow> registry \<Rightarrow> (go_error option \<times> registry) outcome" where
  "ss_Close a st =
     bind_outcome (deref a st) (\<lambda>s.
       bind_outcome (close_chan (ss_ControlChan s) (store a (s\<lparr>ss_Connected := False\<rparr>) st)) (\<lambda>st1.
         Return (case ss_Session s of
                   Some y \<Rightarrow> yamux_Close y st1
                 | None \<Rightarrow> (None, st1))))"

text \<open>
  A snapshot is a fresh object: the handshake is cloned, the yamux session and the channel are
  left out. The loop of \<^verbatim>\<open>cloneMap\<close> visits the metadata in the order \<open>ks\<close>.
\<close>

definition cloneSlice :: "'a list option \<Rightarrow> 'a list option" where
  "cloneSlice s = (case s of None \<Rightarrow> None | Some xs \<Rightarrow> Some (take (length xs) xs))"

definition cloneMap :: "string list \<Rightarrow> (string \<rightharpoonup> string) option \<Rightarrow> (string \<rightharpoonup> string) option" where
  "cloneMap ks m =
     (case m of None \<Rightarrow> None | Some src \<Rightarrow> Some (fold (\<lambda>k acc. acc(k := src k)) ks Map.empty))"

definition cloneHandshake :: "string list \<Rightarrow> handshake option \<Rightarrow> handshake option" where
  "cloneHandshake ks h =
     (case h of
        None \<Rightarrow> None
      | Some hs \<Rightarrow>
          Some \<lparr>hs_NodeID = hs_NodeID hs, hs_Version = hs_Version hs,
                hs_Features = cloneSlice (hs_Features hs),
                hs_Metadata = cloneMap ks (hs_Metadata hs),
                hs_TimestampSec = hs_TimestampSec hs, hs_Token = hs_Token hs\<rparr>)"

definition snapshot :: "string list \<Rightarrow> session_state \<Rightarrow> session_state" where
  "snapshot ks s =
     \<lparr>ss_PeerID = ss_PeerID s, ss_Handshake = cloneHandshake ks (ss_Handshake s),
      ss_Session = None, ss_ControlChan = None, ss_Connected = ss_Connected s,
      ss_ConnectedAt = ss_ConnectedAt s, ss_LastHeartbeat = ss_LastHeartbeat s\<rparr>"

definition meshMethodsKey :: string where
  "meshMethodsKey = ''mesh.methods''"

definition parseMeshMethods :: "handshake option \<Rightarrow> string list option" where
  "parseMeshMethods h =
     (case h of
        None \<Rightarrow> None
      | Some hs \<Rightarrow>
          let raw = (case hs_Metadata hs of None \<Rightarrow> '''' | Some m \<Rightarrow> map_get '''' m meshMethodsKey) in
          if raw = '''' then None
          else Some (fold (\<lambda>part methods.
                             let t = TrimSpace part in if t \<noteq> '''' then methods @ [t] else methods)
                       (Split raw CHR '','') []))"

definition Methods :: "session_state \<Rightarrow> string list option" where
  "Methods s = parseMeshMethods (ss_Handshake s)"

subsection \<open>Operations of the manager\<close>

definition NewRegistry :: "(yamux \<Rightarrow> go_error option) \<Rightarrow> registry" where
  "NewRegistry yerr =
     \<lparr>reg_sessions = Map.empty, reg_heap = Map.empty, reg_next = 0,
      reg_closed_chans = {}, reg_closed_yamux = {}, reg_yamux_err = yerr\<rparr>"

definition close_existing :: "peer_id \<Rightarrow> registry \<Rightarrow> registry outcome" where
  "close_existing peerID st =
     (case reg_sessions st peerID of
        None \<Rightarrow> Return st
      | Some existing \<Rightarrow> bind_outcome (ss_Close existing st) (\<lambda>(_, st1). Return st1))"

definition Register :: "sref option \<Rightarrow> registry \<Rightarrow> (go_error option \<times> registry) outcome" where
  "Register session st =
     (case session of
        None \<Rightarrow> Return (Some ErrInvalidHandshake, st)
      | Some a \<Rightarrow>
          bind_outcome (deref a st) (\<lambda>s.
            bind_outcome (close_existing (ss_PeerID s) st) (\<lambda>st1.
              Return (None, st1\<lparr>reg_sessions := (reg_sessions st1)(ss_PeerID s \<mapsto> a)\<rparr>))))"

definition RegisterSession ::
  "instant \<Rightarrow> peer_id \<Rightarrow> handshake option \<Rightarrow> yamux option \<Rightarrow> registry \<Rightarrow> (sref result \<times> registry) outcome" where
  "RegisterSession now peerID handshake session st =
     (case handshake of
        None \<Rightarrow> Return (Inl ErrInvalidHandshake, st)
      | Some h \<Rightarrow>
          let a = reg_next st;
              state = \<lparr>ss_PeerID = peerID, ss_Handshake = Some h, ss_Session = session,
                       ss_ControlChan = Some (reg_next st), ss_Connected = True,
                       ss_ConnectedAt = now, ss_LastHeartbeat = now\<rparr>;
              st0 = store a state (st\<lparr>reg_next := Suc (reg_next st)\<rparr>)
          in bind_outcome (close_existing peerID st0) (\<lambda>st1.
               Return (Inr a, st1\<lparr>reg_sessions := (reg_sessions st1)(peerID \<mapsto> a)\<rparr>)))"

definition Get :: "peer_id \<Rightarrow> registry \<Rightarrow> sref option" where
  "Get peerID st = reg_sessions st peerID"

definition Remove :: "peer_id \<Rightarrow> registry \<Rightarrow> (go_error option \<times> registry) outcome" where
  "Remove peerID st =
     (case reg_sessions st peerID of
        None \<Rightarrow> Return (Some ErrSessionNotFound, st)
      | Some a \<Rightarrow>
          bind_outcome (ss_Close a st) (\<lambda>(_, st1).
            Return (None, st1\<lparr>reg_sessions := (reg_sessions st1)(peerID := None)\<rparr>)))"

definition RemoveIfCurrent :: "peer_id \<Rightarrow> sref \<Rightarrow> registry \<Rightarrow> (go_error option \<times> registry) outcome" where
  "RemoveIfCurrent peerID session st =
     (case reg_sessions st peerID of
        None \<Rightarrow> Return (Some ErrSessionNotFound, st)
      | Some current \<Rightarrow>
          if current \<noteq> session then Return (None, st)
          else bind_outcome (ss_Close current st) (\<lambda>(_, st1).
                 Return (None, st1\<lparr>reg_sessions := (reg_sessions st1)(peerID := None)\<rparr>)))"

text \<open>
  \<open>order\<close> is the order of the range loop over the sessions, \<open>mds\<close> the order in which a
  session's metadata is copied.
\<close>

fun List_loop :: "(sref \<Rightarrow> string list) \<Rightarrow> peer_id list \<Rightarrow> registry \<Rightarrow> session_state list outcome" where
  "List_loop mds [] st = Return []"
| "List_loop mds (p # ps) st =
     (case reg_sessions st p of
        None \<Rightarrow> List_loop mds ps st
      | Some a \<Rightarrow>
          bind_outcome (deref a st) (\<lambda>s.
            bind_outcome (List_loop mds ps st) (\<lambda>rest. Return (snapshot (mds a) s # rest))))"

definition ListSessions :: "(sref \<Rightarrow> string list) \<Rightarrow> peer_id list \<Rightarrow> registry \<Rightarrow> session_state list outcome" where
  "ListSessions mds order st = List_loop mds order st"

definition ListAll :: "(sref \<Rightarrow> string list) \<Rightarrow> peer_id list \<Rightarrow> registry \<Rightarrow> session_state list outcome" where
  "ListAll mds order st = ListSessions mds order st"

definition Size :: "registry \<Rightarrow> nat" where
  "Size st = map_len (reg_sessions st)"

text \<open>
  \<^verbatim>\<open>OpenStream\<close> races the library's \<^verbatim>\<open>OpenStream\<close>, run in a goroutine, against the context. Which
  of the two the \<^verbatim>\<open>select\<close> takes is the argument \<open>race\<close>.
\<close>

datatype 'str stream_race = StreamDone "'str result" | ContextDone go_error

definition OpenStream :: "'str stream_race \<Rightarrow> peer_id \<Rightarrow> registry \<Rightarrow> 'str result outcome" where
  "OpenStream race peerID st =
     (case reg_sessions st peerID of
        None \<Rightarrow> Return (Inl ErrSessionNotFound)
      | Some a \<Rightarrow>
          bind_outcome (deref a st) (\<lambda>s.
            Return
              (if \<not> ss_Connected s \<or> ss_Session s = None
               then Inl (Errorf ''peer not connected: %s'' [ArgStr peerID])
               else (case race of StreamDone r \<Rightarrow> r | ContextDone e \<Rightarrow> Inl e))))"

definition ControlChannel :: "peer_id \<Rightarrow> registry \<Rightarrow> chan option result outcome" where
  "ControlChannel peerID st =
     (case reg_sessions st peerID of
        None \<Rightarrow> Return (Inl ErrSessionNotFound)
      | Some a \<Rightarrow> bind_outcome (deref a st) (\<lambda>s. Return (Inr (ss_ControlChan s))))"

definition Heartbeat :: "instant \<Rightarrow> peer_id \<Rightarrow> registry \<Rightarrow> (go_error option \<times> registry) outcome" where
  "Heartbeat now peerID st =
     (case Get peerID st of
        None \<Rightarrow> Return (Some ErrSessionNotFound, st)
      | Some a \<Rightarrow> bind_outcome (TouchHeartbeat now a st) (\<lambda>st1. Return (None, st1)))"

definition MarkDisconnected :: "peer_id \<Rightarrow> registry \<Rightarrow> registry outcome" where
  "MarkDisconnected peerID st =
     (case reg_sessions st peerID of
        None \<Rightarrow> Return st
      | Some a \<Rightarrow>
          bind_outcome (deref a st) (\<lambda>s. Return (store a (s\<lparr>ss_Connected := False\<rparr>) st)))"

definition is_stale :: "instant \<Rightarrow> duration \<Rightarrow> session_state \<Rightarrow> bool" where
  "is_stale now maxAge s \<longleftrightarrow> \<not> ss_Connected s \<or> time_Sub now (ss_LastHeartbeat s) > maxAge"

fun Cleanup_loop ::
  "instant \<Rightarrow> duration \<Rightarrow> peer_id list \<Rightarrow> int \<Rightarrow> registry \<Rightarrow> (int \<times> registry) outcome" where
  "Cleanup_loop now maxAge [] removed st = Return (removed, st)"
| "Cleanup_loop now maxAge (p # ps) removed st =
     (case reg_sessions st p of
        None \<Rightarrow> Cleanup_loop now maxAge ps removed st
      | Some a \<Rightarrow>
          bind_outcome (deref a st) (\<lambda>s.
            if is_stale now maxAge s then
              bind_outcome (ss_Close a st) (\<lambda>(_, st1).
                Cleanup_loop now maxAge ps (removed + 1)
                  (st1\<lparr>reg_sessions := (reg_sessions st1)(p := None)\<rparr>))
            else Cleanup_loop now maxAge ps removed st))"

definition Cleanup ::
  "instant \<Rightarrow> duration \<Rightarrow> peer_id list \<Rightarrow> registry \<Rightarrow> (int \<times> registry) outcome" where
  "Cleanup now maxAge order st = Cleanup_loop now maxAge order 0 st"

fun Stats_loop :: "peer_id list \<Rightarrow> registry \<Rightarrow> session_stats \<Rightarrow> session_stats outcome" where
  "Stats_loop [] st stats = Return stats"
| "Stats_loop (p # ps) st stats =
     (case reg_sessions st p of
        None \<Rightarrow> Stats_loop ps st stats
      | Some a \<Rightarrow>
          bind_outcome (deref a st) (\<lambda>s.
            if ss_Connected s
            then Stats_loop ps st (stats\<lparr>st_ActiveSessions := st_ActiveSessions stats + 1\<rparr>)
            else Stats_loop ps st (stats\<lparr>st_InactiveSessions := st_InactiveSessions stats + 1\<rparr>)))"

definition Stats :: "peer_id list \<Rightarrow> registry \<Rightarrow> session_stats outcome" where
  "Stats order st =
     Stats_loop order st
       \<lparr>st_TotalSessions = int (map_len (reg_sessions st)), st_ActiveSessions = 0,
        st_InactiveSessions = 0, st_TotalHeartbeats = 0\<rparr>"

text \<open>The cleanup loop: one \<open>Cleanup\<close> per tick until the context ends.\<close>

fun cleanup_ticks :: "(instant \<times> peer_id list) list \<Rightarrow> duration \<Rightarrow> registry \<Rightarrow> registry outcome" where
  "cleanup_ticks [] maxAge st = Return st"
| "cleanup_ticks ((now, order) # ticks) maxAge st =
     bind_outcome (Cleanup now maxAge order st) (\<lambda>(removed, st1). cleanup_ticks ticks maxAge st1)"

end
