(* ===== verification/Registry_Contract.thy ===== *)
theory Registry_Contract
  imports Session_Registry
begin

section \<open>What the session registry keeps and promises\<close>

text \<open>
  The invariant of the registry, the effect of each operation on it, and the contract the
  connection handlers rely on, stated as a locale and interpreted on the registry's operations.
\<close>

subsection \<open>The invariant\<close>

text \<open>
  Every registered session is a live object that carries the peer id it is filed under and
  the control channel it was made with (which bears the object's number), still open.
  Numbers not handed out yet are unused.
\<close>

definition entries_live :: "registry \<Rightarrow> bool" where
  "entries_live st \<longleftrightarrow>
     (\<forall>p a. reg_sessions st p = Some a \<longrightarrow>
        (\<exists>s. reg_heap st a = Some s \<and> ss_PeerID s = p \<and> ss_ControlChan s = Some a \<and>
             a \<notin> reg_closed_chans st))"

definition fresh_above :: "registry \<Rightarrow> bool" where
  "fresh_above st \<longleftrightarrow>
     (\<forall>a. a \<in> dom (reg_heap st) \<longrightarrow> a < reg_next st) \<and>
     (\<forall>c. c \<in> reg_closed_chans st \<longrightarrow> c < reg_next st)"

definition reg_wf :: "registry \<Rightarrow> bool" where
  "reg_wf st \<longleftrightarrow> finite (dom (reg_sessions st)) \<and> entries_live st \<and> fresh_above st"

lemmas reg_wf_defs = reg_wf_def entries_live_def fresh_above_def

lemma reg_wf_finite: "reg_wf st \<Longrightarrow> finite (dom (reg_sessions st))"
  by (simp add: reg_wf_def)

lemma reg_wf_entry:
  assumes "reg_wf st" and "reg_sessions st p = Some a"
  obtains s where "reg_heap st a = Some s" "ss_PeerID s = p" "ss_ControlChan s = Some a"
    "a \<notin> reg_closed_chans st" "a < reg_next st"
  using assms unfolding reg_wf_defs by (metis domI)

lemma reg_wf_inj:
  assumes "reg_wf st" and "reg_sessions st p = Some a" and "reg_sessions st q = Some a"
  shows "p = q"
  using reg_wf_entry [OF assms(1,2)] reg_wf_entry [OF assms(1,3)] by (metis option.sel)

lemma reg_wf_NewRegistry [keeps]: "reg_wf (NewRegistry yerr)"
  by (simp add: reg_wf_defs NewRegistry_def)

subsection \<open>Closing a live session\<close>

definition close_effect :: "sref \<Rightarrow> session_state \<Rightarrow> registry \<Rightarrow> registry" where
  "close_effect a s st =
     st\<lparr>reg_heap := (reg_heap st)(a \<mapsto> s\<lparr>ss_Connected := False\<rparr>),
        reg_closed_chans := insert a (reg_closed_chans st),
        reg_closed_yamux := (case ss_Session s of None \<Rightarrow> reg_closed_yamux st
                             | Some y \<Rightarrow> insert y (reg_closed_yamux st))\<rparr>"

lemma close_effect_frame [simp]:
  "reg_sessions (close_effect a s st) = reg_sessions st"
  "reg_next (close_effect a s st) = reg_next st"
  "reg_heap (close_effect a s st) = (reg_heap st)(a \<mapsto> s\<lparr>ss_Connected := False\<rparr>)"
  "reg_closed_chans (close_effect a s st) = insert a (reg_closed_chans st)"
  "reg_yamux_err (close_effect a s st) = reg_yamux_err st"
  by (simp_all add: close_effect_def)

lemma deref_Some [simp]: "reg_heap st a = Some s \<Longrightarrow> deref a st = Return s"
  by (simp add: deref_def)

lemma ss_Close_live:
  assumes "reg_heap st a = Some s" and "ss_ControlChan s = Some a" and "a \<notin> reg_closed_chans st"
  obtains e where "ss_Close a st = Return (e, close_effect a s st)"
  using assms
  by (cases "ss_Session s")
     (auto simp: ss_Close_def close_chan_def store_def yamux_Close_def close_effect_def)

lemma ss_Close_registered:
  assumes "reg_wf st" and "reg_sessions st p = Some a"
  obtains s e where "reg_heap st a = Some s" "ss_PeerID s = p"
    "ss_Close a st = Return (e, close_effect a s st)"
  using reg_wf_entry [OF assms] ss_Close_live by metis

lemma wf_drop_closed:
  assumes "reg_wf st" and "reg_sessions st p = Some a" and "reg_heap st a = Some s"
  shows "reg_wf ((close_effect a s st)\<lparr>reg_sessions := (reg_sessions st)(p := None)\<rparr>)"
  (is "reg_wf ?st")
proof -
  have "\<exists>t. reg_heap ?st b = Some t \<and> ss_PeerID t = q \<and> ss_ControlChan t = Some b \<and>
      b \<notin> reg_closed_chans ?st" if "reg_sessions ?st q = Some b" for q b
  proof -
    from that have q: "reg_sessions st q = Some b" "q \<noteq> p" by (auto split: if_splits)
    then have "b \<noteq> a" using reg_wf_inj [OF assms(1,2)] by auto
    with reg_wf_entry [OF assms(1) q(1)] show ?thesis by auto
  qed
  moreover have "a < reg_next st" using reg_wf_entry [OF assms(1,2)] .
  ultimately show ?thesis
    using assms(1) by (auto simp: reg_wf_def entries_live_def fresh_above_def)
qed

text \<open>A new object replaces the entry of its peer id; what was there has been closed.\<close>

definition file_new :: "peer_id \<Rightarrow> sref \<Rightarrow> registry \<Rightarrow> registry" where
  "file_new p a st = st\<lparr>reg_sessions := (reg_sessions st)(p \<mapsto> a)\<rparr>"

lemma wf_file_new:
  assumes "reg_wf st" and "reg_sessions st p = None" and "reg_heap st a = Some s"
    and "ss_PeerID s = p" and "ss_ControlChan s = Some a" and "a \<notin> reg_closed_chans st"
  shows "reg_wf (file_new p a st)"
  using assms unfolding reg_wf_defs file_new_def by auto

subsection \<open>The effect of the operations\<close>

lemma store_frame [simp]:
  "reg_sessions (store a s st) = reg_sessions st"
  "reg_next (store a s st) = reg_next st"
  "reg_heap (store a s st) = (reg_heap st)(a \<mapsto> s)"
  "reg_closed_chans (store a s st) = reg_closed_chans st"
  "reg_closed_yamux (store a s st) = reg_closed_yamux st"
  by (simp_all add: store_def)

lemma wf_store [keeps]:
  assumes "reg_wf st" and "reg_heap st a = Some s"
    and "ss_PeerID s' = ss_PeerID s" and "ss_ControlChan s' = ss_ControlChan s"
  shows "reg_wf (store a s' st)"
proof -
  have "entries_live (store a s' st)"
    unfolding entries_live_def
  proof (intro allI impI)
    fix p b
    assume "reg_sessions (store a s' st) p = Some b"
    then have "reg_sessions st p = Some b" by simp
    then obtain t where "reg_heap st b = Some t" "ss_PeerID t = p" "ss_ControlChan t = Some b"
        "b \<notin> reg_closed_chans st"
      using reg_wf_entry [OF assms(1)] by metis
    with assms(2-4) show "\<exists>t. reg_heap (store a s' st) b = Some t \<and> ss_PeerID t = p \<and> ss_ControlChan t = Some b \<and>
        b \<notin> reg_closed_chans (store a s' st)"
      by (cases "b = a") auto
  qed
  with assms(1,2) show ?thesis by (auto simp: reg_wf_def fresh_above_def dom_def)
qed

lemma file_new_frame [simp]:
  "reg_sessions (file_new p a st) = (reg_sessions st)(p \<mapsto> a)"
  "reg_next (file_new p a st) = reg_next st"
  "reg_heap (file_new p a st) = reg_heap st"
  "reg_closed_chans (file_new p a st) = reg_closed_chans st"
  "reg_closed_yamux (file_new p a st) = reg_closed_yamux st"
  by (simp_all add: file_new_def)

definition drop_closed :: "peer_id \<Rightarrow> sref \<Rightarrow> session_state \<Rightarrow> registry \<Rightarrow> registry" where
  "drop_closed p a s st = (close_effect a s st)\<lparr>reg_sessions := (reg_sessions st)(p := None)\<rparr>"

lemma drop_closed_frame [simp]:
  "reg_sessions (drop_closed p a s st) = (reg_sessions st)(p := None)"
  "reg_next (drop_closed p a s st) = reg_next st"
  "reg_heap (drop_closed p a s st) = (reg_heap st)(a \<mapsto> s\<lparr>ss_Connected := False\<rparr>)"
  "reg_closed_chans (drop_closed p a s st) = insert a (reg_closed_chans st)"
  by (simp_all add: drop_closed_def)

lemma wf_drop [keeps]:
  "reg_wf st \<Longrightarrow> reg_sessions st p = Some a \<Longrightarrow> reg_heap st a = Some s \<Longrightarrow> reg_wf (drop_closed p a s st)"
  unfolding drop_closed_def by (rule wf_drop_closed)

lemma Remove_registered:
  assumes "reg_wf st" and "reg_sessions st p = Some a" and "reg_heap st a = Some s"
  shows "Remove p st = Return (None, drop_closed p a s st)"
proof -
  obtain e where "ss_Close a st = Return (e, close_effect a s st)"
    using ss_Close_registered [OF assms(1,2)] assms(3) by (metis option.inject)
  with assms(2) show ?thesis by (simp add: Remove_def drop_closed_def)
qed

lemma RemoveIfCurrent_registered:
  assumes "reg_wf st" and "reg_sessions st p = Some a" and "reg_heap st a = Some s"
  shows "RemoveIfCurrent p a st = Return (None, drop_closed p a s st)"
  using Remove_registered [OF assms] assms(2) by (simp add: RemoveIfCurrent_def Remove_def)

lemma RemoveIfCurrent_stale:
  "reg_sessions st p \<noteq> Some a \<Longrightarrow> \<exists>e. RemoveIfCurrent p a st = Return (e, st)"
  by (auto simp: RemoveIfCurrent_def split: option.splits)

definition new_session :: "instant \<Rightarrow> peer_id \<Rightarrow> handshake \<Rightarrow> yamux option \<Rightarrow> sref \<Rightarrow> session_state" where
  "new_session now p h y a =
     \<lparr>ss_PeerID = p, ss_Handshake = Some h, ss_Session = y, ss_ControlChan = Some a,
      ss_Connected = True, ss_ConnectedAt = now, ss_LastHeartbeat = now\<rparr>"

definition allocated :: "session_state \<Rightarrow> registry \<Rightarrow> registry" where
  "allocated s st = store (reg_next st) s (st\<lparr>reg_next := Suc (reg_next st)\<rparr>)"

lemma allocated_frame [simp]:
  "reg_sessions (allocated s st) = reg_sessions st"
  "reg_next (allocated s st) = Suc (reg_next st)"
  "reg_heap (allocated s st) = (reg_heap st)(reg_next st \<mapsto> s)"
  "reg_closed_chans (allocated s st) = reg_closed_chans st"
  "reg_closed_yamux (allocated s st) = reg_closed_yamux st"
  by (simp_all add: allocated_def)

lemma reg_wf_next_unused:
  assumes "reg_wf st"
  shows "reg_heap st (reg_next st) = None" and "reg_next st \<notin> reg_closed_chans st"
    and "reg_sessions st p \<noteq> Some (reg_next st)"
  using assms reg_wf_entry [OF assms, of p "reg_next st"]
  unfolding reg_wf_def fresh_above_def by (metis domIff less_irrefl)+

lemma wf_allocated:
  assumes "reg_wf st"
  shows "reg_wf (allocated s st)"
proof -
  have "entries_live (allocated s st)"
    using assms reg_wf_next_unused(3) [OF assms] by (auto simp: reg_wf_def entries_live_def)
  then show ?thesis
    using assms by (auto simp: reg_wf_def fresh_above_def less_Suc_eq)
qed

definition registered :: "instant \<Rightarrow> peer_id \<Rightarrow> handshake \<Rightarrow> yamux option \<Rightarrow> registry \<Rightarrow> registry" where
  "registered now p h y st =
     (let a = reg_next st; st0 = allocated (new_session now p h y a) st in
      file_new p a
        (case reg_sessions st p of
           None \<Rightarrow> st0
         | Some e \<Rightarrow> (case reg_heap st e of None \<Rightarrow> st0 | Some s \<Rightarrow> drop_closed p e s st0)))"

lemma RegisterSession_ok:
  assumes "reg_wf st"
  shows "RegisterSession now p (Some h) y st = Return (Inr (reg_next st), registered now p h y st)"
proof -
  let ?a = "reg_next st" and ?st0 = "allocated (new_session now p h y (reg_next st)) st"
  have wf0: "reg_wf ?st0" by (rule wf_allocated [OF assms])
  have "bind_outcome (close_existing p ?st0) (\<lambda>st1. Return (Inr ?a, st1\<lparr>reg_sessions := (reg_sessions st1)(p \<mapsto> ?a)\<rparr>)) =
      Return (Inr ?a, registered now p h y st)"
  proof (cases "reg_sessions st p")
    case None
    then show ?thesis by (simp add: close_existing_def registered_def file_new_def Let_def)
  next
    case (Some e)
    then have e: "reg_sessions ?st0 p = Some e" by simp
    obtain s err where s: "reg_heap ?st0 e = Some s" and
        cl: "ss_Close e ?st0 = Return (err, close_effect e s ?st0)"
      using ss_Close_registered [OF wf0 e] by metis
    have "e \<noteq> ?a" using reg_wf_next_unused(3) [OF assms, of p] Some by auto
    with s have "reg_heap st e = Some s" by simp
    with Some cl show ?thesis
      by (simp add: close_existing_def registered_def file_new_def drop_closed_def Let_def)
  qed
  then show ?thesis
    by (simp add: RegisterSession_def Let_def allocated_def new_session_def)
qed

lemma wf_registered [keeps]:
  assumes "reg_wf st"
  shows "reg_wf (registered now p h y st)"
proof -
  let ?a = "reg_next st" and ?s = "new_session now p h y (reg_next st)"
  let ?st0 = "allocated ?s st"
  have wf0: "reg_wf ?st0" by (rule wf_allocated [OF assms])
  have new: "ss_PeerID ?s = p" "ss_ControlChan ?s = Some ?a" by (simp_all add: new_session_def)
  show ?thesis
  proof (cases "reg_sessions st p")
    case None
    with wf_file_new [OF wf0, of p ?a ?s] new reg_wf_next_unused(2) [OF assms] show ?thesis
      by (simp add: registered_def Let_def)
  next
    case (Some e)
    obtain s where s: "reg_heap st e = Some s" and "e < ?a"
      using reg_wf_entry [OF assms Some] by metis
    then have e: "reg_heap ?st0 e = Some s" "reg_sessions ?st0 p = Some e" using Some by simp_all
    from wf_file_new [OF wf_drop [OF wf0 e(2,1)], of p ?a ?s] new \<open>e < ?a\<close> Some s
      reg_wf_next_unused(2) [OF assms]
    show ?thesis by (simp add: registered_def Let_def)
  qed
qed

lemma registered_sessions [simp]:
  "reg_sessions (registered now p h y st) = (reg_sessions st)(p \<mapsto> reg_next st)"
  by (auto simp: registered_def Let_def split: option.splits)

lemma registered_next [simp]: "reg_next (registered now p h y st) = Suc (reg_next st)"
  by (auto simp: registered_def Let_def split: option.splits)

lemma registered_new:
  assumes "reg_wf st"
  shows "reg_heap (registered now p h y st) (reg_next st) = Some (new_session now p h y (reg_next st))"
  using reg_wf_next_unused(3) [OF assms, of p]
  by (auto simp: registered_def Let_def split: option.splits)

lemma registered_other:
  assumes "b \<noteq> reg_next st" and "reg_sessions st p \<noteq> Some b"
  shows "reg_heap (registered now p h y st) b = reg_heap st b"
  using assms by (auto simp: registered_def Let_def split: option.splits)

lemma TouchHeartbeat_live:
  "reg_heap st a = Some s \<Longrightarrow> TouchHeartbeat now a st = Return (store a (s\<lparr>ss_LastHeartbeat := now\<rparr>) st)"
  by (simp add: TouchHeartbeat_def)

lemma Heartbeat_registered:
  "reg_sessions st p = Some a \<Longrightarrow> reg_heap st a = Some s \<Longrightarrow>
   Heartbeat now p st = Return (None, store a (s\<lparr>ss_LastHeartbeat := now\<rparr>) st)"
  by (simp add: Heartbeat_def Get_def TouchHeartbeat_live)

lemma MarkDisconnected_registered:
  "reg_sessions st p = Some a \<Longrightarrow> reg_heap st a = Some s \<Longrightarrow>
   MarkDisconnected p st = Return (store a (s\<lparr>ss_Connected := False\<rparr>) st)"
  by (simp add: MarkDisconnected_def)

subsection \<open>Cleanup\<close>

text \<open>The peers whose session a cleanup pass would drop.\<close>

definition stale_peers :: "instant \<Rightarrow> duration \<Rightarrow> registry \<Rightarrow> peer_id set" where
  "stale_peers now maxAge st =
     {p. \<exists>a s. reg_sessions st p = Some a \<and> reg_heap st a = Some s \<and> is_stale now maxAge s}"

text \<open>
  What a pass over the peers \<open>P\<close> does: the stale ones leave the registry and their channels are
  closed, every other entry keeps its very object, unchanged.
\<close>

definition cleaned :: "instant \<Rightarrow> duration \<Rightarrow> peer_id set \<Rightarrow> registry \<Rightarrow> registry \<Rightarrow> bool" where
  "cleaned now maxAge P st st' \<longleftrightarrow>
     reg_sessions st' = (\<lambda>p. if p \<in> P \<inter> stale_peers now maxAge st then None else reg_sessions st p) \<and>
     (\<forall>p a. reg_sessions st' p = Some a \<longrightarrow> reg_heap st' a = reg_heap st a) \<and>
     reg_closed_chans st' =
       reg_closed_chans st \<union> {a. \<exists>p \<in> P \<inter> stale_peers now maxAge st. reg_sessions st p = Some a}"

lemma stale_peers_drop:
  assumes "reg_wf st" and "reg_sessions st p = Some a" and "reg_heap st a = Some s"
  shows "stale_peers now maxAge (drop_closed p a s st) = stale_peers now maxAge st - {p}"
proof (rule set_eqI)
  fix q
  show "q \<in> stale_peers now maxAge (drop_closed p a s st) \<longleftrightarrow> q \<in> stale_peers now maxAge st - {p}"
  proof (cases "q = p \<or> reg_sessions st q = None")
    case True
    then show ?thesis by (auto simp: stale_peers_def)
  next
    case False
    then obtain b where b: "reg_sessions st q = Some b" and "q \<noteq> p" by auto
    then have "b \<noteq> a" using reg_wf_inj [OF assms(1,2)] by auto
    with b \<open>q \<noteq> p\<close> show ?thesis by (simp add: stale_peers_def)
  qed
qed

lemma cleaned_skip:
  assumes "cleaned now maxAge P st st'" and "p \<notin> stale_peers now maxAge st"
  shows "cleaned now maxAge (insert p P) st st'"
proof -
  have "insert p P \<inter> stale_peers now maxAge st = P \<inter> stale_peers now maxAge st"
    using assms(2) by auto
  with assms(1) show ?thesis by (simp add: cleaned_def)
qed

lemma cleaned_drop:
  assumes wf: "reg_wf st" and p: "reg_sessions st p = Some a" and s: "reg_heap st a = Some s"
    and stale: "p \<in> stale_peers now maxAge st"
    and rest: "cleaned now maxAge P (drop_closed p a s st) st'"
  shows "cleaned now maxAge (insert p P) st st'"
proof -
  let ?S = "stale_peers now maxAge st"
  note S = stale_peers_drop [OF wf p s, of now maxAge]
  have sess: "reg_sessions st' = (\<lambda>q. if q \<in> insert p P \<inter> ?S then None else reg_sessions st q)"
    using rest stale unfolding cleaned_def S by (auto simp: fun_eq_iff)
  have heap: "reg_heap st' b = reg_heap st b" if "reg_sessions st' q = Some b" for q b
  proof -
    from that sess stale have "reg_sessions st q = Some b" "q \<noteq> p" by (auto split: if_splits)
    then have "b \<noteq> a" using reg_wf_inj [OF wf p] by auto
    with rest that show ?thesis by (auto simp: cleaned_def)
  qed
  have "reg_closed_chans st' = insert a (reg_closed_chans st) \<union>
      {b. \<exists>q \<in> P \<inter> (?S - {p}). q \<noteq> p \<and> reg_sessions st q = Some b}"
    using rest unfolding cleaned_def S by auto
  then have "reg_closed_chans st' = reg_closed_chans st \<union>
      {b. \<exists>q \<in> insert p P \<inter> ?S. reg_sessions st q = Some b}"
    using p stale by auto
  with sess heap show ?thesis by (simp add: cleaned_def)
qed

lemma Cleanup_loop_spec:
  assumes "reg_wf st"
  shows "\<exists>st'. Cleanup_loop now maxAge ps n st =
      Return (n + int (card (set ps \<inter> stale_peers now maxAge st)), st') \<and>
    reg_wf st' \<and> cleaned now maxAge (set ps) st st'"
  using assms
proof (induction ps arbitrary: n st)
  case Nil
  then show ?case by (simp add: cleaned_def)
next
  case (Cons p ps)
  show ?case
  proof (cases "p \<in> stale_peers now maxAge st")
    case False
    have "Cleanup_loop now maxAge (p # ps) n st = Cleanup_loop now maxAge ps n st"
    proof (cases "reg_sessions st p")
      case (Some a)
      obtain s where "reg_heap st a = Some s" using reg_wf_entry [OF Cons.prems Some] by metis
      with Some False show ?thesis by (auto simp: stale_peers_def)
    qed simp
    moreover have "insert p (set ps) \<inter> stale_peers now maxAge st = set ps \<inter> stale_peers now maxAge st"
      using False by auto
    ultimately show ?thesis
      using Cons.IH [OF Cons.prems, of n] cleaned_skip [OF _ False] by auto
  next
    case True
    then obtain a s where p: "reg_sessions st p = Some a" and s: "reg_heap st a = Some s"
        and stale: "is_stale now maxAge s" by (auto simp: stale_peers_def)
    let ?st1 = "drop_closed p a s st"
    obtain e where "ss_Close a st = Return (e, close_effect a s st)"
      using ss_Close_registered [OF Cons.prems p] s by (metis option.inject)
    with p s stale have step: "Cleanup_loop now maxAge (p # ps) n st = Cleanup_loop now maxAge ps (n + 1) ?st1"
      by (simp add: drop_closed_def)
    note wf1 = wf_drop [OF Cons.prems p s] and S = stale_peers_drop [OF Cons.prems p s, of now maxAge]
    have "insert p (set ps) \<inter> stale_peers now maxAge st = insert p (set ps \<inter> (stale_peers now maxAge st - {p}))"
      using True by auto
    then have "int (card (set (p # ps) \<inter> stale_peers now maxAge st)) =
        1 + int (card (set ps \<inter> stale_peers now maxAge ?st1))"
      by (simp add: S)
    with Cons.IH [OF wf1, of "n + 1"] step cleaned_drop [OF Cons.prems p s True, of "set ps"]
    show ?thesis by auto
  qed
qed

lemma Cleanup_spec:
  assumes "reg_wf st"
  obtains st' where
    "Cleanup now maxAge ps st = Return (int (card (set ps \<inter> stale_peers now maxAge st)), st')"
    "reg_wf st'" "cleaned now maxAge (set ps) st st'"
  using Cleanup_loop_spec [OF assms, of now maxAge ps 0] that by (auto simp: Cleanup_def)

subsection \<open>Statistics and listings\<close>

definition connected_peers :: "registry \<Rightarrow> peer_id set" where
  "connected_peers st =
     {p. \<exists>a s. reg_sessions st p = Some a \<and> reg_heap st a = Some s \<and> ss_Connected s}"

lemma Stats_loop_spec:
  assumes "reg_wf st" and "set ps \<subseteq> dom (reg_sessions st)"
  shows "Stats_loop ps st stats =
    Return (stats\<lparr>st_ActiveSessions := st_ActiveSessions stats + int (length (filter (\<lambda>p. p \<in> connected_peers st) ps)),
                  st_InactiveSessions := st_InactiveSessions stats + int (length (filter (\<lambda>p. p \<notin> connected_peers st) ps))\<rparr>)"
  using assms(2)
proof (induction ps arbitrary: stats)
  case (Cons p ps)
  then obtain a where p: "reg_sessions st p = Some a" by auto
  obtain s where s: "reg_heap st a = Some s" using reg_wf_entry [OF assms(1) p] by metis
  have "p \<in> connected_peers st \<longleftrightarrow> ss_Connected s"
    using p s by (auto simp: connected_peers_def)
  with Cons p s show ?case by (simp add: algebra_simps)
qed simp

lemma List_loop_spec:
  assumes "reg_wf st" and "set ps \<subseteq> dom (reg_sessions st)"
  shows "List_loop mds ps st =
    Return (map (\<lambda>p. let a = the (reg_sessions st p) in snapshot (mds a) (the (reg_heap st a))) ps)"
  using assms(2)
proof (induction ps)
  case (Cons p ps)
  then obtain a where p: "reg_sessions st p = Some a" by auto
  obtain s where s: "reg_heap st a = Some s" using reg_wf_entry [OF assms(1) p] by metis
  with Cons p show ?case by (simp add: Let_def)
qed simp

subsection \<open>Any sequence of operations\<close>

text \<open>
  One call of the manager's public methods, by any goroutine; the lock makes them steps. The
  pointer given to \<open>RemoveIfCurrent\<close> and the visiting orders are arbitrary.
\<close>

datatype reg_op =
    OpRegisterSession peer_id "handshake option" "yamux option"
  | OpRemove peer_id
  | OpRemoveIfCurrent peer_id sref
  | OpHeartbeat peer_id
  | OpMarkDisconnected peer_id
  | OpCleanup duration "peer_id list"

fun reg_step :: "instant \<Rightarrow> reg_op \<Rightarrow> registry \<Rightarrow> registry outcome" where
  "reg_step now (OpRegisterSession p h y) st =
     bind_outcome (RegisterSession now p h y st) (\<lambda>(_, st1). Return st1)"
| "reg_step now (OpRemove p) st = bind_outcome (Remove p st) (\<lambda>(_, st1). Return st1)"
| "reg_step now (OpRemoveIfCurrent p a) st =
     bind_outcome (RemoveIfCurrent p a st) (\<lambda>(_, st1). Return st1)"
| "reg_step now (OpHeartbeat p) st = bind_outcome (Heartbeat now p st) (\<lambda>(_, st1). Return st1)"
| "reg_step now (OpMarkDisconnected p) st = MarkDisconnected p st"
| "reg_step now (OpCleanup d ps) st = bind_outcome (Cleanup now d ps st) (\<lambda>(_, st1). Return st1)"

fun reg_run :: "(instant \<times> reg_op) list \<Rightarrow> registry \<Rightarrow> registry outcome" where
  "reg_run [] st = Return st"
| "reg_run ((now, c) # cs) st = bind_outcome (reg_step now c st) (reg_run cs)"

text \<open>
  What one call can do to the registry, whatever it is: nothing, file a new session, close and drop one,
  write to the heartbeat or the connected flag of one, or a cleanup pass.
\<close>

definition same_session :: "session_state \<Rightarrow> session_state \<Rightarrow> bool" where
  "same_session s s' \<longleftrightarrow> ss_PeerID s' = ss_PeerID s \<and> ss_Handshake s' = ss_Handshake s \<and>
     ss_Session s' = ss_Session s \<and> ss_ControlChan s' = ss_ControlChan s"

lemma same_session_writes [simp]:
  "same_session s (s\<lparr>ss_LastHeartbeat := t\<rparr>)" "same_session s (s\<lparr>ss_Connected := b\<rparr>)"
  by (simp_all add: same_session_def)

lemma reg_step_effect [consumes 1, case_names Same New Drop Write Sweep]:
  assumes "reg_wf st"
  obtains "reg_step now c st = Return st"
  | p h y where "c = OpRegisterSession p (Some h) y" "reg_step now c st = Return (registered now p h y st)"
  | p a s where "c = OpRemove p \<or> c = OpRemoveIfCurrent p a" "reg_sessions st p = Some a" "reg_heap st a = Some s"
      "reg_step now c st = Return (drop_closed p a s st)"
  | p a s s' where "c = OpHeartbeat p \<or> c = OpMarkDisconnected p" "reg_sessions st p = Some a" "reg_heap st a = Some s"
      "same_session s s'" "reg_step now c st = Return (store a s' st)"
  | d ps n st' where "c = OpCleanup d ps" "Cleanup now d ps st = Return (n, st')" "reg_step now c st = Return st'"
proof -
  have entry: "reg_sessions st p = None \<or> (\<exists>a s. reg_sessions st p = Some a \<and> reg_heap st a = Some s)" for p
    using reg_wf_entry [OF assms] by (metis not_None_eq)
  show ?thesis
  proof (cases c)
    case (OpRegisterSession p h y)
    with RegisterSession_ok [OF assms] that(1,2) show ?thesis
      by (cases h) (auto simp: RegisterSession_def)
  next
    case (OpRemove p)
    with entry [of p] Remove_registered [OF assms, of p] that(1,3) show ?thesis by (auto simp: Remove_def)
  next
    case (OpRemoveIfCurrent p a)
    show ?thesis
    proof (cases "reg_sessions st p = Some a")
      case True
      with OpRemoveIfCurrent entry [of p] RemoveIfCurrent_registered [OF assms True] that(3) show ?thesis by auto
    next
      case False
      with OpRemoveIfCurrent RemoveIfCurrent_stale [OF False] that(1) show ?thesis by auto
    qed
  next
    case (OpHeartbeat p)
    from entry [of p] show ?thesis
    proof (elim disjE exE conjE)
      assume "reg_sessions st p = None"
      with OpHeartbeat that(1) show ?thesis by (simp add: Heartbeat_def Get_def)
    next
      fix a s
      assume r: "reg_sessions st p = Some a" "reg_heap st a = Some s"
      with that(4) [of p, OF _ r same_session_writes(1)] OpHeartbeat show ?thesis by (simp add: Heartbeat_registered)
    qed
  next
    case (OpMarkDisconnected p)
    from entry [of p] show ?thesis
    proof (elim disjE exE conjE)
      assume "reg_sessions st p = None"
      with OpMarkDisconnected that(1) show ?thesis by (simp add: MarkDisconnected_def)
    next
      fix a s
      assume r: "reg_sessions st p = Some a" "reg_heap st a = Some s"
      with that(4) [of p, OF _ r same_session_writes(2)] OpMarkDisconnected show ?thesis
        by (simp add: MarkDisconnected_registered)
    qed
  next
    case (OpCleanup d ps)
    obtain n st' where "Cleanup now d ps st = Return (n, st')" using Cleanup_spec [OF assms] by metis
    with OpCleanup that(5) show ?thesis by simp
  qed
qed

lemma reg_step_wf:
  assumes "reg_wf st"
  shows "\<exists>st'. reg_step now c st = Return st' \<and> reg_wf st'"
  using assms
proof (cases rule: reg_step_effect [of st now c])
  case (Sweep d ps n st')
  then show ?thesis using Cleanup_spec [OF assms, of now d ps] by (metis Pair_inject outcome.inject(1))
qed (use assms wf_registered wf_drop wf_store in \<open>auto simp: same_session_def\<close>)

text \<open>
  What every drop keeps, a cleanup pass keeps; what filing, dropping and writing keep, every call keeps.
\<close>

lemma Cleanup_loop_keeps:
  assumes "reg_wf st" and "Cleanup_loop now d ps n st = Return (m, st')" and "P st"
    and "\<And>p a s st. reg_wf st \<Longrightarrow> reg_sessions st p = Some a \<Longrightarrow> reg_heap st a = Some s \<Longrightarrow> P st \<Longrightarrow> P (drop_closed p a s st)"
  shows "P st'"
  using assms(1-3)
proof (induction ps arbitrary: n st)
  case (Cons p ps)
  show ?case
  proof (cases "reg_sessions st p")
    case None
    with Cons show ?thesis by simp
  next
    case (Some a)
    obtain s e where s: "reg_heap st a = Some s" and cl: "ss_Close a st = Return (e, close_effect a s st)"
      using ss_Close_registered [OF Cons.prems(1) Some] by metis
    show ?thesis
    proof (cases "is_stale now d s")
      case True
      with Some s cl Cons.prems(2) have "Cleanup_loop now d ps (n + 1) (drop_closed p a s st) = Return (m, st')"
        by (simp add: drop_closed_def)
      from Cons.IH [OF wf_drop [OF Cons.prems(1) Some s] this assms(4) [OF Cons.prems(1) Some s Cons.prems(3)]]
      show ?thesis .
    next
      case False
      with Some s Cons show ?thesis by simp
    qed
  qed
qed simp

lemma reg_step_keeps:
  assumes "reg_wf st" and "reg_step now c st = Return st'" and "P st"
    and "\<And>p h y. c = OpRegisterSession p (Some h) y \<Longrightarrow> P (registered now p h y st)"
    and "\<And>p a s st. reg_wf st \<Longrightarrow> reg_sessions st p = Some a \<Longrightarrow> reg_heap st a = Some s \<Longrightarrow> P st \<Longrightarrow> P (drop_closed p a s st)"
    and "\<And>p a s s'. reg_sessions st p = Some a \<Longrightarrow> reg_heap st a = Some s \<Longrightarrow> same_session s s' \<Longrightarrow> P (store a s' st)"
  shows "P st'"
  using assms(1)
proof (cases rule: reg_step_effect [of st now c])
  case (Sweep d ps n st1)
  then have "Cleanup_loop now d ps 0 st = Return (n, st')" using assms(2) by (simp add: Cleanup_def)
  from Cleanup_loop_keeps [where P = P, OF assms(1) this assms(3,5)] show ?thesis .
qed (use assms in auto)

lemma reg_run_wf: "reg_wf st \<Longrightarrow> \<exists>st'. reg_run cs st = Return st' \<and> reg_wf st'"
proof (induction cs arbitrary: st)
  case (Cons x cs)
  obtain now c where x: "x = (now, c)" by (cases x)
  from reg_step_wf [OF Cons.prems, of now c] Cons.IH show ?case by (auto simp: x)
qed simp

subsection \<open>The contract of a session directory\<close>

text \<open>
  What never changes of a session object: whose it is, the handshake it was admitted with and
  the yamux session behind it.
\<close>

definition identity :: "registry \<Rightarrow> sref \<Rightarrow> (peer_id \<times> handshake option \<times> yamux option) option" where
  "identity st a = map_option (\<lambda>s. (ss_PeerID s, ss_Handshake s, ss_Session s)) (reg_heap st a)"

text \<open>
  The interface of the connection handlers: they register a session, refresh it while it lives
  and remove it when they exit. The laws say that a registration files a new object under its
  peer id, that a removal takes out the caller's own entry and nothing else, that nothing panics
  and that identities last.
\<close>

locale session_directory =
  fixes lookup :: "'s \<Rightarrow> peer_id \<Rightarrow> sref option"
    and ident :: "'s \<Rightarrow> sref \<Rightarrow> (peer_id \<times> handshake option \<times> yamux option) option"
    and register :: "instant \<Rightarrow> peer_id \<Rightarrow> handshake option \<Rightarrow> yamux option \<Rightarrow> 's \<Rightarrow> (sref result \<times> 's) outcome"
    and remove :: "peer_id \<Rightarrow> sref \<Rightarrow> 's \<Rightarrow> (go_error option \<times> 's) outcome"
    and touch :: "instant \<Rightarrow> sref \<Rightarrow> 's \<Rightarrow> 's outcome"
    and inv :: "'s \<Rightarrow> bool"
  assumes register_law: "inv s \<Longrightarrow> \<exists>a s'. register now p (Some h) y s = Return (Inr a, s') \<and> inv s' \<and>
      lookup s' = (lookup s)(p \<mapsto> a) \<and> ident s a = None \<and> ident s' = (ident s)(a \<mapsto> (p, Some h, y))"
    and remove_law: "inv s \<Longrightarrow> \<exists>e s'. remove p a s = Return (e, s') \<and> inv s' \<and> ident s' = ident s \<and>
      lookup s' = (if lookup s p = Some a then (lookup s)(p := None) else lookup s)"
    and remove_other: "lookup s p \<noteq> Some a \<Longrightarrow> \<exists>e. remove p a s = Return (e, s)"
    and touch_law: "inv s \<Longrightarrow> ident s a \<noteq> None \<Longrightarrow>
      \<exists>s'. touch now a s = Return s' \<and> inv s' \<and> ident s' = ident s \<and> lookup s' = lookup s"
    and entry_law: "inv s \<Longrightarrow> lookup s p = Some a \<Longrightarrow> \<exists>h y. ident s a = Some (p, h, y)"
begin

lemma register_files_new:
  assumes "inv s" and "register now p (Some h) y s = Return (Inr a, s')"
  shows "inv s'" and "lookup s' = (lookup s)(p \<mapsto> a)" and "ident s a = None"
    and "ident s' = (ident s)(a \<mapsto> (p, Some h, y))" and "lookup s q \<noteq> Some a"
  using register_law [OF assms(1), of now p h y] assms(2) entry_law [OF assms(1), of q a] by auto

text \<open>
  A handler whose connection was replaced exits without effect: if a later registration filed
  another object under the peer id, removing the old object changes nothing at all.
\<close>

lemma replaced_exit_is_noop:
  assumes "inv s" and "ident s old \<noteq> None" and "register now p (Some h) y s = Return (Inr a, s')"
  shows "\<exists>e. remove p old s' = Return (e, s')"
proof (rule remove_other)
  have "a \<noteq> old" using register_files_new(3) [OF assms(1,3)] assms(2) by auto
  then show "lookup s' p \<noteq> Some old" using register_files_new(2) [OF assms(1,3)] by simp
qed

lemma own_exit_removes:
  assumes "inv s" and "lookup s p = Some a" and "remove p a s = Return (e, s')"
  shows "lookup s' p = None" and "q \<noteq> p \<Longrightarrow> lookup s' q = lookup s q"
  using remove_law [OF assms(1), of p a] assms(2,3) by auto

end

text \<open>
  The registry as its other users see it: in addition, heartbeats by peer id and cleanup passes,
  which only ever drop entries.
\<close>

locale swept_directory = session_directory lookup ident register remove touch inv
  for lookup :: "'s \<Rightarrow> peer_id \<Rightarrow> sref option" and ident register remove touch inv +
  fixes heartbeat :: "instant \<Rightarrow> peer_id \<Rightarrow> 's \<Rightarrow> (go_error option \<times> 's) outcome"
    and sweep :: "instant \<Rightarrow> duration \<Rightarrow> peer_id list \<Rightarrow> 's \<Rightarrow> (int \<times> 's) outcome"
  assumes heartbeat_law: "inv s \<Longrightarrow> \<exists>e s'. heartbeat now p s = Return (e, s') \<and> inv s' \<and>
      ident s' = ident s \<and> lookup s' = lookup s \<and> (e = None \<longleftrightarrow> lookup s p \<noteq> None)"
    and sweep_law: "inv s \<Longrightarrow> \<exists>n s'. sweep now d ps s = Return (n, s') \<and> inv s' \<and>
      ident s' = ident s \<and> (\<forall>p. lookup s' p = None \<or> lookup s' p = lookup s p)"
begin

lemma sweep_only_drops:
  assumes "inv s" and "sweep now d ps s = Return (n, s')" and "lookup s' p = Some a"
  shows "lookup s p = Some a"
  using sweep_law [OF assms(1), of now d ps] assms(2,3) by (metis Pair_inject option.distinct(1) outcome.inject(1))

end

lemma identity_store:
  "reg_heap st a = Some s \<Longrightarrow> ss_PeerID s' = ss_PeerID s \<Longrightarrow> ss_Handshake s' = ss_Handshake s \<Longrightarrow>
   ss_Session s' = ss_Session s \<Longrightarrow> identity (store a s' st) = identity st"
  by (auto simp: identity_def fun_eq_iff)

lemma identity_drop_closed:
  "reg_heap st a = Some s \<Longrightarrow> identity (drop_closed p a s st) = identity st"
  by (auto simp: identity_def fun_eq_iff)

lemma identity_registered:
  assumes "reg_wf st"
  shows "identity (registered now p h y st) = (identity st)(reg_next st \<mapsto> (p, Some h, y))"
proof
  fix b
  show "identity (registered now p h y st) b = ((identity st)(reg_next st \<mapsto> (p, Some h, y))) b"
  proof (cases "b = reg_next st")
    case True
    then show ?thesis
      using registered_new [OF assms] by (simp add: identity_def new_session_def)
  next
    case new: False
    show ?thesis
    proof (cases "reg_sessions st p = Some b")
      case True
      obtain s where "reg_heap st b = Some s" using reg_wf_entry [OF assms True] by metis
      with new True show ?thesis by (simp add: identity_def registered_def Let_def)
    next
      case False
      with new show ?thesis by (simp add: identity_def registered_other)
    qed
  qed
qed

lemma identity_Cleanup_loop:
  assumes "reg_wf st" and "Cleanup_loop now d ps n st = Return (m, st')"
  shows "identity st' = identity st"
  by (rule Cleanup_loop_keeps [where P = "\<lambda>s. identity s = identity st", OF assms])
     (simp_all add: identity_drop_closed)

text \<open>What the laws of the contract say of each operation.\<close>

lemma RemoveIfCurrent_law:
  assumes wf: "reg_wf s"
  shows "\<exists>e s'. RemoveIfCurrent p a s = Return (e, s') \<and> reg_wf s' \<and> identity s' = identity s \<and>
      reg_sessions s' = (if reg_sessions s p = Some a then (reg_sessions s)(p := None) else reg_sessions s)"
proof (cases "reg_sessions s p = Some a")
  case True
  obtain t where "reg_heap s a = Some t" using reg_wf_entry [OF wf True] by metis
  with True RemoveIfCurrent_registered [OF wf True] wf_drop [OF wf True] identity_drop_closed
  show ?thesis by auto
next
  case False
  with RemoveIfCurrent_stale [OF False] wf show ?thesis by auto
qed

lemma Heartbeat_law:
  assumes wf: "reg_wf s"
  shows "\<exists>e s'. Heartbeat now p s = Return (e, s') \<and> reg_wf s' \<and> identity s' = identity s \<and>
      reg_sessions s' = reg_sessions s \<and> (e = None \<longleftrightarrow> reg_sessions s p \<noteq> None)"
proof (cases "reg_sessions s p")
  case None
  with wf show ?thesis by (simp add: Heartbeat_def Get_def)
next
  case (Some a)
  obtain t where t: "reg_heap s a = Some t" using reg_wf_entry [OF wf Some] by metis
  with Some Heartbeat_registered [OF Some t] wf_store [OF wf t] identity_store [OF t]
  show ?thesis by simp
qed

lemma Cleanup_law:
  assumes wf: "reg_wf s"
  shows "\<exists>n s'. Cleanup now d ps s = Return (n, s') \<and> reg_wf s' \<and>
      identity s' = identity s \<and> (\<forall>p. reg_sessions s' p = None \<or> reg_sessions s' p = reg_sessions s p)"
proof -
  obtain s' where r: "Cleanup now d ps s = Return (int (card (set ps \<inter> stale_peers now d s)), s')"
      and s': "reg_wf s'" "cleaned now d (set ps) s s'"
    using Cleanup_spec [OF wf] .
  have "identity s' = identity s"
    using identity_Cleanup_loop [OF wf r [unfolded Cleanup_def]] .
  with r s' show ?thesis by (auto simp: cleaned_def)
qed

interpretation dir: swept_directory
  "\<lambda>st p. reg_sessions st p" identity RegisterSession RemoveIfCurrent TouchHeartbeat reg_wf Heartbeat Cleanup
proof unfold_locales
  fix s now p h y
  assume wf: "reg_wf s"
  show "\<exists>a s'. RegisterSession now p (Some h) y s = Return (Inr a, s') \<and> reg_wf s' \<and>
      reg_sessions s' = (reg_sessions s)(p \<mapsto> a) \<and> identity s a = None \<and>
      identity s' = (identity s)(a \<mapsto> (p, Some h, y))"
    using RegisterSession_ok [OF wf] wf_registered [OF wf] identity_registered [OF wf]
      reg_wf_next_unused(1) [OF wf] by (auto simp: identity_def)
next
  fix s p a
  assume wf: "reg_wf s"
  show "\<exists>e s'. RemoveIfCurrent p a s = Return (e, s') \<and> reg_wf s' \<and> identity s' = identity s \<and>
      reg_sessions s' = (if reg_sessions s p = Some a then (reg_sessions s)(p := None) else reg_sessions s)"
    using wf by (rule RemoveIfCurrent_law)
next
  fix s :: registry and p a
  assume "reg_sessions s p \<noteq> Some a"
  then show "\<exists>e. RemoveIfCurrent p a s = Return (e, s)" by (rule RemoveIfCurrent_stale)
next
  fix s a now
  assume wf: "reg_wf s" and "identity s a \<noteq> None"
  then obtain t where t: "reg_heap s a = Some t" by (auto simp: identity_def)
  show "\<exists>s'. TouchHeartbeat now a s = Return s' \<and> reg_wf s' \<and> identity s' = identity s \<and>
      reg_sessions s' = reg_sessions s"
    using TouchHeartbeat_live [OF t] wf_store [OF wf t] identity_store [OF t] by simp
next
  fix s p a
  assume wf: "reg_wf s" and p: "reg_sessions s p = Some a"
  show "\<exists>h y. identity s a = Some (p, h, y)"
    using reg_wf_entry [OF wf p] by (auto simp: identity_def)
next
  fix s now p
  assume wf: "reg_wf s"
  show "\<exists>e s'. Heartbeat now p s = Return (e, s') \<and> reg_wf s' \<and> identity s' = identity s \<and>
      reg_sessions s' = reg_sessions s \<and> (e = None \<longleftrightarrow> reg_sessions s p \<noteq> None)"
    using wf by (rule Heartbeat_law)
next
  fix s now d ps
  assume wf: "reg_wf s"
  show "\<exists>n s'. Cleanup now d ps s = Return (n, s') \<and> reg_wf s' \<and>
      identity s' = identity s \<and> (\<forall>p. reg_sessions s' p = None \<or> reg_sessions s' p = reg_sessions s p)"
    using wf by (rule Cleanup_law)
qed

end
