(* ===== verification/Registry_Properties.thy ===== *)
theory Registry_Properties
  imports Registry_Contract
begin

section \<open>Properties of the session registry\<close>

text \<open>
  The properties of \<^verbatim>\<open>SessionManager\<close> and \<^verbatim>\<open>SessionState\<close> a user of the package relies on:
  no call panics, a stale handler cannot disturb its successor, a cleanup pass drops the stale
  sessions and only those, the statistics add up, and the method list of a handshake survives
  its encoding. One of them records where the code and its comment part: \<^verbatim>\<open>Close\<close> is not
  idempotent.
\<close>

subsection \<open>Sample values for the witnesses\<close>

definition demo_handshake :: handshake where
  "demo_handshake =
     \<lparr>hs_NodeID = ''node-a'', hs_Version = ''v1'', hs_Features = None, hs_Metadata = None,
      hs_TimestampSec = 0, hs_Token = ''t''\<rparr>"

abbreviation demo_registry :: registry where
  "demo_registry \<equiv> NewRegistry (\<lambda>_. None)"

text \<open>\<open>node-a\<close> is registered at time 0 and silent since, \<open>node-b\<close> at time 500.\<close>

abbreviation demo_two :: registry where
  "demo_two \<equiv> registered 500 ''node-b'' demo_handshake (Some 8)
     (registered 0 ''node-a'' demo_handshake (Some 7) demo_registry)"

lemma demo_two_wf: "reg_wf demo_two"
  by (intro keeps)

lemma demo_two_unfold:
  "demo_two =
     \<lparr>reg_sessions = [''node-a'' \<mapsto> 0, ''node-b'' \<mapsto> 1],
      reg_heap = [0 \<mapsto> new_session 0 ''node-a'' demo_handshake (Some 7) 0,
                  1 \<mapsto> new_session 500 ''node-b'' demo_handshake (Some 8) 1],
      reg_next = 2, reg_closed_chans = {}, reg_closed_yamux = {}, reg_yamux_err = (\<lambda>_. None)\<rparr>"
  by (simp add: registered_def file_new_def allocated_def store_def NewRegistry_def Let_def)

subsection \<open>Safety of the operations\<close>

text \<open>
  What a call that registers nothing does to the directory: identities stay, entries at most go.
\<close>

fun registers :: "reg_op \<Rightarrow> bool" where
  "registers (OpRegisterSession p h y) = True"
| "registers _ = False"

definition dir_shrinks :: "registry \<Rightarrow> registry \<Rightarrow> bool" where
  "dir_shrinks st st' \<longleftrightarrow> reg_wf st' \<and> identity st' = identity st \<and>
     (\<forall>p. reg_sessions st' p = None \<or> reg_sessions st' p = reg_sessions st p)"

lemma dir_shrinks_refl: "reg_wf st \<Longrightarrow> dir_shrinks st st"
  by (simp add: dir_shrinks_def)

lemma dir_shrinks_drop:
  assumes "reg_wf st" and "reg_sessions st p = Some a" and "reg_heap st a = Some s"
  shows "dir_shrinks st (drop_closed p a s st)"
  using wf_drop [OF assms] identity_drop_closed [OF assms(3)] by (simp add: dir_shrinks_def)

lemma dir_shrinks_store:
  assumes "reg_wf st" and "reg_heap st a = Some s" and "ss_PeerID s' = ss_PeerID s"
    and "ss_Handshake s' = ss_Handshake s" and "ss_Session s' = ss_Session s"
    and "ss_ControlChan s' = ss_ControlChan s"
  shows "dir_shrinks st (store a s' st)"
  using wf_store [OF assms(1-3,6)] identity_store [OF assms(2-5)] by (simp add: dir_shrinks_def)

lemma dir_shrinks_trans: "dir_shrinks st st1 \<Longrightarrow> dir_shrinks st1 st2 \<Longrightarrow> dir_shrinks st st2"
  unfolding dir_shrinks_def by metis

lemma reg_step_shrinks:
  assumes "reg_wf st" and "\<not> registers c" and "reg_step now c st = Return st'"
  shows "dir_shrinks st st'"
proof (rule reg_step_keeps [where P = "dir_shrinks st", OF assms(1,3) dir_shrinks_refl [OF assms(1)]])
  fix p a s st1
  assume "reg_wf st1" "reg_sessions st1 p = Some a" "reg_heap st1 a = Some s" "dir_shrinks st st1"
  then show "dir_shrinks st (drop_closed p a s st1)" using dir_shrinks_drop dir_shrinks_trans by blast
next
  fix p a s s'
  assume "reg_heap st a = Some s" "same_session s s'"
  then show "dir_shrinks st (store a s' st)" using dir_shrinks_store [OF assms(1)] by (simp add: same_session_def)
qed (use assms(2) in simp)

text \<open>An address that has been handed out is never filed again, and keeps its identity.\<close>

lemma reg_step_frame:
  assumes "reg_wf st" and "reg_step now c st = Return st'"
  shows "(identity st a \<noteq> None \<longrightarrow> identity st' a = identity st a) \<and>
    (reg_sessions st' p = Some a \<longrightarrow> reg_sessions st p = Some a \<or> identity st a = None)"
proof (cases "registers c")
  case False
  have "dir_shrinks st st'" by (rule reg_step_shrinks [OF assms(1) False assms(2)])
  then show ?thesis by (metis dir_shrinks_def option.distinct(1))
next
  case True
  then obtain q h y where c: "c = OpRegisterSession q h y" by (cases c) auto
  show ?thesis
  proof (cases h)
    case None
    with c assms(2) show ?thesis by (simp add: RegisterSession_def)
  next
    case (Some hs)
    obtain b where "RegisterSession now q (Some hs) y st = Return (Inr b, st')"
      using dir.register_law [OF assms(1), of now q hs y] c Some assms(2) by auto
    from dir.register_files_new [OF assms(1) this] show ?thesis by (auto split: if_splits)
  qed
qed

lemma reg_run_frame:
  "reg_wf st \<Longrightarrow> reg_run cs st = Return st' \<Longrightarrow> identity st a \<noteq> None \<Longrightarrow>
   reg_wf st' \<and> identity st' a = identity st a \<and>
   (reg_sessions st p \<noteq> Some a \<longrightarrow> reg_sessions st' p \<noteq> Some a)"
proof (induction cs arbitrary: st)
  case (Cons x cs)
  obtain now c where x: "x = (now, c)" by (cases x)
  obtain st1 where st1: "reg_step now c st = Return st1" "reg_run cs st1 = Return st'"
    using Cons.prems(2) by (auto simp: x outcome_simps)
  have wf1: "reg_wf st1" using reg_step_wf [OF Cons.prems(1), of now c] st1(1) by auto
  have "identity st1 a = identity st a" "reg_sessions st1 p = Some a \<longrightarrow> reg_sessions st p = Some a"
    using reg_step_frame [OF Cons.prems(1) st1(1), of a p] Cons.prems(3) by auto
  with Cons.IH [OF wf1 st1(2)] Cons.prems(3) show ?case by auto
qed simp

text \<open>
  A handler whose connection was replaced exits without touching its successor: once another
  session was registered under the peer id, \<^verbatim>\<open>RemoveIfCurrent\<close> with the old pointer leaves the
  whole registry as it is, whatever other calls come in between and afterwards.
\<close>

lemma stale_handler_exit_changes_nothing:
  assumes "reg_wf st"
    and "RegisterSession t1 p (Some h1) y1 st = Return (Inr old, st1)"
    and "reg_run cs1 st1 = Return st2"
    and "RegisterSession t2 p (Some h2) y2 st2 = Return (Inr new, st3)"
    and "reg_run cs2 st3 = Return st4"
  shows "\<exists>e. RemoveIfCurrent p old st4 = Return (e, st4)"
proof -
  note r1 = dir.register_files_new [OF assms(1,2)]
  have "identity st1 old \<noteq> None" using r1(4) by simp
  then have st2: "reg_wf st2" "identity st2 old \<noteq> None"
    using reg_run_frame [OF r1(1) assms(3)] by auto
  note r2 = dir.register_files_new [OF st2(1) assms(4)]
  from st2(2) r2(3) have "new \<noteq> old" by auto
  then have "identity st3 old \<noteq> None" "reg_sessions st3 p \<noteq> Some old"
    using r2(2,4) st2(2) by auto
  then have "reg_sessions st4 p \<noteq> Some old"
    using reg_run_frame [OF r2(1) assms(5)] by blast
  then show ?thesis by (rule dir.remove_other)
qed

lemma stale_handler_exit_changes_nothing_witness:
  "\<exists>st e. RemoveIfCurrent ''node-a'' 0 st = Return (e, st) \<and> reg_sessions st ''node-a'' = Some 1"
proof -
  let ?st1 = "registered 0 ''node-a'' demo_handshake (Some 7) demo_registry"
  let ?st3 = "registered 9 ''node-a'' demo_handshake (Some 8) ?st1"
  have wf: "reg_wf demo_registry" "reg_wf ?st1" by (intro keeps)+
  have "RegisterSession 0 ''node-a'' (Some demo_handshake) (Some 7) demo_registry = Return (Inr 0, ?st1)"
    using RegisterSession_ok [OF wf(1)] by (simp add: NewRegistry_def)
  moreover have "RegisterSession 9 ''node-a'' (Some demo_handshake) (Some 8) ?st1 = Return (Inr 1, ?st3)"
    using RegisterSession_ok [OF wf(2)] by (simp add: NewRegistry_def)
  moreover have "reg_run [] ?st1 = Return ?st1" and "reg_run [] ?st3 = Return ?st3" by simp_all
  ultimately have "\<exists>e. RemoveIfCurrent ''node-a'' 0 ?st3 = Return (e, ?st3)"
    using stale_handler_exit_changes_nothing [OF wf(1)] by blast
  moreover have "reg_sessions ?st3 ''node-a'' = Some 1"
    by (simp add: NewRegistry_def)
  ultimately show ?thesis by blast
qed

text \<open>
  C18. A cleanup pass, in any order the runtime visits the sessions, removes exactly the sessions
  that are disconnected or have been silent for longer than \<open>maxAge\<close>, returns their number,
  closes exactly their channels, and leaves every other session the very object it was.
\<close>

theorem Cleanup_drops_exactly_the_stale:
  assumes "reg_wf st" and "go_range order (reg_sessions st)"
  shows "\<exists>st'. Cleanup now maxAge order st = Return (int (card (stale_peers now maxAge st)), st') \<and>
    reg_wf st' \<and>
    reg_sessions st' = (\<lambda>p. if p \<in> stale_peers now maxAge st then None else reg_sessions st p) \<and>
    (\<forall>p a. reg_sessions st' p = Some a \<longrightarrow> reg_heap st' a = reg_heap st a) \<and>
    reg_closed_chans st' =
      reg_closed_chans st \<union> {a. \<exists>p \<in> stale_peers now maxAge st. reg_sessions st p = Some a}"
proof -
  have "set order \<inter> stale_peers now maxAge st = stale_peers now maxAge st"
    using go_rangeD(2) [OF assms(2)] by (auto simp: stale_peers_def)
  moreover obtain st' where
    "Cleanup now maxAge order st = Return (int (card (set order \<inter> stale_peers now maxAge st)), st')"
    "reg_wf st'" "cleaned now maxAge (set order) st st'"
    using Cleanup_spec [OF assms(1)] .
  ultimately show ?thesis by (auto simp: cleaned_def)
qed

theorem Cleanup_drops_exactly_the_stale_witness:
  "\<exists>st'. Cleanup 1000 600 [''node-b'', ''node-a''] demo_two = Return (1, st') \<and>
     reg_sessions st' = [''node-b'' \<mapsto> 1]"
proof -
  have stale: "stale_peers 1000 600 demo_two = {''node-a''}"
    unfolding demo_two_unfold
    by (auto simp: stale_peers_def is_stale_def new_session_def time_Sub_def int64_defs split: if_splits)
  have r: "go_range [''node-b'', ''node-a''] (reg_sessions demo_two)"
    unfolding demo_two_unfold by (auto simp: go_range_def)
  from Cleanup_drops_exactly_the_stale [OF demo_two_wf r, of 1000 600] show ?thesis
    unfolding stale unfolding demo_two_unfold by (auto simp: fun_eq_iff)
qed

text \<open>
  \<^verbatim>\<open>Stats\<close> counts every registered session once: the active ones are the connected ones,
  active and inactive add up to the total, and the total is \<^verbatim>\<open>Size\<close>.
\<close>

lemma Stats_add_up:
  assumes "reg_wf st" and "go_range order (reg_sessions st)"
  shows "\<exists>s. Stats order st = Return s \<and> st_TotalSessions s = int (Size st) \<and>
    st_ActiveSessions s = int (card (connected_peers st)) \<and>
    st_ActiveSessions s + st_InactiveSessions s = st_TotalSessions s"
proof -
  have act: "length (filter (\<lambda>p. p \<in> connected_peers st) order) = card (connected_peers st)"
    unfolding length_filter_range [OF assms(2)]
    by (rule arg_cong [of _ _ card]) (auto simp: connected_peers_def)
  have "length order = Size st" using go_range_length [OF assms(2)] by (simp add: Size_def)
  moreover have "length (filter (\<lambda>p. p \<in> connected_peers st) order) +
      length (filter (\<lambda>p. p \<notin> connected_peers st) order) = length order"
    by (rule sum_length_filter_compl)
  moreover have "set order \<subseteq> dom (reg_sessions st)" using go_rangeD(2) [OF assms(2)] by simp
  ultimately show ?thesis
    using act Stats_loop_spec [OF assms(1)] by (simp add: Stats_def Size_def flip: of_nat_add)
qed

lemma Stats_add_up_witness:
  "\<exists>s. Stats [''node-a'', ''node-b''] demo_two = Return s \<and> st_TotalSessions s = 2"
proof -
  have r: "go_range [''node-a'', ''node-b''] (reg_sessions demo_two)"
    unfolding demo_two_unfold by (auto simp: go_range_def)
  have "Size demo_two = 2"
    using go_range_length [OF r] by (simp add: Size_def)
  then show ?thesis using Stats_add_up [OF demo_two_wf r] by auto
qed

subsection \<open>Closing twice\<close>

text \<open>
  \<^verbatim>\<open>SessionState.Close\<close> is not idempotent: after any call that returned, a second call on the
  same session panics, because it closes the control channel again.
\<close>

lemma Close_twice_panics:
  assumes "ss_Close a st = Return (e, st')"
  shows "\<exists>m. ss_Close a st' = Panic m"
proof -
  obtain s c where s: "reg_heap st a = Some s" "ss_ControlChan s = Some c"
    using assms by (auto simp: ss_Close_def deref_def close_chan_def outcome_simps split: option.splits if_splits)
  then have "reg_heap st' a = Some (s\<lparr>ss_Connected := False\<rparr>)" and "c \<in> reg_closed_chans st'"
    using assms by (auto simp: ss_Close_def close_chan_def store_def yamux_Close_def split: option.splits if_splits)
  with s(2) show ?thesis by (simp add: ss_Close_def close_chan_def store_def)
qed

lemma Close_twice_panics_witness:
  "\<exists>st' m. ss_Close 0 demo_two = Return (None, st') \<and> ss_Close 0 st' = Panic m"
proof -
  obtain st' where "ss_Close 0 demo_two = Return (None, st')"
    unfolding demo_two_unfold
    by (simp add: ss_Close_def deref_def new_session_def close_chan_def store_def yamux_Close_def)
  with Close_twice_panics [OF this] show ?thesis by auto
qed

subsection \<open>The methods a node reports\<close>

definition keep_method :: "string \<Rightarrow> string list \<Rightarrow> string list" where
  "keep_method part methods = (let t = TrimSpace part in if t \<noteq> '''' then methods @ [t] else methods)"

lemma fold_keep_method:
  "fold keep_method parts acc = acc @ filter (\<lambda>t. t \<noteq> '''') (map TrimSpace parts)"
  by (induction parts arbitrary: acc) (simp_all add: keep_method_def Let_def)

lemma parseMeshMethods_eq:
  "parseMeshMethods (Some h) =
     (let raw = (case hs_Metadata h of None \<Rightarrow> '''' | Some m \<Rightarrow> map_get '''' m meshMethodsKey) in
      if raw = '''' then None else Some (filter (\<lambda>t. t \<noteq> '''') (map TrimSpace (Split raw CHR '',''))))"
  using fold_keep_method by (simp add: parseMeshMethods_def keep_method_def [abs_def] Let_def)

lemma Join_empty_iff: "Join ws c = [] \<longleftrightarrow> ws = [] \<or> ws = [[]]"
  by (induction ws c rule: Join.induct) auto

text \<open>What a node reports as a method name: not blank, without commas and outer white space.\<close>

definition method_name :: "string \<Rightarrow> bool" where
  "method_name m \<longleftrightarrow> m \<noteq> '''' \<and> CHR '','' \<notin> set m \<and> trimmed m"

text \<open>
  The method list survives its encoding: a node that reports its methods joined by commas
  in the metadata of its handshake is known by exactly these methods, in their order; and
  whatever a node reports, each method the server takes from it is non-blank, without commas and
  trimmed.
\<close>

lemma parseMeshMethods_round_trip:
  "\<forall>m\<in>set ms. method_name m \<Longrightarrow> ms \<noteq> [] \<Longrightarrow>
     hs_Metadata h = Some md \<Longrightarrow> md meshMethodsKey = Some (Join ms CHR '','') \<Longrightarrow>
     parseMeshMethods (Some h) = Some ms \<and>
     (\<forall>h' ms'. parseMeshMethods h' = Some ms' \<longrightarrow> (\<forall>m\<in>set ms'. method_name m))"
proof -
  assume ms: "\<forall>m\<in>set ms. method_name m" "ms \<noteq> []"
    and h: "hs_Metadata h = Some md" "md meshMethodsKey = Some (Join ms CHR '','')"
  have "Join ms CHR '','' \<noteq> []"
    using ms by (auto simp: Join_empty_iff method_name_def)
  moreover have "Split (Join ms CHR '','') CHR '','' = ms"
    using ms by (intro Split_Join) (auto simp: method_name_def)
  moreover have "map TrimSpace ms = ms"
    using ms(1) by (intro map_idI) (auto simp: method_name_def TrimSpace_id)
  moreover have "filter (\<lambda>t. t \<noteq> '''') ms = ms"
    using ms(1) by (simp add: method_name_def)
  ultimately have "parseMeshMethods (Some h) = Some ms"
    unfolding parseMeshMethods_eq by (simp add: h map_get_def Let_def)
  moreover have "method_name m" if p: "parseMeshMethods h' = Some ms'" and m: "m \<in> set ms'" for h' ms' m
  proof -
    obtain hs where hs: "h' = Some hs"
      using p by (cases h') (auto simp: parseMeshMethods_def)
    with p obtain raw where "ms' = filter (\<lambda>t. t \<noteq> '''') (map TrimSpace (Split raw CHR '',''))"
      by (auto simp: parseMeshMethods_eq Let_def split: if_splits)
    with m obtain w where w: "w \<in> set (Split raw CHR '','')" "m = TrimSpace w" "m \<noteq> ''''" by auto
    then show ?thesis
      using Split_no_sep [OF w(1)] set_TrimSpace [of w] trimmed_TrimSpace [of w]
      by (auto simp: method_name_def)
  qed
  ultimately show ?thesis by blast
qed

lemma parseMeshMethods_round_trip_witness:
  "parseMeshMethods (Some (demo_handshake\<lparr>hs_Metadata := Some [meshMethodsKey \<mapsto> ''a,b'']\<rparr>)) = Some [''a'', ''b'']"
proof -
  have m: "method_name ''a''" "method_name ''b''"
    by (simp_all add: method_name_def trimmed_def space_runes_def HasPrefix_def HasSuffix_def)
  show ?thesis
    using parseMeshMethods_round_trip [of "[''a'', ''b'']"
        "demo_handshake\<lparr>hs_Metadata := Some [meshMethodsKey \<mapsto> ''a,b'']\<rparr>" "[meshMethodsKey \<mapsto> ''a,b'']"] m
    by simp
qed

subsection \<open>Listings are copies\<close>

lemma snapshot_copies:
  assumes "\<And>h md. ss_Handshake s = Some h \<Longrightarrow> hs_Metadata h = Some md \<Longrightarrow> go_range ks md"
  shows "snapshot ks s = s\<lparr>ss_Session := None, ss_ControlChan := None\<rparr>"
proof -
  have "cloneHandshake ks (ss_Handshake s) = ss_Handshake s"
  proof (cases "ss_Handshake s")
    case (Some h)
    have "cloneMap ks (hs_Metadata h) = hs_Metadata h"
    proof (cases "hs_Metadata h")
      case md: (Some md)
      have "fold (\<lambda>k acc. acc(k := md k)) ks Map.empty = md"
        by (rule fold_copy_map) (rule assms [OF Some md])
      with md show ?thesis by (simp add: cloneMap_def)
    qed (simp add: cloneMap_def)
    moreover have "cloneSlice (hs_Features h) = hs_Features h"
      by (simp add: cloneSlice_def split: option.splits)
    ultimately show ?thesis using Some by (simp add: cloneHandshake_def)
  qed (simp add: cloneHandshake_def)
  then show ?thesis by (simp add: snapshot_def)
qed

text \<open>The orders in which the runtime may copy the metadata of the registered sessions.\<close>

definition metadata_orders :: "(sref \<Rightarrow> string list) \<Rightarrow> registry \<Rightarrow> bool" where
  "metadata_orders mds st \<longleftrightarrow>
     (\<forall>p a s h md. reg_sessions st p = Some a \<and> reg_heap st a = Some s \<and>
        ss_Handshake s = Some h \<and> hs_Metadata h = Some md \<longrightarrow> go_range (mds a) md)"

text \<open>
  \<^verbatim>\<open>List\<close> returns one entry for every registered session, in the order visited: a copy with
  the same peer id, handshake, times and connection flag, without the session's yamux session and
  channel, through which a caller could not act on the live connection.
\<close>

lemma ListSessions_copies_every_session:
  assumes "reg_wf st" and "go_range order (reg_sessions st)"
    and "metadata_orders mds st"
  shows "\<exists>l. ListSessions mds order st = Return l \<and> map ss_PeerID l = order \<and> length l = Size st \<and>
    list_all2 (\<lambda>p c. \<exists>a s. reg_sessions st p = Some a \<and> reg_heap st a = Some s \<and>
       c = s\<lparr>ss_Session := None, ss_ControlChan := None\<rparr>) order l"
proof -
  let ?f = "\<lambda>p. let a = the (reg_sessions st p) in snapshot (mds a) (the (reg_heap st a))"
  have f: "\<exists>a s. reg_sessions st p = Some a \<and> reg_heap st a = Some s \<and> ss_PeerID s = p \<and>
      ?f p = s\<lparr>ss_Session := None, ss_ControlChan := None\<rparr>" if "p \<in> set order" for p
  proof -
    from that go_rangeD(2) [OF assms(2)] obtain a where a: "reg_sessions st p = Some a" by auto
    obtain s where s: "reg_heap st a = Some s" "ss_PeerID s = p" using reg_wf_entry [OF assms(1) a] by metis
    have "snapshot (mds a) s = s\<lparr>ss_Session := None, ss_ControlChan := None\<rparr>"
      by (rule snapshot_copies) (use assms(3) a s(1) in \<open>auto simp: metadata_orders_def\<close>)
    with a s show ?thesis by (simp add: Let_def)
  qed
  have "ListSessions mds order st = Return (map ?f order)"
    unfolding ListSessions_def
    by (rule List_loop_spec [OF assms(1)]) (simp add: go_rangeD(2) [OF assms(2)])
  moreover have "map ss_PeerID (map ?f order) = order"
  proof -
    have "ss_PeerID (?f p) = p" if "p \<in> set order" for p
      using f [OF that] by auto
    then show ?thesis by (simp add: map_idI)
  qed
  moreover have "length (map ?f order) = Size st"
    using go_range_length [OF assms(2)] by (simp add: Size_def)
  moreover have "list_all2 (\<lambda>p c. \<exists>a s. reg_sessions st p = Some a \<and> reg_heap st a = Some s \<and>
       c = s\<lparr>ss_Session := None, ss_ControlChan := None\<rparr>) order (map ?f order)"
    unfolding list.rel_map(2) using f by (intro list.rel_refl_strong) blast
  ultimately show ?thesis by blast
qed

lemma ListSessions_copies_every_session_witness:
  "\<exists>l. ListSessions (\<lambda>_. []) [''node-b'', ''node-a''] demo_two = Return l \<and>
     map ss_PeerID l = [''node-b'', ''node-a'']"
proof -
  have r: "go_range [''node-b'', ''node-a''] (reg_sessions demo_two)"
    unfolding demo_two_unfold by (auto simp: go_range_def)
  have "metadata_orders (\<lambda>_. []) demo_two"
    unfolding metadata_orders_def
  proof (intro allI impI, elim conjE)
    fix p a s h md
    assume "reg_heap demo_two a = Some s" "ss_Handshake s = Some h" "hs_Metadata h = Some md"
    moreover from this(1) have "ss_Handshake s = Some demo_handshake"
      unfolding demo_two_unfold by (simp add: new_session_def split: if_splits) (metis session_state.select_convs(2))+
    ultimately have "hs_Metadata demo_handshake = Some md" by simp
    then show "go_range [] md" by (simp add: demo_handshake_def)
  qed
  from ListSessions_copies_every_session [OF demo_two_wf r this] show ?thesis
    by (elim exE conjE) (intro exI conjI)
qed

subsection \<open>Every session that leaves the registry is told\<close>

text \<open>
  Whoever was registered and is not any more (removed, swept or replaced) has had its yamux
  session closed: that is how the goroutine that serves it learns about it.
\<close>

definition departed_closed :: "registry \<Rightarrow> bool" where
  "departed_closed st \<longleftrightarrow>
     (\<forall>a p h y. identity st a = Some (p, h, Some y) \<longrightarrow> reg_sessions st p \<noteq> Some a \<longrightarrow>
        y \<in> reg_closed_yamux st)"

lemma departed_closedD:
  "departed_closed st \<Longrightarrow> identity st a = Some (p, h, Some y) \<Longrightarrow> reg_sessions st p \<noteq> Some a \<Longrightarrow>
   y \<in> reg_closed_yamux st"
  unfolding departed_closed_def by blast

lemma departed_closed_New [keeps]: "departed_closed (NewRegistry yerr)"
  by (simp add: departed_closed_def identity_def NewRegistry_def)

lemma departed_closed_mono:
  assumes "departed_closed st" and "identity st' = identity st" and "reg_sessions st' = reg_sessions st"
    and "reg_closed_yamux st \<subseteq> reg_closed_yamux st'"
  shows "departed_closed st'"
  using assms unfolding departed_closed_def by auto

lemma close_effect_yamux:
  "reg_closed_yamux (close_effect a s st) = reg_closed_yamux st \<union> set_option (ss_Session s)"
  by (auto simp: close_effect_def split: option.splits)

lemma drop_closed_yamux [simp]:
  "reg_closed_yamux (drop_closed p a s st) = reg_closed_yamux st \<union> set_option (ss_Session s)"
  by (simp add: drop_closed_def close_effect_yamux)

lemma departed_closed_drop [keeps]:
  assumes "departed_closed st" and "reg_sessions st p = Some a" and "reg_heap st a = Some s"
  shows "departed_closed (drop_closed p a s st)"
  unfolding departed_closed_def identity_drop_closed [OF assms(3)]
proof (intro allI impI)
  fix b q h y
  assume b: "identity st b = Some (q, h, Some y)" "reg_sessions (drop_closed p a s st) q \<noteq> Some b"
  show "y \<in> reg_closed_yamux (drop_closed p a s st)"
  proof (cases "b = a")
    case True
    with b(1) assms(3) show ?thesis by (simp add: identity_def)
  next
    case False
    with b(2) assms(2) have "reg_sessions st q \<noteq> Some b" by (auto split: if_splits)
    with departed_closedD [OF assms(1) b(1)] show ?thesis by simp
  qed
qed

lemma reg_closed_yamux_registered:
  assumes "reg_wf st"
  shows "reg_closed_yamux (registered now p h y st) =
    reg_closed_yamux st \<union> {z. \<exists>a q k. reg_sessions st p = Some a \<and> identity st a = Some (q, k, Some z)}"
proof (cases "reg_sessions st p")
  case None
  then show ?thesis by (simp add: registered_def Let_def)
next
  case (Some e)
  obtain s where "reg_heap st e = Some s" using reg_wf_entry [OF assms Some] by metis
  with Some show ?thesis by (auto simp: registered_def Let_def identity_def)
qed

lemma departed_closed_registered [keeps]:
  assumes "reg_wf st" and "departed_closed st"
  shows "departed_closed (registered now p h y st)"
  unfolding departed_closed_def identity_registered [OF assms(1)] reg_closed_yamux_registered [OF assms(1)]
proof (intro allI impI)
  fix b q k z
  assume b: "((identity st)(reg_next st \<mapsto> (p, Some h, y))) b = Some (q, k, Some z)"
    "reg_sessions (registered now p h y st) q \<noteq> Some b"
  then have new: "b \<noteq> reg_next st" by auto
  with b(1) have id: "identity st b = Some (q, k, Some z)" by simp
  show "z \<in> reg_closed_yamux st \<union> {z. \<exists>a q k. reg_sessions st p = Some a \<and> identity st a = Some (q, k, Some z)}"
  proof (cases "reg_sessions st q = Some b")
    case True
    with b(2) have "q = p" by (auto split: if_splits)
    with True id show ?thesis by blast
  next
    case False
    with departed_closedD [OF assms(2) id] show ?thesis by blast
  qed
qed

lemma departed_closed_store [keeps]:
  assumes "departed_closed st" and "reg_heap st a = Some s"
    and "ss_PeerID s' = ss_PeerID s" "ss_Handshake s' = ss_Handshake s" "ss_Session s' = ss_Session s"
  shows "departed_closed (store a s' st)"
  by (rule departed_closed_mono [OF assms(1) identity_store [OF assms(2-5)]]) simp_all

lemma reg_step_departed:
  assumes "reg_wf st" and "departed_closed st" and "reg_step now c st = Return st'"
  shows "departed_closed st' \<and> reg_closed_yamux st \<subseteq> reg_closed_yamux st'"
proof (rule reg_step_keeps [where P = "\<lambda>s. departed_closed s \<and> reg_closed_yamux st \<subseteq> reg_closed_yamux s", OF assms(1,3)])
  fix p a s st1
  assume "reg_sessions st1 p = Some a" "reg_heap st1 a = Some s"
    "departed_closed st1 \<and> reg_closed_yamux st \<subseteq> reg_closed_yamux st1"
  then show "departed_closed (drop_closed p a s st1) \<and> reg_closed_yamux st \<subseteq> reg_closed_yamux (drop_closed p a s st1)"
    using departed_closed_drop [of st1 p a s] by auto
next
  fix p h y
  show "departed_closed (registered now p h y st) \<and> reg_closed_yamux st \<subseteq> reg_closed_yamux (registered now p h y st)"
    using departed_closed_registered [OF assms(1,2)] reg_closed_yamux_registered [OF assms(1)] by simp
next
  fix p a s s'
  assume "reg_heap st a = Some s" "same_session s s'"
  then show "departed_closed (store a s' st) \<and> reg_closed_yamux st \<subseteq> reg_closed_yamux (store a s' st)"
    using departed_closed_store [OF assms(2)] by (simp add: same_session_def)
qed (use assms(2) in simp)

end
