(* ===== verification/Tunnel_Server.thy ===== *)
theory Tunnel_Server
  imports Auth_Policy Control_Stream Registry_Properties
begin

section \<open>The tunnel server (pkg/tunnel/tunnel.go)\<close>

text \<open>
  The server accepts connections and runs \<^verbatim>\<open>handleConn\<close> for each in a goroutine, which spawns
  \<^verbatim>\<open>readControlLoop\<close> in another. The handlers share the session registry. What one goroutine
  does between two accesses to shared state or two blocking calls is one function below, and the
  relation \<open>tunnel_step\<close> interleaves them with each other, with the rest of the program
  (cleanup, heartbeats by peer id, removals) and with the network. A yamux session bears the
  number of its connection, since \<^verbatim>\<open>handleConn\<close> creates one session for its connection.
\<close>

type_synonym conn = nat

subsection \<open>The read loop\<close>

definition controlReadIdleTimeout :: duration where
  "controlReadIdleTimeout = 2 * minute"

text \<open>
  One turn of \<^verbatim>\<open>readControlLoop\<close>: the error is what it sends to \<open>done\<close> before it returns,
  \<open>None\<close> means that it goes round. \<open>hb.Validate()\<close> only decides about a log entry.
\<close>

definition control_turn ::
  "(byte list \<Rightarrow> 'v control_message result) \<Rightarrow> instant \<Rightarrow> peer_id \<Rightarrow> sref \<Rightarrow> control_stream \<Rightarrow> registry
     \<Rightarrow> (go_error option \<times> control_stream \<times> registry) outcome" where
  "control_turn unmarshal now peerID state cs st =
     (case ReceiveControlMessageRaw unmarshal now cs of
        (Inl e, cs1) \<Rightarrow> Return (Some e, cs1, st)
      | (Inr msg, cs1) \<Rightarrow>
          if cm_Type msg = ''heartbeat'' then
            (case cm_Heartbeat msg of
               None \<Rightarrow> Return (None, cs1, st)
             | Some hb \<Rightarrow>
                 if hb_NodeID hb \<noteq> peerID then Return (None, cs1, st)
                 else bind_outcome (TouchHeartbeat now state st) (\<lambda>st1. Return (None, cs1, st1)))
          else Return (None, cs1, st))"

text \<open>
  The whole loop, undisturbed by other goroutines. Its turn number \<open>k\<close> starts at the time
  \<open>clock k\<close>. It ends because every turn takes bytes off the stream.
\<close>

lemma io_ReadFull_consumes:
  "io_ReadFull n w = (Inr bs, w') \<Longrightarrow> length (concat (w_in w')) + n = length (concat (w_in w))"
  using io_ReadFull_spec [of n w] by (auto simp: read_result_def split: if_splits)

lemma applyDeadline_bytes [simp]:
  "applyDeadline now cs = (e, cs1) \<Longrightarrow> stream_bytes cs1 = stream_bytes cs"
  by (auto simp: applyDeadline_def stream_SetDeadline_def stream_bytes_def split: if_splits option.splits)

lemma ReceiveFrame_consumes:
  "ReceiveFrame now cs = (Inr bs, cs') \<Longrightarrow> length (stream_bytes cs') < length (stream_bytes cs)"
  by (auto simp: ReceiveFrame_def stream_bytes_def frameHeaderSize_def Let_def
      dest!: io_ReadFull_consumes applyDeadline_bytes split: prod.splits option.splits sum.splits if_splits)

lemma control_turn_consumes:
  "control_turn unmarshal now p a cs st = Return (None, cs', st') \<Longrightarrow>
   length (stream_bytes cs') < length (stream_bytes cs)"
  by (auto simp: control_turn_def ReceiveControlMessageRaw_def outcome_simps
      dest!: ReceiveFrame_consumes split: prod.splits sum.splits if_splits option.splits)

function control_turns ::
  "(byte list \<Rightarrow> 'v control_message result) \<Rightarrow> (nat \<Rightarrow> instant) \<Rightarrow> nat \<Rightarrow> peer_id \<Rightarrow> sref \<Rightarrow> control_stream
     \<Rightarrow> registry \<Rightarrow> (go_error \<times> control_stream \<times> registry) outcome" where
  "control_turns unmarshal clock k peerID state cs st =
     (case control_turn unmarshal (clock k) peerID state cs st of
        Panic m \<Rightarrow> Panic m
      | Return (Some e, cs1, st1) \<Rightarrow> Return (e, cs1, st1)
      | Return (None, cs1, st1) \<Rightarrow> control_turns unmarshal clock (Suc k) peerID state cs1 st1)"
  by pat_completeness auto
termination
  by (relation "measure (\<lambda>(_, _, _, _, _, cs, _). length (stream_bytes cs))")
     (auto dest: control_turn_consumes)

declare control_turns.simps [simp del]

definition readControlLoop ::
  "(byte list \<Rightarrow> 'v control_message result) \<Rightarrow> (nat \<Rightarrow> instant) \<Rightarrow> peer_id \<Rightarrow> sref \<Rightarrow> control_stream
     \<Rightarrow> registry \<Rightarrow> (go_error \<times> control_stream \<times> registry) outcome" where
  "readControlLoop unmarshal clock peerID state cs st =
     control_turns unmarshal clock 0 peerID state (cs_SetDeadline controlReadIdleTimeout cs) st"

subsection \<open>A connection handler\<close>

record serving =
  sv_yamux :: yamux
  sv_stream :: control_stream
  sv_peerID :: peer_id
  sv_state :: sref
  sv_reading :: bool                    \<comment> \<open>the goroutine of the read loop still runs\<close>
  sv_readDone :: "go_error list"        \<comment> \<open>what the channel \<open>readDone\<close> holds\<close>

text \<open>
  Where a handler is: the phases follow \<^verbatim>\<open>handleConn\<close> from its start to its return. \<open>Serving\<close>
  waits in the \<^verbatim>\<open>select\<close>, \<open>Draining\<close> has closed the stream and the session and waits for
  the read loop.
\<close>

datatype phase =
    Accepted
  | TLSDone
  | Multiplexed yamux
  | Streaming yamux control_stream
  | Authorized yamux control_stream handshake
  | Serving serving
  | Draining serving
  | Exited "control_stream option"

record tunnel =
  tn_registry :: registry
  tn_conns :: "conn \<rightharpoonup> phase"
  tn_next :: conn
  tn_closed_conns :: "conn set"
  tn_wg :: int                          \<comment> \<open>the counter of the \<^verbatim>\<open>WaitGroup\<close>\<close>
  tn_cancelled :: bool                  \<comment> \<open>\<open>s.ctx\<close> is done\<close>
  tn_listening :: bool
  tn_accepting :: bool                  \<comment> \<open>the goroutine of the accept loop still runs\<close>
  tn_crashed :: bool                    \<comment> \<open>some goroutine panicked\<close>

record 'v tunnel_env =
  te_policy :: auth_policy
  te_handshake_json :: "byte list \<Rightarrow> handshake result"
  te_message_json :: "byte list \<Rightarrow> 'v control_message result"

fun phase_yamux :: "phase \<Rightarrow> yamux option" where
  "phase_yamux (Multiplexed y) = Some y"
| "phase_yamux (Streaming y cs) = Some y"
| "phase_yamux (Authorized y cs h) = Some y"
| "phase_yamux (Serving sv) = Some (sv_yamux sv)"
| "phase_yamux (Draining sv) = Some (sv_yamux sv)"
| "phase_yamux _ = None"

fun phase_stream :: "phase \<Rightarrow> control_stream option" where
  "phase_stream (Streaming y cs) = Some cs"
| "phase_stream (Authorized y cs h) = Some cs"
| "phase_stream (Serving sv) = Some (sv_stream sv)"
| "phase_stream (Draining sv) = Some (sv_stream sv)"
| "phase_stream _ = None"

definition goto :: "conn \<Rightarrow> phase \<Rightarrow> tunnel \<Rightarrow> tunnel" where
  "goto c ph s = s\<lparr>tn_conns := (tn_conns s)(c \<mapsto> ph)\<rparr>"

definition session_Close :: "yamux \<Rightarrow> tunnel \<Rightarrow> tunnel" where
  "session_Close y s = s\<lparr>tn_registry := snd (yamux_Close y (tn_registry s))\<rparr>"

text \<open>
  A return from \<^verbatim>\<open>handleConn\<close> runs the calls deferred so far, the last one first: the control
  stream, the yamux session and the connection are closed and the wait group is told.
\<close>

definition leave :: "conn \<Rightarrow> phase \<Rightarrow> tunnel \<Rightarrow> tunnel" where
  "leave c ph s =
     (let s1 = (case phase_yamux ph of None \<Rightarrow> s | Some y \<Rightarrow> session_Close y s)
      in (goto c (Exited (map_option cs_Close (phase_stream ph))) s1)
           \<lparr>tn_closed_conns := insert c (tn_closed_conns s), tn_wg := tn_wg s - 1\<rparr>)"

text \<open>The blocking calls before the registration; \<open>r\<close> is what the library call returned.\<close>

definition tls_handshake :: "go_error option \<Rightarrow> conn \<Rightarrow> tunnel \<Rightarrow> tunnel" where
  "tls_handshake r c s = (case r of Some e \<Rightarrow> leave c Accepted s | None \<Rightarrow> goto c TLSDone s)"

definition yamux_Server :: "go_error option \<Rightarrow> conn \<Rightarrow> tunnel \<Rightarrow> tunnel" where
  "yamux_Server r c s = (case r of Some e \<Rightarrow> leave c TLSDone s | None \<Rightarrow> goto c (Multiplexed c) s)"

definition accept_control :: "wire result \<Rightarrow> conn \<Rightarrow> yamux \<Rightarrow> tunnel \<Rightarrow> tunnel" where
  "accept_control r c y s =
     (case r of
        Inl e \<Rightarrow> leave c (Multiplexed y) s
      | Inr w \<Rightarrow> goto c (Streaming y (NewControlStream w)) s)"

definition admit :: "'v tunnel_env \<Rightarrow> instant \<Rightarrow> int \<Rightarrow> conn \<Rightarrow> yamux \<Rightarrow> control_stream \<Rightarrow> tunnel \<Rightarrow> tunnel" where
  "admit env now unix c y cs s =
     (case ReceiveHandshake (te_handshake_json env) now unix cs of
        (Inl e, cs1) \<Rightarrow> leave c (Streaming y cs1) s
      | (Inr h, cs1) \<Rightarrow>
          (case AuthorizeNode (te_policy env) (hs_NodeID h) (hs_Token h) of
             Some e \<Rightarrow> leave c (Streaming y cs1) s
           | None \<Rightarrow> goto c (Authorized y cs1 h) s))"

definition enroll :: "instant \<Rightarrow> conn \<Rightarrow> yamux \<Rightarrow> control_stream \<Rightarrow> handshake \<Rightarrow> tunnel \<Rightarrow> tunnel outcome" where
  "enroll now c y cs h s =
     bind_outcome (RegisterSession now (hs_NodeID h) (Some h) (Some y) (tn_registry s)) (\<lambda>(r, st).
       Return
         (case r of
            Inl e \<Rightarrow> leave c (Authorized y cs h) (s\<lparr>tn_registry := st\<rparr>)
          | Inr a \<Rightarrow>
              goto c (Serving \<lparr>sv_yamux = y, sv_stream = cs_SetDeadline controlReadIdleTimeout cs,
                                sv_peerID = hs_NodeID h, sv_state = a, sv_reading = True,
                                sv_readDone = []\<rparr>) (s\<lparr>tn_registry := st\<rparr>)))"

text \<open>
  The read loop runs beside the handler, which may be serving or draining already (\<open>ph\<close>).
  A read on a stream that was closed meanwhile ends with an error of the library.
\<close>

definition reader_stops :: "go_error \<Rightarrow> control_stream \<Rightarrow> serving \<Rightarrow> serving" where
  "reader_stops e cs sv =
     sv\<lparr>sv_stream := cs, sv_reading := False, sv_readDone := sv_readDone sv @ [e]\<rparr>"

definition reader_turn ::
  "'v tunnel_env \<Rightarrow> instant \<Rightarrow> conn \<Rightarrow> (serving \<Rightarrow> phase) \<Rightarrow> serving \<Rightarrow> tunnel \<Rightarrow> tunnel outcome" where
  "reader_turn env now c ph sv s =
     bind_outcome
       (control_turn (te_message_json env) now (sv_peerID sv) (sv_state sv) (sv_stream sv) (tn_registry s))
       (\<lambda>(e, cs, st).
          Return (goto c (ph (case e of None \<Rightarrow> sv\<lparr>sv_stream := cs\<rparr> | Some err \<Rightarrow> reader_stops err cs sv))
                    (s\<lparr>tn_registry := st\<rparr>)))"

definition reader_abort :: "go_error \<Rightarrow> conn \<Rightarrow> (serving \<Rightarrow> phase) \<Rightarrow> serving \<Rightarrow> tunnel \<Rightarrow> tunnel" where
  "reader_abort e c ph sv s = goto c (ph (reader_stops e (sv_stream sv) sv)) s"

text \<open>
  The \<^verbatim>\<open>select\<close> of \<^verbatim>\<open>handleConn\<close>: a ready case is taken, and the case of \<open>readDone\<close> takes its
  element out of the channel. Behind it the handler closes the stream and the session.
\<close>

datatype wakeup = ContextDone | SessionClosed | ReadDone

fun ready :: "wakeup \<Rightarrow> serving \<Rightarrow> tunnel \<Rightarrow> bool" where
  "ready ContextDone sv s = tn_cancelled s"
| "ready SessionClosed sv s = (sv_yamux sv \<in> reg_closed_yamux (tn_registry s))"
| "ready ReadDone sv s = (sv_readDone sv \<noteq> [])"

fun taken :: "wakeup \<Rightarrow> serving \<Rightarrow> serving" where
  "taken ReadDone sv = sv\<lparr>sv_readDone := tl (sv_readDone sv)\<rparr>"
| "taken _ sv = sv"

definition wake :: "wakeup \<Rightarrow> conn \<Rightarrow> serving \<Rightarrow> tunnel \<Rightarrow> tunnel" where
  "wake w c sv s =
     session_Close (sv_yamux sv)
       (goto c (Draining ((taken w sv)\<lparr>sv_stream := cs_Close (sv_stream sv)\<rparr>)) s)"

text \<open>
  \<^verbatim>\<open><-readDone\<close> blocks until the channel holds an element (\<open>sv_readDone sv \<noteq> []\<close>); then the
  handler deregisters its session and returns.
\<close>

definition deregister :: "conn \<Rightarrow> serving \<Rightarrow> tunnel \<Rightarrow> tunnel outcome" where
  "deregister c sv s =
     bind_outcome (RemoveIfCurrent (sv_peerID sv) (sv_state sv) (tn_registry s)) (\<lambda>(_, st).
       Return (leave c (Draining (sv\<lparr>sv_readDone := tl (sv_readDone sv)\<rparr>)) (s\<lparr>tn_registry := st\<rparr>)))"

subsection \<open>The accept loop and the shutdown\<close>

definition tunnel_Start :: "registry \<Rightarrow> tunnel" where
  "tunnel_Start reg =
     \<lparr>tn_registry = reg, tn_conns = Map.empty, tn_next = 0, tn_closed_conns = {}, tn_wg = 1,
      tn_cancelled = False, tn_listening = True, tn_accepting = True, tn_crashed = False\<rparr>"

definition accept_conn :: "tunnel \<Rightarrow> tunnel" where
  "accept_conn s =
     (goto (tn_next s) Accepted s)\<lparr>tn_next := Suc (tn_next s), tn_wg := tn_wg s + 1\<rparr>"

definition accept_failed :: "tunnel \<Rightarrow> tunnel" where
  "accept_failed s =
     (if tn_cancelled s then s\<lparr>tn_accepting := False, tn_wg := tn_wg s - 1\<rparr> else s)"

text \<open>
  \<^verbatim>\<open>Stop\<close> cancels the context, closes the listener and then waits: it returns when the counter
  of the wait group is zero.
\<close>

definition stop_signal :: "tunnel \<Rightarrow> tunnel" where
  "stop_signal s = s\<lparr>tn_cancelled := True, tn_listening := False\<rparr>"

definition stop_returns :: "tunnel \<Rightarrow> bool" where
  "stop_returns s \<longleftrightarrow> tn_cancelled s \<and> tn_wg s = 0"

subsection \<open>Interleaving\<close>

fun absorb :: "tunnel \<Rightarrow> tunnel outcome \<Rightarrow> tunnel" where
  "absorb s (Return s') = s'"
| "absorb s (Panic m) = s\<lparr>tn_crashed := True\<rparr>"

inductive tunnel_step :: "'v tunnel_env \<Rightarrow> tunnel \<Rightarrow> tunnel \<Rightarrow> bool" for env where
  Accept: "tn_accepting s \<Longrightarrow> tn_listening s \<Longrightarrow> tunnel_step env s (accept_conn s)"
| AcceptFails: "tn_accepting s \<Longrightarrow> tunnel_step env s (accept_failed s)"
| TLS: "tn_conns s c = Some Accepted \<Longrightarrow> tunnel_step env s (tls_handshake r c s)"
| Mux: "tn_conns s c = Some TLSDone \<Longrightarrow> tunnel_step env s (yamux_Server r c s)"
| Control: "tn_conns s c = Some (Multiplexed y) \<Longrightarrow> tunnel_step env s (accept_control w c y s)"
| Admit: "tn_conns s c = Some (Streaming y cs) \<Longrightarrow> tunnel_step env s (admit env now unix c y cs s)"
| Enroll: "tn_conns s c = Some (Authorized y cs h) \<Longrightarrow>
    tunnel_step env s (absorb s (enroll now c y cs h s))"
| Turn: "ph \<in> {Serving, Draining} \<Longrightarrow> tn_conns s c = Some (ph sv) \<Longrightarrow> sv_reading sv \<Longrightarrow>
    tunnel_step env s (absorb s (reader_turn env now c ph sv s))"
| Abort: "ph \<in> {Serving, Draining} \<Longrightarrow> tn_conns s c = Some (ph sv) \<Longrightarrow> sv_reading sv \<Longrightarrow>
    w_closed (cs_stream (sv_stream sv)) \<or> sv_yamux sv \<in> reg_closed_yamux (tn_registry s) \<Longrightarrow>
    tunnel_step env s (reader_abort e c ph sv s)"
| Wake: "tn_conns s c = Some (Serving sv) \<Longrightarrow> ready w sv s \<Longrightarrow> tunnel_step env s (wake w c sv s)"
| Leave: "tn_conns s c = Some (Draining sv) \<Longrightarrow> sv_readDone sv \<noteq> [] \<Longrightarrow>
    tunnel_step env s (absorb s (deregister c sv s))"
| Elsewhere: "\<not> registers f \<Longrightarrow>
    tunnel_step env s (absorb s (bind_outcome (reg_step now f (tn_registry s))
                                  (\<lambda>st. Return (s\<lparr>tn_registry := st\<rparr>))))"
| ConnectionLost: "tunnel_step env s (session_Close y s)"
| Stop: "tunnel_step env s (stop_signal s)"

abbreviation tunnel_steps :: "'v tunnel_env \<Rightarrow> tunnel \<Rightarrow> tunnel \<Rightarrow> bool" where
  "tunnel_steps env \<equiv> (tunnel_step env)\<^sup>*\<^sup>*"

end
