(* ===== verification/Tunnel_Proofs.thy ===== *)
theory Tunnel_Proofs
  imports Tunnel_Server
begin

section \<open>What holds of the tunnel server at every moment\<close>

text \<open>
  The invariant of the interleaved handlers, proved for every step of \<open>tunnel_step\<close>, and the
  properties that follow: who can be registered, that an orphaned handler is told, that nothing
  panics, and when the shutdown can finish.
\<close>

subsection \<open>The invariant\<close>

fun live :: "phase \<Rightarrow> bool" where
  "live (Exited cs) = False"
| "live _ = True"

fun serves :: "phase \<Rightarrow> serving option" where
  "serves (Serving sv) = Some sv"
| "serves (Draining sv) = Some sv"
| "serves _ = None"

definition authorised :: "'v tunnel_env \<Rightarrow> handshake \<Rightarrow> bool" where
  "authorised env h \<longleftrightarrow> AuthorizeNode (te_policy env) (hs_NodeID h) (hs_Token h) = None"

definition live_conns :: "tunnel \<Rightarrow> conn set" where
  "live_conns s = {c. \<exists>ph. tn_conns s c = Some ph \<and> live ph}"

definition all_admitted :: "'v tunnel_env \<Rightarrow> registry \<Rightarrow> bool" where
  "all_admitted env st \<longleftrightarrow>
     (\<forall>a p k y. identity st a = Some (p, k, y) \<longrightarrow>
        y \<noteq> None \<and> (\<exists>h. k = Some h \<and> hs_NodeID h = p \<and> authorised env h))"

definition sound_phase :: "'v tunnel_env \<Rightarrow> registry \<Rightarrow> phase \<Rightarrow> bool" where
  "sound_phase env st ph \<longleftrightarrow>
     (\<forall>y cs h. ph = Authorized y cs h \<longrightarrow> authorised env h) \<and>
     (\<forall>sv. serves ph = Some sv \<longrightarrow>
        (\<exists>h. identity st (sv_state sv) = Some (sv_peerID sv, Some h, Some (sv_yamux sv))))"

definition attended :: "tunnel \<Rightarrow> bool" where
  "attended s \<longleftrightarrow>
     (\<forall>p a. reg_sessions (tn_registry s) p = Some a \<longrightarrow>
        (\<exists>c ph sv. tn_conns s c = Some ph \<and> serves ph = Some sv \<and> sv_state sv = a))"

definition counted :: "tunnel \<Rightarrow> bool" where
  "counted s \<longleftrightarrow> finite (dom (tn_conns s)) \<and> (\<forall>c \<in> dom (tn_conns s). c < tn_next s) \<and>
     tn_wg s = int (card (live_conns s)) + (if tn_accepting s then 1 else 0)"

definition tunnel_inv :: "'v tunnel_env \<Rightarrow> tunnel \<Rightarrow> bool" where
  "tunnel_inv env s \<longleftrightarrow>
     \<not> tn_crashed s \<and> reg_wf (tn_registry s) \<and> departed_closed (tn_registry s) \<and>
     all_admitted env (tn_registry s) \<and>
     (\<forall>c ph. tn_conns s c = Some ph \<longrightarrow> sound_phase env (tn_registry s) ph) \<and>
     attended s \<and> counted s"

lemma tunnel_invD:
  assumes "tunnel_inv env s"
  shows "\<not> tn_crashed s" "reg_wf (tn_registry s)" "departed_closed (tn_registry s)"
    "all_admitted env (tn_registry s)" "attended s" "counted s"
    and "tn_conns s c = Some ph \<Longrightarrow> sound_phase env (tn_registry s) ph"
  using assms by (simp_all add: tunnel_inv_def)

lemma attendedE:
  assumes "attended s" and "reg_sessions (tn_registry s) p = Some a"
  obtains c ph sv where "tn_conns s c = Some ph" "serves ph = Some sv" "sv_state sv = a"
  using assms unfolding attended_def by metis

lemma attendedI:
  assumes "\<And>p a. reg_sessions (tn_registry s) p = Some a \<Longrightarrow>
    \<exists>c ph sv. tn_conns s c = Some ph \<and> serves ph = Some sv \<and> sv_state sv = a"
  shows "attended s"
  unfolding attended_def using assms by metis

lemma serves_live: "serves ph = Some sv \<Longrightarrow> live ph"
  by (cases ph) auto

lemma finite_live_conns: "counted s \<Longrightarrow> finite (live_conns s)"
  by (rule finite_subset [of _ "dom (tn_conns s)"]) (auto simp: live_conns_def counted_def)

subsection \<open>Three kinds of changes\<close>

text \<open>The registry loses entries.\<close>

lemma sound_phase_identity: "identity st' = identity st \<Longrightarrow> sound_phase env st' ph = sound_phase env st ph"
  by (simp add: sound_phase_def)

lemma inv_shrinks:
  assumes inv: "tunnel_inv env s" and sh: "dir_shrinks (tn_registry s) st" and dep: "departed_closed st"
  shows "tunnel_inv env (s\<lparr>tn_registry := st\<rparr>)"
proof -
  have id: "identity st = identity (tn_registry s)" and wf: "reg_wf st"
    and sub: "reg_sessions st p = Some a \<Longrightarrow> reg_sessions (tn_registry s) p = Some a" for p a
    using sh by (auto simp: dir_shrinks_def) (metis option.distinct(1))
  have "attended (s\<lparr>tn_registry := st\<rparr>)"
  proof (rule attendedI)
    fix p a
    assume "reg_sessions (tn_registry (s\<lparr>tn_registry := st\<rparr>)) p = Some a"
    then have "reg_sessions (tn_registry s) p = Some a" using sub by simp
    from attendedE [OF tunnel_invD(5) [OF inv] this]
    show "\<exists>c ph sv. tn_conns (s\<lparr>tn_registry := st\<rparr>) c = Some ph \<and> serves ph = Some sv \<and> sv_state sv = a"
      by simp metis
  qed
  moreover have "counted (s\<lparr>tn_registry := st\<rparr>)"
    using tunnel_invD(6) [OF inv] by (simp add: counted_def live_conns_def)
  moreover have "all_admitted env st"
    using tunnel_invD(4) [OF inv] by (simp add: all_admitted_def id)
  ultimately show ?thesis
    using inv wf dep by (simp add: tunnel_inv_def sound_phase_identity [OF id])
qed

lemma inv_session_Close:
  assumes "tunnel_inv env s"
  shows "tunnel_inv env (session_Close y s)"
proof -
  let ?st = "snd (yamux_Close y (tn_registry s))"
  have id: "identity ?st = identity (tn_registry s)"
    by (simp add: yamux_Close_def identity_def fun_eq_iff)
  have "reg_wf ?st"
    using tunnel_invD(2) [OF assms] by (simp add: yamux_Close_def reg_wf_defs)
  then have "dir_shrinks (tn_registry s) ?st"
    using id by (simp add: dir_shrinks_def yamux_Close_def)
  moreover have "departed_closed ?st"
    by (rule departed_closed_mono [OF tunnel_invD(3) [OF assms] id]) (auto simp: yamux_Close_def)
  ultimately show ?thesis unfolding session_Close_def by (rule inv_shrinks [OF assms])
qed

text \<open>A live handler goes on, serving the same session as before if it served one.\<close>

fun same_session :: "serving option \<Rightarrow> serving option \<Rightarrow> bool" where
  "same_session None None = True"
| "same_session (Some sv) (Some sv') =
     (sv_peerID sv' = sv_peerID sv \<and> sv_state sv' = sv_state sv \<and> sv_yamux sv' = sv_yamux sv)"
| "same_session _ _ = False"

lemma live_conns_goto:
  "live_conns (goto c ph s) = (if live ph then insert c (live_conns s) else live_conns s - {c})"
  by (auto simp: live_conns_def goto_def)

lemma counted_goto:
  assumes "counted s" and "tn_conns s c = Some old" and "live old" and "live ph"
  shows "counted (goto c ph s)"
proof -
  have "c \<in> live_conns s" using assms(2,3) by (simp add: live_conns_def)
  then have "live_conns (goto c ph s) = live_conns s"
    using assms(4) by (simp add: live_conns_goto insert_absorb)
  with assms(1,2) show ?thesis by (auto simp: counted_def goto_def)
qed

lemma inv_goto:
  assumes inv: "tunnel_inv env s" and c: "tn_conns s c = Some old" and live: "live old" "live ph"
    and same: "same_session (serves old) (serves ph)"
    and auth: "\<And>y cs h. ph = Authorized y cs h \<Longrightarrow> authorised env h"
  shows "tunnel_inv env (goto c ph s)"
proof -
  have "sound_phase env (tn_registry s) ph"
    using tunnel_invD(7) [OF inv c] same auth
    by (cases "serves old"; cases "serves ph") (auto simp: sound_phase_def)
  moreover have "attended (goto c ph s)"
  proof (rule attendedI)
    fix p a
    assume "reg_sessions (tn_registry (goto c ph s)) p = Some a"
    then have "reg_sessions (tn_registry s) p = Some a" by (simp add: goto_def)
    then obtain d dph sv where d: "tn_conns s d = Some dph" "serves dph = Some sv" "sv_state sv = a"
      using attendedE [OF tunnel_invD(5) [OF inv]] by metis
    show "\<exists>d dph sv. tn_conns (goto c ph s) d = Some dph \<and> serves dph = Some sv \<and> sv_state sv = a"
    proof (cases "d = c")
      case True
      with c d same obtain sv' where "serves ph = Some sv'" "sv_state sv' = a"
        by (cases "serves ph") auto
      then show ?thesis by (intro exI [of _ c]) (simp add: goto_def)
    next
      case False
      with d show ?thesis by (intro exI [of _ d]) (simp add: goto_def)
    qed
  qed
  moreover have "counted (goto c ph s)"
    by (rule counted_goto [OF tunnel_invD(6) [OF inv] c live])
  moreover have "tn_crashed (goto c ph s) = tn_crashed s" "tn_registry (goto c ph s) = tn_registry s"
    by (simp_all add: goto_def)
  moreover have "tn_conns (goto c ph s) d = Some dph \<Longrightarrow> dph = ph \<or> tn_conns s d = Some dph" for d dph
    by (simp add: goto_def split: if_splits)
  ultimately show ?thesis
    using inv unfolding tunnel_inv_def by metis
qed

text \<open>A live handler leaves, its session no longer registered.\<close>

lemma leave_simps:
  "tn_conns (leave c ph s) = (tn_conns s)(c \<mapsto> Exited (map_option cs_Close (phase_stream ph)))"
  "tn_wg (leave c ph s) = tn_wg s - 1"
  "tn_registry (leave c ph s) =
     (case phase_yamux ph of None \<Rightarrow> tn_registry s | Some y \<Rightarrow> snd (yamux_Close y (tn_registry s)))"
  "tn_crashed (leave c ph s) = tn_crashed s" "tn_next (leave c ph s) = tn_next s"
  "tn_accepting (leave c ph s) = tn_accepting s" "tn_cancelled (leave c ph s) = tn_cancelled s"
  by (auto simp: leave_def goto_def session_Close_def Let_def split: option.splits)

lemma inv_leave:
  assumes inv: "tunnel_inv env s" and c: "tn_conns s c = Some old" and live: "live old"
    and gone: "\<And>sv. serves old = Some sv \<Longrightarrow> reg_sessions (tn_registry s) (sv_peerID sv) \<noteq> Some (sv_state sv)"
  shows "tunnel_inv env (leave c ph s)"
proof -
  let ?s1 = "case phase_yamux ph of None \<Rightarrow> s | Some y \<Rightarrow> session_Close y s"
  let ?s2 = "goto c (Exited (map_option cs_Close (phase_stream ph))) ?s1"
  have s2: "leave c ph s = ?s2\<lparr>tn_closed_conns := insert c (tn_closed_conns s), tn_wg := tn_wg s - 1\<rparr>"
    by (simp add: leave_def Let_def)
  have inv1: "tunnel_inv env ?s1" using inv inv_session_Close by (auto split: option.splits)
  have same: "tn_conns ?s1 = tn_conns s" "reg_sessions (tn_registry ?s1) = reg_sessions (tn_registry s)"
      "tn_wg ?s1 = tn_wg s" "tn_next ?s1 = tn_next s" "tn_accepting ?s1 = tn_accepting s"
    by (auto simp: session_Close_def yamux_Close_def split: option.splits)
  have "attended (leave c ph s)"
  proof (rule attendedI)
    fix p a
    assume "reg_sessions (tn_registry (leave c ph s)) p = Some a"
    then have p: "reg_sessions (tn_registry s) p = Some a"
      using same(2) by (simp add: s2 goto_def)
    then obtain d dph sv where d: "tn_conns s d = Some dph" "serves dph = Some sv" "sv_state sv = a"
      using attendedE [OF tunnel_invD(5) [OF inv]] by metis
    obtain h where "identity (tn_registry s) a = Some (sv_peerID sv, Some h, Some (sv_yamux sv))"
      using tunnel_invD(7) [OF inv d(1)] d(2,3) by (auto simp: sound_phase_def)
    then have "sv_peerID sv = p" using dir.entry_law [OF tunnel_invD(2) [OF inv] p] by auto
    with d c gone p have "d \<noteq> c" by auto
    with d show "\<exists>d dph sv. tn_conns (leave c ph s) d = Some dph \<and> serves dph = Some sv \<and> sv_state sv = a"
      by (auto simp: leave_simps)
  qed
  moreover have "counted (leave c ph s)"
  proof -
    have "c \<in> live_conns s" using c live by (simp add: live_conns_def)
    moreover have "live_conns (leave c ph s) = live_conns s - {c}"
      by (auto simp: live_conns_def leave_simps)
    ultimately have "int (card (live_conns (leave c ph s))) = int (card (live_conns s)) - 1"
      using finite_live_conns [OF tunnel_invD(6) [OF inv]]
      by (simp add: card_Diff_singleton of_nat_diff Suc_leI card_gt_0_iff) (metis Suc_leI card_gt_0_iff empty_iff of_nat_1 of_nat_diff One_nat_def)
    with tunnel_invD(6) [OF inv] c show ?thesis by (auto simp: counted_def leave_simps)
  qed
  moreover have "sound_phase env (tn_registry (leave c ph s)) dph" if "tn_conns (leave c ph s) d = Some dph" for d dph
    using that tunnel_invD(7) [OF inv1, of d dph] same(1)
    by (auto simp: s2 goto_def sound_phase_def split: if_splits)
  ultimately show ?thesis
    using inv1 by (simp add: tunnel_inv_def s2 goto_def)
qed

subsection \<open>Every step keeps the invariant\<close>

lemma inv_tunnel_Start: "tunnel_inv env (tunnel_Start (NewRegistry yerr))"
proof -
  have "all_admitted env (NewRegistry yerr)"
    by (simp add: all_admitted_def identity_def NewRegistry_def)
  moreover have "attended (tunnel_Start (NewRegistry yerr))"
    by (simp add: attended_def tunnel_Start_def NewRegistry_def)
  moreover have "counted (tunnel_Start (NewRegistry yerr))"
    by (simp add: counted_def tunnel_Start_def live_conns_def)
  ultimately show ?thesis
    using reg_wf_NewRegistry departed_closed_New by (simp add: tunnel_inv_def tunnel_Start_def)
qed

lemma inv_accept_conn:
  assumes inv: "tunnel_inv env s"
  shows "tunnel_inv env (accept_conn s)"
proof -
  let ?c = "tn_next s"
  have new: "tn_conns s ?c = None"
    using tunnel_invD(6) [OF inv] by (auto simp: counted_def)
  have conns: "tn_conns (accept_conn s) = (tn_conns s)(?c \<mapsto> Accepted)"
    and reg: "tn_registry (accept_conn s) = tn_registry s"
    by (simp_all add: accept_conn_def goto_def)
  have "attended (accept_conn s)"
  proof (rule attendedI)
    fix p a
    assume "reg_sessions (tn_registry (accept_conn s)) p = Some a"
    then have "reg_sessions (tn_registry s) p = Some a" by (simp add: reg)
    from attendedE [OF tunnel_invD(5) [OF inv] this] new
    show "\<exists>c ph sv. tn_conns (accept_conn s) c = Some ph \<and> serves ph = Some sv \<and> sv_state sv = a"
      unfolding conns by (metis fun_upd_other option.distinct(1))
  qed
  moreover have "counted (accept_conn s)"
  proof -
    have "?c \<notin> live_conns s" using new by (simp add: live_conns_def)
    moreover have "live_conns (accept_conn s) = insert ?c (live_conns s)"
      by (auto simp: live_conns_def conns)
    ultimately have "card (live_conns (accept_conn s)) = Suc (card (live_conns s))"
      using finite_live_conns [OF tunnel_invD(6) [OF inv]] by simp
    with tunnel_invD(6) [OF inv] show ?thesis
      by (auto simp: counted_def accept_conn_def goto_def less_Suc_eq)
  qed
  moreover have "sound_phase env (tn_registry s) ph" if "tn_conns (accept_conn s) d = Some ph" for d ph
    using that tunnel_invD(7) [OF inv, of d ph] by (auto simp: conns sound_phase_def split: if_splits)
  moreover have "tn_crashed (accept_conn s) = tn_crashed s" by (simp add: accept_conn_def goto_def)
  ultimately show ?thesis using inv by (simp add: tunnel_inv_def reg)
qed

lemma inv_accept_failed:
  assumes inv: "tunnel_inv env s" and "tn_accepting s"
  shows "tunnel_inv env (accept_failed s)"
proof (cases "tn_cancelled s")
  case True
  let ?s = "s\<lparr>tn_accepting := False, tn_wg := tn_wg s - 1\<rparr>"
  have "attended ?s" using tunnel_invD(5) [OF inv] by (simp add: attended_def)
  moreover have "counted ?s"
    using tunnel_invD(6) [OF inv] assms(2) by (simp add: counted_def live_conns_def)
  ultimately show ?thesis using inv True by (simp add: accept_failed_def tunnel_inv_def)
next
  case False
  with inv show ?thesis by (simp add: accept_failed_def)
qed

lemma inv_stop_signal:
  assumes inv: "tunnel_inv env s"
  shows "tunnel_inv env (stop_signal s)"
proof -
  have "attended (stop_signal s)"
    using tunnel_invD(5) [OF inv] by (simp add: attended_def stop_signal_def)
  moreover have "counted (stop_signal s)"
    using tunnel_invD(6) [OF inv] by (simp add: counted_def live_conns_def stop_signal_def)
  ultimately show ?thesis using inv by (simp add: tunnel_inv_def stop_signal_def)
qed

text \<open>Entering the new session leaves every other session's handler where it is.\<close>

lemma attended_enroll:
  assumes "attended s" and "tn_conns s c = Some ph" and "serves ph = None"
    and "reg_sessions st = (reg_sessions (tn_registry s))(p \<mapsto> sv_state sv)"
  shows "attended (goto c (Serving sv) (s\<lparr>tn_registry := st\<rparr>))"
proof (rule attendedI)
  let ?s' = "goto c (Serving sv) (s\<lparr>tn_registry := st\<rparr>)"
  have conns: "tn_conns ?s' = (tn_conns s)(c \<mapsto> Serving sv)" by (simp add: goto_def)
  fix q b
  assume "reg_sessions (tn_registry ?s') q = Some b"
  then have q: "((reg_sessions (tn_registry s))(p \<mapsto> sv_state sv)) q = Some b"
    by (simp add: goto_def assms(4))
  show "\<exists>d ph sv. tn_conns ?s' d = Some ph \<and> serves ph = Some sv \<and> sv_state sv = b"
  proof (cases "b = sv_state sv")
    case True
    then show ?thesis unfolding conns
      by (intro exI [of _ c] exI [of _ "Serving sv"] exI [of _ sv]) simp
  next
    case False
    with q have "reg_sessions (tn_registry s) q = Some b" by (auto split: if_splits)
    then obtain d ph' sv' where d: "tn_conns s d = Some ph'" "serves ph' = Some sv'" "sv_state sv' = b"
      using attendedE [OF assms(1)] by metis
    with assms(2,3) have "d \<noteq> c" by auto
    with d show ?thesis unfolding conns by (intro exI [of _ d] exI [of _ ph'] exI [of _ sv']) simp
  qed
qed

lemma sound_phase_fresh:
  assumes "identity st' = (identity st)(a \<mapsto> x)" and "identity st a = None" and "sound_phase env st ph"
  shows "sound_phase env st' ph"
  using assms by (auto simp: sound_phase_def)

lemma inv_enroll:
  assumes inv: "tunnel_inv env s" and c: "tn_conns s c = Some (Authorized y cs h)"
  shows "tunnel_inv env (absorb s (enroll now c y cs h s))"
proof -
  let ?R = "tn_registry s" and ?p = "hs_NodeID h"
  let ?a = "reg_next ?R" and ?R' = "registered now ?p h (Some y) ?R"
  let ?sv = "\<lparr>sv_yamux = y, sv_stream = cs_SetDeadline controlReadIdleTimeout cs, sv_peerID = ?p,
      sv_state = ?a, sv_reading = True, sv_readDone = []\<rparr>"
  let ?s' = "goto c (Serving ?sv) (s\<lparr>tn_registry := ?R'\<rparr>)"
  note wf = tunnel_invD(2) [OF inv]
  have run: "absorb s (enroll now c y cs h s) = ?s'"
    by (simp add: enroll_def RegisterSession_ok [OF wf])
  have auth: "authorised env h"
    using tunnel_invD(7) [OF inv c] by (simp add: sound_phase_def)
  have id: "identity ?R' = (identity ?R)(?a \<mapsto> (?p, Some h, Some y))"
    by (rule identity_registered [OF wf])
  have unused: "identity ?R ?a = None"
    using reg_wf_next_unused(1) [OF wf] by (simp add: identity_def)
  have conns: "tn_conns ?s' = (tn_conns s)(c \<mapsto> Serving ?sv)" and reg: "tn_registry ?s' = ?R'"
    by (simp_all add: goto_def)
  have "all_admitted env ?R'"
    using tunnel_invD(4) [OF inv] auth by (auto simp: all_admitted_def id)
  moreover have "sound_phase env ?R' ph" if "tn_conns ?s' d = Some ph" for d ph
    using that tunnel_invD(7) [OF inv] sound_phase_fresh [OF id unused]
    by (cases "d = c") (auto simp: conns sound_phase_def [of _ _ "Serving _"] id)
  moreover have "attended ?s'"
    by (rule attended_enroll [OF tunnel_invD(5) [OF inv] c]) simp_all
  moreover have "counted ?s'"
    by (rule counted_goto [where old = "Authorized y cs h"]) (use tunnel_invD(6) [OF inv] c in \<open>simp_all add: counted_def live_conns_def\<close>)
  moreover have "tn_crashed ?s' = tn_crashed s" by (simp add: goto_def)
  ultimately show ?thesis
    unfolding run using inv wf_registered [OF wf] departed_closed_registered [OF wf tunnel_invD(3) [OF inv]]
    by (simp add: tunnel_inv_def reg)
qed

text \<open>A turn of the read loop never panics, and changes nothing but one session's clock.\<close>

lemma control_turn_cases:
  assumes "reg_wf st" and "identity st a \<noteq> None"
  obtains e cs' st' where "control_turn unmarshal now p a cs st = Return (e, cs', st')"
    and "st' = st \<or> (e = None \<and> TouchHeartbeat now a st = Return st')"
proof -
  obtain st1 where "TouchHeartbeat now a st = Return st1"
    using dir.touch_law [OF assms, of now] by blast
  then have "\<exists>e cs' st'. control_turn unmarshal now p a cs st = Return (e, cs', st') \<and>
      (st' = st \<or> (e = None \<and> TouchHeartbeat now a st = Return st'))"
    by (simp add: control_turn_def split: prod.split sum.split option.split)
  then show ?thesis using that by blast
qed

lemma touch_shrinks:
  assumes "reg_wf st" and "departed_closed st" and "TouchHeartbeat now a st = Return st'"
  shows "dir_shrinks st st' \<and> departed_closed st'"
proof -
  obtain t where t: "reg_heap st a = Some t"
    using assms(3) by (auto simp: TouchHeartbeat_def deref_def split: option.splits)
  with assms(3) TouchHeartbeat_live [OF t] have "st' = store a (t\<lparr>ss_LastHeartbeat := now\<rparr>) st" by simp
  then show ?thesis
    using dir_shrinks_store [OF assms(1) t] departed_closed_store [OF assms(2) t] by simp
qed

lemma inv_reader_turn:
  assumes inv: "tunnel_inv env s" and ph: "ph \<in> {Serving, Draining}" and c: "tn_conns s c = Some (ph sv)"
  shows "tunnel_inv env (absorb s (reader_turn env now c ph sv s))"
proof -
  note wf = tunnel_invD(2) [OF inv] and dep = tunnel_invD(3) [OF inv]
  have serves: "serves (ph v) = Some v" and live: "live (ph v)" for v using ph by auto
  have "identity (tn_registry s) (sv_state sv) \<noteq> None"
    using tunnel_invD(7) [OF inv c] serves by (auto simp: sound_phase_def)
  from control_turn_cases [OF wf this] obtain e cs st where
    turn: "control_turn (te_message_json env) now (sv_peerID sv) (sv_state sv) (sv_stream sv) (tn_registry s)
       = Return (e, cs, st)"
    and st: "st = tn_registry s \<or> (e = None \<and> TouchHeartbeat now (sv_state sv) (tn_registry s) = Return st)"
    by metis
  have "dir_shrinks (tn_registry s) st \<and> departed_closed st"
    using st touch_shrinks [OF wf dep] dir_shrinks_refl [OF wf] dep by auto
  then have inv1: "tunnel_inv env (s\<lparr>tn_registry := st\<rparr>)" using inv_shrinks [OF inv] by blast
  let ?v = "case e of None \<Rightarrow> sv\<lparr>sv_stream := cs\<rparr> | Some err \<Rightarrow> reader_stops err cs sv"
  have "tunnel_inv env (goto c (ph ?v) (s\<lparr>tn_registry := st\<rparr>))"
    using c live ph by (intro inv_goto [OF inv1]) (auto simp: serves reader_stops_def split: option.splits)
  then show ?thesis by (simp add: reader_turn_def turn)
qed

lemma remove_shrinks:
  assumes "reg_wf st" and "departed_closed st"
  obtains e st' where "RemoveIfCurrent p a st = Return (e, st')" "dir_shrinks st st'" "departed_closed st'"
    "reg_sessions st' p \<noteq> Some a"
proof -
  obtain e st' where r: "RemoveIfCurrent p a st = Return (e, st')"
      and gone: "reg_sessions st' p \<noteq> Some a"
    using dir.remove_law [OF assms(1), of p a] by fastforce
  then have step: "reg_step 0 (OpRemoveIfCurrent p a) st = Return st'" by simp
  show ?thesis
    using reg_step_shrinks [OF assms(1) _ step] reg_step_departed [OF assms step]
    by (intro that [OF r _ _ gone]) simp_all
qed

lemma inv_deregister:
  assumes inv: "tunnel_inv env s" and c: "tn_conns s c = Some (Draining sv)"
  shows "tunnel_inv env (absorb s (deregister c sv s))"
proof -
  obtain e st where r: "RemoveIfCurrent (sv_peerID sv) (sv_state sv) (tn_registry s) = Return (e, st)"
      and st: "dir_shrinks (tn_registry s) st" "departed_closed st"
        "reg_sessions st (sv_peerID sv) \<noteq> Some (sv_state sv)"
    using remove_shrinks [OF tunnel_invD(2,3) [OF inv]] .
  have inv1: "tunnel_inv env (s\<lparr>tn_registry := st\<rparr>)" by (rule inv_shrinks [OF inv st(1,2)])
  have "tunnel_inv env (leave c (Draining (sv\<lparr>sv_readDone := tl (sv_readDone sv)\<rparr>)) (s\<lparr>tn_registry := st\<rparr>))"
    by (rule inv_leave [OF inv1]) (use c st(3) in auto)
  then show ?thesis by (simp add: deregister_def r)
qed

lemma inv_rest:
  assumes inv: "tunnel_inv env s" and f: "\<not> registers f"
  shows "tunnel_inv env (absorb s (bind_outcome (reg_step now f (tn_registry s))
      (\<lambda>st. Return (s\<lparr>tn_registry := st\<rparr>))))"
proof -
  note wf = tunnel_invD(2) [OF inv] and dep = tunnel_invD(3) [OF inv]
  obtain st where st: "reg_step now f (tn_registry s) = Return st"
    using reg_step_wf [OF wf] by blast
  have "dir_shrinks (tn_registry s) st" by (rule reg_step_shrinks [OF wf f st])
  moreover have "departed_closed st" using reg_step_departed [OF wf dep st] by blast
  ultimately have "tunnel_inv env (s\<lparr>tn_registry := st\<rparr>)" by (rule inv_shrinks [OF inv])
  then show ?thesis by (simp add: st)
qed

lemma inv_wake:
  assumes inv: "tunnel_inv env s" and c: "tn_conns s c = Some (Serving sv)"
  shows "tunnel_inv env (wake w c sv s)"
  unfolding wake_def
  by (intro inv_session_Close inv_goto [OF inv c]) (cases w; simp)+

lemma inv_admit:
  assumes inv: "tunnel_inv env s" and c: "tn_conns s c = Some (Streaming y cs)"
  shows "tunnel_inv env (admit env now unix c y cs s)"
proof -
  have "tunnel_inv env (leave c ph s)" for ph by (rule inv_leave [OF inv c]) simp_all
  moreover have "tunnel_inv env (goto c (Authorized y cs1 h) s)"
    if "AuthorizeNode (te_policy env) (hs_NodeID h) (hs_Token h) = None" for cs1 h
    by (rule inv_goto [OF inv c]) (use that in \<open>simp_all add: authorised_def\<close>)
  ultimately show ?thesis
    by (simp add: admit_def split: prod.split sum.split option.split)
qed

lemma inv_setup_leave:
  assumes "tunnel_inv env s" and "tn_conns s c = Some old" and "live old" and "serves old = None"
  shows "tunnel_inv env (leave c ph s)"
  by (rule inv_leave [OF assms(1-3)]) (simp add: assms(4))

lemma inv_tls_handshake:
  assumes inv: "tunnel_inv env s" and c: "tn_conns s c = Some Accepted"
  shows "tunnel_inv env (tls_handshake r c s)"
  using inv_setup_leave [OF inv c] inv_goto [OF inv c, of TLSDone]
  by (simp add: tls_handshake_def split: option.split)

lemma inv_yamux_Server:
  assumes inv: "tunnel_inv env s" and c: "tn_conns s c = Some TLSDone"
  shows "tunnel_inv env (yamux_Server r c s)"
  using inv_setup_leave [OF inv c] inv_goto [OF inv c, of "Multiplexed c"]
  by (simp add: yamux_Server_def split: option.split)

lemma inv_accept_control:
  assumes inv: "tunnel_inv env s" and c: "tn_conns s c = Some (Multiplexed y)"
  shows "tunnel_inv env (accept_control w c y s)"
  using inv_setup_leave [OF inv c] inv_goto [OF inv c, of "Streaming y _"]
  by (simp add: accept_control_def split: sum.split)

lemma inv_reader_abort:
  assumes inv: "tunnel_inv env s" and ph: "ph \<in> {Serving, Draining}" and c: "tn_conns s c = Some (ph sv)"
  shows "tunnel_inv env (reader_abort e c ph sv s)"
  unfolding reader_abort_def
  by (rule inv_goto [OF inv c]) (use ph in \<open>auto simp: reader_stops_def\<close>)

lemma tunnel_step_inv: "tunnel_step env s s' \<Longrightarrow> tunnel_inv env s \<Longrightarrow> tunnel_inv env s'"
proof (induction rule: tunnel_step.induct)
  case (Elsewhere f s now)
  then show ?case by (simp only: inv_rest simp_thms)
qed (simp_all only: inv_tls_handshake inv_yamux_Server inv_accept_control inv_reader_abort inv_accept_conn inv_accept_failed inv_stop_signal inv_enroll
       inv_reader_turn inv_deregister inv_wake inv_admit inv_session_Close)

lemma tunnel_steps_inv: "tunnel_steps env s s' \<Longrightarrow> tunnel_inv env s \<Longrightarrow> tunnel_inv env s'"
  by (induction rule: rtranclp_induct) (blast intro: tunnel_step_inv)+

lemma reachable_inv: "tunnel_steps env (tunnel_Start (NewRegistry yerr)) s \<Longrightarrow> tunnel_inv env s"
  using tunnel_steps_inv inv_tunnel_Start by blast

subsection \<open>The life of one connection\<close>

text \<open>
  What the steps of the tunnel do to a single handler and its read loop, as an automaton on phases:
  every step of the tunnel leaves the phases alone, starts a handler, or moves one of them.
\<close>

fun unregistered :: "phase \<Rightarrow> bool" where
  "unregistered (Serving sv) = False"
| "unregistered (Draining sv) = False"
| "unregistered (Exited cs) = False"
| "unregistered _ = True"

abbreviation shut :: "control_stream \<Rightarrow> bool" where
  "shut cs \<equiv> w_closed (cs_stream cs)"

inductive phase_step :: "phase \<Rightarrow> phase \<Rightarrow> bool" where
  Secured: "phase_step Accepted TLSDone"
| Muxed: "phase_step TLSDone (Multiplexed y)"
| Streamed: "cs_deadline cs = 30 * second \<Longrightarrow> phase_step (Multiplexed y) (Streaming y cs)"
| Admitted: "phase_step (Streaming y cs) (Authorized y cs' h)"
| Enrolled: "sv_reading sv \<Longrightarrow> sv_readDone sv = [] \<Longrightarrow> phase_step (Authorized y cs h) (Serving sv)"
| Refused: "unregistered ph \<Longrightarrow> phase_step ph (Exited cs')"
| Reads: "ph \<in> {Serving, Draining} \<Longrightarrow> sv_reading sv \<Longrightarrow> shut cs = shut (sv_stream sv) \<Longrightarrow>
    phase_step (ph sv) (ph (sv\<lparr>sv_stream := cs\<rparr>))"
| ReadEnds: "ph \<in> {Serving, Draining} \<Longrightarrow> sv_reading sv \<Longrightarrow> shut cs = shut (sv_stream sv) \<Longrightarrow>
    phase_step (ph sv) (ph (reader_stops e cs sv))"
| Woken: "shut cs \<Longrightarrow> phase_step (Serving sv) (Draining ((taken w sv)\<lparr>sv_stream := cs\<rparr>))"
| Returned: "sv_readDone sv \<noteq> [] \<Longrightarrow> phase_step (Draining sv) (Exited cs')"

inductive_cases phase_stepE: "phase_step ph ph'"

text \<open>
  A move of one handler, with the registry and most of the state out of sight: who has exited has
  closed its connection.
\<close>

definition moves :: "tunnel \<Rightarrow> tunnel \<Rightarrow> bool" where
  "moves s s' \<longleftrightarrow>
     (tn_conns s' = tn_conns s \<or> tn_conns s' = (tn_conns s)(tn_next s \<mapsto> Accepted)) \<and>
       tn_closed_conns s' = tn_closed_conns s \<or>
     (\<exists>c ph ph'. tn_conns s c = Some ph \<and> phase_step ph ph' \<and> tn_conns s' = (tn_conns s)(c \<mapsto> ph') \<and>
       tn_closed_conns s' = (if live ph' then tn_closed_conns s else insert c (tn_closed_conns s)))"

lemma moves_same: "tn_conns s' = tn_conns s \<Longrightarrow> tn_closed_conns s' = tn_closed_conns s \<Longrightarrow> moves s s'"
  by (simp add: moves_def)

lemma moves_to:
  "tn_conns s c = Some ph \<Longrightarrow> phase_step ph ph' \<Longrightarrow> tn_conns s' = (tn_conns s)(c \<mapsto> ph') \<Longrightarrow>
   tn_closed_conns s' = (if live ph' then tn_closed_conns s else insert c (tn_closed_conns s)) \<Longrightarrow> moves s s'"
  unfolding moves_def by blast

lemma conns_goto [simp]:
  "tn_conns (goto c ph s) = (tn_conns s)(c \<mapsto> ph)" "tn_closed_conns (goto c ph s) = tn_closed_conns s"
  by (simp_all add: goto_def)

lemma conns_session_Close [simp]:
  "tn_conns (session_Close y s) = tn_conns s" "tn_closed_conns (session_Close y s) = tn_closed_conns s"
  by (simp_all add: session_Close_def)

lemma conns_leave [simp]:
  "tn_conns (leave c ph s) = (tn_conns s)(c \<mapsto> Exited (map_option cs_Close (phase_stream ph)))"
  "tn_closed_conns (leave c ph s) = insert c (tn_closed_conns s)"
  by (simp_all add: leave_def Let_def split: option.split)

lemma moves_goto:
  assumes "tn_conns s c = Some ph" and "phase_step ph ph'" and "live ph'"
  shows "moves s (goto c ph' s)" and "moves s (goto c ph' (s\<lparr>tn_registry := st\<rparr>))"
  using assms(3) by (auto intro!: moves_to [OF assms(1,2)])

lemma moves_leave:
  assumes "tn_conns s c = Some ph" and "phase_step ph (Exited (map_option cs_Close (phase_stream ph')))"
  shows "moves s (leave c ph' s)" and "moves s (leave c ph' (s\<lparr>tn_registry := st\<rparr>))"
  by (auto intro!: moves_to [OF assms])

lemmas moves_rules = moves_goto moves_leave

lemma moves_absorb: "(\<And>s'. r = Return s' \<Longrightarrow> moves s s') \<Longrightarrow> moves s (absorb s r)"
  by (cases r) (simp_all add: moves_same)

lemma moves_enroll:
  assumes "enroll now c y cs h s = Return s'" and "tn_conns s c = Some (Authorized y cs h)"
  shows "moves s s'"
proof -
  obtain r st where "RegisterSession now (hs_NodeID h) (Some h) (Some y) (tn_registry s) = Return (r, st)"
    using assms(1) by (auto simp: enroll_def outcome_simps)
  with assms show ?thesis
    by (cases r) (auto simp: enroll_def intro!: moves_rules [OF assms(2)] intro: phase_step.Enrolled phase_step.Refused)
qed

text \<open>Reading does not close the stream.\<close>

lemma ReceiveFrame_shut: "ReceiveFrame now cs = (r, cs') \<Longrightarrow> shut cs' = shut cs"
  by (auto simp: ReceiveFrame_def applyDeadline_def stream_SetDeadline_def io_ReadFull_def Let_def
      split: prod.splits option.splits sum.splits if_splits)

lemma control_turn_shut:
  assumes "control_turn unmarshal now p a cs st = Return (e, cs', st')"
  shows "shut cs' = shut cs"
  using assms
  by (auto simp: control_turn_def ReceiveControlMessageRaw_def outcome_simps dest!: ReceiveFrame_shut
      split: prod.splits sum.splits if_splits option.splits)

lemma moves_turn:
  assumes "ph \<in> {Serving, Draining}" and "tn_conns s c = Some (ph sv)" and "sv_reading sv"
  shows "moves s (absorb s (reader_turn env now c ph sv s))"
proof (rule moves_absorb)
  fix s'
  assume "reader_turn env now c ph sv s = Return s'"
  then obtain e cs st where turn: "control_turn (te_message_json env) now (sv_peerID sv) (sv_state sv) (sv_stream sv)
      (tn_registry s) = Return (e, cs, st)"
    and s': "s' = goto c (ph (case e of None \<Rightarrow> sv\<lparr>sv_stream := cs\<rparr> | Some err \<Rightarrow> reader_stops err cs sv))
      (s\<lparr>tn_registry := st\<rparr>)"
    by (auto simp: reader_turn_def outcome_simps)
  have "phase_step (ph sv) (ph (case e of None \<Rightarrow> sv\<lparr>sv_stream := cs\<rparr> | Some err \<Rightarrow> reader_stops err cs sv))"
    using phase_step.Reads [OF assms(1,3) control_turn_shut [OF turn]]
      phase_step.ReadEnds [OF assms(1,3) control_turn_shut [OF turn]] by (cases e) simp_all
  moreover have "live (ph sv')" for sv' using assms(1) by auto
  ultimately show "moves s s'" unfolding s' by (intro moves_rules [OF assms(2)])
qed

lemma tunnel_step_moves: "tunnel_step env s s' \<Longrightarrow> moves s s'"
proof (induction rule: tunnel_step.induct)
  case (TLS s c r)
  then show ?case
    by (cases r) (auto simp: tls_handshake_def intro!: moves_rules [OF TLS.hyps] intro: phase_step.intros)
next
  case (Mux s c r)
  then show ?case
    by (cases r) (auto simp: yamux_Server_def intro!: moves_rules [OF Mux.hyps] intro: phase_step.intros)
next
  case (Control s c y w)
  then show ?case
    by (cases w) (auto simp: accept_control_def NewControlStream_def intro!: moves_rules [OF Control.hyps] intro: phase_step.intros)
next
  case (Admit s c y cs now unix)
  then show ?case
    by (auto simp: admit_def intro!: moves_rules [OF Admit.hyps] intro: phase_step.intros
        split: prod.split sum.split option.split)
next
  case (Enroll s c y cs h now)
  then show ?case by (intro moves_absorb) (rule moves_enroll)
next
  case (Turn ph s c sv now)
  then show ?case by (rule moves_turn)
next
  case (Abort ph s c sv e)
  have "phase_step (ph sv) (ph (reader_stops e (sv_stream sv) sv))"
    using Abort.hyps(1,3) by (rule phase_step.ReadEnds) simp
  moreover have "live (ph (reader_stops e (sv_stream sv) sv))" using Abort.hyps(1) by auto
  ultimately show ?case unfolding reader_abort_def by (rule moves_rules(1) [OF Abort.hyps(2)])
next
  case (Wake s c sv w)
  show ?case
    by (rule moves_to [OF Wake.hyps(1) phase_step.Woken]) (simp_all add: wake_def cs_Close_def stream_Close_def)
next
  case (Leave s c sv)
  then show ?case
    by (intro moves_absorb)
      (auto simp: deregister_def outcome_simps intro!: moves_rules [OF Leave.hyps(1)]
        intro: phase_step.Returned Leave.hyps(2))
next
  case (Elsewhere f s now)
  then show ?case by (intro moves_absorb) (auto simp: outcome_simps moves_same)
qed (simp_all add: moves_def accept_conn_def accept_failed_def stop_signal_def)

text \<open>A handler that has returned has closed its connection.\<close>

definition released :: "tunnel \<Rightarrow> bool" where
  "released s \<longleftrightarrow> (\<forall>c ph. tn_conns s c = Some ph \<longrightarrow> \<not> live ph \<longrightarrow> c \<in> tn_closed_conns s)"

lemma released_step: "tunnel_step env s s' \<Longrightarrow> released s \<Longrightarrow> released s'"
  by (drule tunnel_step_moves) (auto simp: moves_def released_def split: if_splits)

subsection \<open>The channel between a handler and its read loop\<close>

text \<open>
  The read loop sends once, when it ends; in the \<^verbatim>\<open>select\<close> its element is still there. Behind it the
  stream is closed.
\<close>

fun reader_ok :: "phase \<Rightarrow> bool" where
  "reader_ok (Serving sv) =
     (if sv_reading sv then sv_readDone sv = [] else length (sv_readDone sv) = 1)"
| "reader_ok (Draining sv) =
     (shut (sv_stream sv) \<and> (if sv_reading sv then sv_readDone sv = [] else length (sv_readDone sv) \<le> 1))"
| "reader_ok _ = True"

definition readers_ok :: "tunnel \<Rightarrow> bool" where
  "readers_ok s \<longleftrightarrow> (\<forall>c ph. tn_conns s c = Some ph \<longrightarrow> reader_ok ph)"

lemma readers_okD: "readers_ok s \<Longrightarrow> tn_conns s c = Some ph \<Longrightarrow> reader_ok ph"
  by (simp add: readers_ok_def)

lemma reader_ok_taken: "shut cs \<Longrightarrow> reader_ok (Serving sv) \<Longrightarrow> reader_ok (Draining ((taken w sv)\<lparr>sv_stream := cs\<rparr>))"
  by (cases w) (auto split: if_splits)

lemma reader_ok_phase: "phase_step ph ph' \<Longrightarrow> reader_ok ph \<Longrightarrow> reader_ok ph'"
proof (induction rule: phase_step.induct)
  case (Woken sv w cs)
  then show ?case by (rule reader_ok_taken)
qed (auto simp: reader_stops_def split: if_splits)

lemma readers_ok_step: "tunnel_step env s s' \<Longrightarrow> readers_ok s \<Longrightarrow> readers_ok s'"
  by (drule tunnel_step_moves) (auto simp: moves_def readers_ok_def dest: reader_ok_phase split: if_splits)

lemma reachable_readers_ok: "tunnel_steps env (tunnel_Start (NewRegistry yerr)) s \<Longrightarrow> readers_ok s"
proof (induction rule: rtranclp_induct)
  case base
  show ?case by (simp add: tunnel_Start_def readers_ok_def)
next
  case (step s1 s2)
  then show ?case by (blast intro: readers_ok_step)
qed

text \<open>The handshake frame is read under a deadline.\<close>

fun timed :: "phase \<Rightarrow> bool" where
  "timed (Streaming y cs) = (cs_deadline cs = 30 * second)"
| "timed _ = True"

lemma timed_phase: "phase_step ph ph' \<Longrightarrow> timed ph'"
  by (induction rule: phase_step.induct) auto

lemma reachable_timed:
  "tunnel_steps env (tunnel_Start (NewRegistry yerr)) s \<Longrightarrow> tn_conns s c = Some ph \<Longrightarrow> timed ph"
proof (induction arbitrary: c ph rule: rtranclp_induct)
  case base
  then show ?case by (simp add: tunnel_Start_def)
next
  case (step s1 s2)
  from tunnel_step_moves [OF step.hyps(2)] step.IH step.prems show ?case
    by (auto simp: moves_def dest: timed_phase split: if_splits)
qed

text \<open>A handler that waits for a second element of the channel waits for ever.\<close>

fun stuck :: "phase \<Rightarrow> bool" where
  "stuck (Draining sv) = (\<not> sv_reading sv \<and> sv_readDone sv = [])"
| "stuck _ = False"

lemma stuck_cases: "stuck ph \<Longrightarrow> \<exists>sv. ph = Draining sv \<and> \<not> sv_reading sv \<and> sv_readDone sv = []"
  by (cases ph) auto

definition parked :: "conn \<Rightarrow> tunnel \<Rightarrow> bool" where
  "parked c s \<longleftrightarrow> (\<exists>ph. tn_conns s c = Some ph \<and> stuck ph)"

lemma stuck_stays: "phase_step ph ph' \<Longrightarrow> \<not> stuck ph"
  by (auto dest!: stuck_cases elim: phase_stepE)

lemma parked_step: "tunnel_step env s s' \<Longrightarrow> counted s \<Longrightarrow> parked c s \<Longrightarrow> parked c s'"
  by (drule tunnel_step_moves) (fastforce simp: moves_def parked_def counted_def dest: stuck_stays)

lemma parked_steps:
  assumes "tunnel_steps env s s'" and "tunnel_inv env s" and "parked c s"
  shows "tunnel_inv env s' \<and> parked c s'"
  using assms(1)
proof (induction rule: rtranclp_induct)
  case base
  with assms show ?case by simp
next
  case (step s1 s2)
  then show ?case using tunnel_step_inv parked_step tunnel_invD(6) by metis
qed

lemma live_blocks_Stop:
  assumes "tunnel_inv env s" and "tn_conns s c = Some ph" and "live ph"
  shows "\<not> stop_returns s"
proof -
  have "c \<in> live_conns s" using assms(2,3) by (auto simp: live_conns_def)
  then have "card (live_conns s) > 0"
    using finite_live_conns [OF tunnel_invD(6) [OF assms(1)]] by (auto simp: card_gt_0_iff)
  then show ?thesis using tunnel_invD(6) [OF assms(1)] by (simp add: stop_returns_def counted_def)
qed

lemma parked_blocks_Stop: "tunnel_inv env s \<Longrightarrow> parked c s \<Longrightarrow> \<not> stop_returns s"
  by (auto simp: parked_def dest!: stuck_cases dest: live_blocks_Stop)

end
