(* ===== verification/Tunnel_Properties.thy ===== *)
theory Tunnel_Properties
  imports Tunnel_Proofs
begin

section \<open>Properties of the tunnel server\<close>

text \<open>
  The theorems about the interleaved handlers, over \<open>tunnel_steps\<close> from a started server, and
  the run on which their witnesses stand: one node connects, is registered and closes its control
  stream.
\<close>

subsection \<open>A run\<close>

definition demo_env :: "unit tunnel_env" where
  "demo_env = \<lparr>te_policy = NewAuthPolicy [] True [''t''] Map.empty,
     te_handshake_json = (\<lambda>_. Inr demo_handshake), te_message_json = (\<lambda>_. Inl (Foreign ''bad''))\<rparr>"

abbreviation demo_start :: tunnel where
  "demo_start \<equiv> tunnel_Start (NewRegistry (\<lambda>_. None))"

text \<open>What the node's stream holds: a handshake frame, and the end.\<close>

definition demo_hello :: control_stream where
  "demo_hello = NewControlStream (demo_wire\<lparr>w_in := [[0, 0, 0, 0]]\<rparr>)"

definition demo_after :: control_stream where
  "demo_after = demo_hello\<lparr>cs_stream := demo_wire\<lparr>w_deadline := Some (30 * second)\<rparr>\<rparr>"

lemma demo_admit:
  "ReceiveHandshake (te_handshake_json demo_env) 0 0 demo_hello = (Inr demo_handshake, demo_after)"
  by (simp add: ReceiveHandshake_def ReceiveJSON_def ReceiveFrame_def applyDeadline_def stream_SetDeadline_def
      io_ReadFull_def demo_env_def demo_hello_def demo_after_def NewControlStream_def demo_wire_def
      frameHeaderSize_def numeral_eq_Suc second_def ValidateBasics_def demo_handshake_def Let_def defaultMaxFrame_def)

abbreviation demo_reg :: registry where
  "demo_reg \<equiv> registered 0 ''node-a'' demo_handshake (Some 0) (NewRegistry (\<lambda>_. None))"

definition demo_sv :: serving where
  "demo_sv = \<lparr>sv_yamux = 0, sv_stream = cs_SetDeadline controlReadIdleTimeout demo_after,
     sv_peerID = ''node-a'', sv_state = 0, sv_reading = True, sv_readDone = []\<rparr>"

definition demo_tunnel :: "phase \<Rightarrow> registry \<Rightarrow> tunnel" where
  "demo_tunnel ph st =
     \<lparr>tn_registry = st, tn_conns = [0 \<mapsto> ph], tn_next = 1, tn_closed_conns = {}, tn_wg = 2,
      tn_cancelled = False, tn_listening = True, tn_accepting = True, tn_crashed = False\<rparr>"

lemma demo_tunnel_simps [simp]:
  "tn_conns (demo_tunnel ph st) = [0 \<mapsto> ph]" "tn_registry (demo_tunnel ph st) = st"
  "goto 0 ph' (demo_tunnel ph st) = demo_tunnel ph' st"
  "(demo_tunnel ph st)\<lparr>tn_registry := st'\<rparr> = demo_tunnel ph st'"
  by (simp_all add: demo_tunnel_def goto_def)

lemma demo_steps:
  "tunnel_steps demo_env demo_start (demo_tunnel Accepted (NewRegistry (\<lambda>_. None)))"
  "tunnel_step demo_env (demo_tunnel Accepted st) (demo_tunnel TLSDone st)"
  "tunnel_step demo_env (demo_tunnel TLSDone st) (demo_tunnel (Multiplexed 0) st)"
  "tunnel_step demo_env (demo_tunnel (Multiplexed 0) st) (demo_tunnel (Streaming 0 demo_hello) st)"
  "tunnel_step demo_env (demo_tunnel (Streaming 0 demo_hello) st)
     (demo_tunnel (Authorized 0 demo_after demo_handshake) st)"
proof -
  have "tunnel_step demo_env demo_start (accept_conn demo_start)"
    by (rule tunnel_step.Accept) (simp_all add: tunnel_Start_def)
  moreover have "accept_conn demo_start = demo_tunnel Accepted (NewRegistry (\<lambda>_. None))"
    by (simp add: accept_conn_def tunnel_Start_def goto_def demo_tunnel_def)
  ultimately show "tunnel_steps demo_env demo_start (demo_tunnel Accepted (NewRegistry (\<lambda>_. None)))" by simp
  show "tunnel_step demo_env (demo_tunnel Accepted st) (demo_tunnel TLSDone st)"
    using tunnel_step.TLS [of "demo_tunnel Accepted st" 0 demo_env None] by (simp add: tls_handshake_def)
  show "tunnel_step demo_env (demo_tunnel TLSDone st) (demo_tunnel (Multiplexed 0) st)"
    using tunnel_step.Mux [of "demo_tunnel TLSDone st" 0 demo_env None] by (simp add: yamux_Server_def)
  show "tunnel_step demo_env (demo_tunnel (Multiplexed 0) st) (demo_tunnel (Streaming 0 demo_hello) st)"
    using tunnel_step.Control [of "demo_tunnel (Multiplexed 0) st" 0 0 demo_env "Inr (demo_wire\<lparr>w_in := [[0, 0, 0, 0]]\<rparr>)"]
    by (simp add: accept_control_def demo_hello_def)
  have "AuthorizeNode (te_policy demo_env) ''node-a'' ''t'' = None"
    by (simp add: demo_env_def AuthorizeNode_def NewAuthPolicy_def bind_tokens_def token_map_def map_len_def map_get_def)
  then have "admit demo_env 0 0 0 0 demo_hello (demo_tunnel (Streaming 0 demo_hello) st) =
      demo_tunnel (Authorized 0 demo_after demo_handshake) st"
    by (simp add: admit_def demo_admit demo_handshake_def)
  then show "tunnel_step demo_env (demo_tunnel (Streaming 0 demo_hello) st)
     (demo_tunnel (Authorized 0 demo_after demo_handshake) st)"
    using tunnel_step.Admit [of "demo_tunnel (Streaming 0 demo_hello) st" 0 0 demo_hello demo_env 0 0] by simp
qed

lemma demo_up: "tunnel_steps demo_env demo_start (demo_tunnel (Serving demo_sv) demo_reg)"
proof -
  let ?s = "demo_tunnel (Authorized 0 demo_after demo_handshake) (NewRegistry (\<lambda>_. None))"
  have "absorb ?s (enroll 0 0 0 demo_after demo_handshake ?s) = demo_tunnel (Serving demo_sv) demo_reg"
    using RegisterSession_ok [OF reg_wf_NewRegistry]
    by (simp add: enroll_def demo_sv_def) (simp add: demo_handshake_def NewRegistry_def)
  then have "tunnel_step demo_env ?s (demo_tunnel (Serving demo_sv) demo_reg)"
    using tunnel_step.Enroll [of ?s 0 0 demo_after demo_handshake demo_env 0] by simp
  with demo_steps show ?thesis by (meson rtranclp.rtrancl_into_rtrancl)
qed

text \<open>The node closes its control stream, and the read loop reports it.\<close>

definition demo_eof :: serving where
  "demo_eof = demo_sv\<lparr>sv_stream := (sv_stream demo_sv)\<lparr>cs_stream := demo_wire\<lparr>w_deadline := Some (2 * minute)\<rparr>\<rparr>,
     sv_reading := False, sv_readDone := [Wrapf ''failed to read frame header: %w'' [] io_EOF]\<rparr>"

lemma demo_eof_reached: "tunnel_steps demo_env demo_start (demo_tunnel (Serving demo_eof) demo_reg)"
proof -
  let ?s = "demo_tunnel (Serving demo_sv) demo_reg"
  have "control_turn (te_message_json demo_env) 0 ''node-a'' 0 (sv_stream demo_sv) demo_reg =
      Return (Some (Wrapf ''failed to read frame header: %w'' [] io_EOF), sv_stream demo_eof, demo_reg)"
    by (simp add: control_turn_def ReceiveControlMessageRaw_def ReceiveFrame_def applyDeadline_def
      stream_SetDeadline_def io_ReadFull_def demo_sv_def demo_eof_def demo_after_def demo_hello_def
      NewControlStream_def cs_SetDeadline_def controlReadIdleTimeout_def demo_wire_def minute_def second_def
      frameHeaderSize_def numeral_eq_Suc)
  then have "absorb ?s (reader_turn demo_env 0 0 Serving demo_sv ?s) = demo_tunnel (Serving demo_eof) demo_reg"
    by (simp add: reader_turn_def reader_stops_def demo_sv_def demo_eof_def)
  then have "tunnel_step demo_env ?s (demo_tunnel (Serving demo_eof) demo_reg)"
    using tunnel_step.Turn [of Serving ?s 0 demo_sv demo_env 0] by (simp add: demo_sv_def)
  with demo_up show ?thesis by (rule rtranclp.rtrancl_into_rtrancl)
qed

subsection \<open>The theorems\<close>





text \<open>
  C6. A handler that leaves its \<^verbatim>\<open>select\<close> because the node closed the control stream, or because
  reading failed or timed out, never returns: it took the only element the read loop sends and
  waits for another one. Its connection is never released, its session is not deregistered by
  it, and a \<^verbatim>\<open>Stop\<close> begun at any time never returns.
\<close>

theorem handler_that_took_readDone_never_returns:
  assumes "tunnel_steps env (tunnel_Start (NewRegistry yerr)) s"
    and "tn_conns s c = Some (Serving sv)" and "ready ReadDone sv s"
    and "tunnel_steps env (wake ReadDone c sv s) s'"
  shows "\<exists>sv'. tn_conns s' c = Some (Draining sv') \<and> sv_readDone sv' = [] \<and> \<not> sv_reading sv' \<and>
    \<not> stop_returns s'"
proof -
  have inv: "tunnel_inv env s" by (rule reachable_inv [OF assms(1)])
  have "reader_ok (Serving sv)" by (rule readers_okD [OF reachable_readers_ok [OF assms(1)] assms(2)])
  with assms(3) have "\<not> sv_reading sv" "tl (sv_readDone sv) = []"
    by (auto split: if_splits simp: length_Suc_conv)
  then have "parked c (wake ReadDone c sv s)"
    by (simp add: parked_def wake_def goto_def session_Close_def)
  then have "tunnel_inv env s'" and p: "parked c s'"
    using parked_steps [OF assms(4) inv_wake [OF inv assms(2)]] by auto
  then have "\<not> stop_returns s'" by (rule parked_blocks_Stop)
  with p show ?thesis by (auto simp: parked_def dest: stuck_cases)
qed

theorem handler_that_took_readDone_never_returns_witness:
  "\<not> stop_returns (stop_signal (wake ReadDone 0 demo_eof (demo_tunnel (Serving demo_eof) demo_reg)))"
proof -
  let ?s = "wake ReadDone 0 demo_eof (demo_tunnel (Serving demo_eof) demo_reg)"
  have c: "tn_conns (demo_tunnel (Serving demo_eof) demo_reg) 0 = Some (Serving demo_eof)"
    "ready ReadDone demo_eof (demo_tunnel (Serving demo_eof) demo_reg)"
    by (simp_all add: demo_eof_def)
  have "tunnel_steps demo_env ?s (stop_signal ?s)" by (rule r_into_rtranclp) (rule tunnel_step.Stop)
  from handler_that_took_readDone_never_returns [OF demo_eof_reached c this] show ?thesis by auto
qed

text \<open>
  A handler that leaves its \<^verbatim>\<open>select\<close> because the server stops or its session was closed can
  always finish on its own: the read loop ends because its stream is closed, the handler takes
  the loop's element, and then it has returned, its session is not registered any more and no
  other peer's entry was touched.
\<close>

lemma woken_handler_can_finish:
  assumes "tunnel_steps env (tunnel_Start (NewRegistry yerr)) s"
    and "tn_conns s c = Some (Serving sv)" and "w = ContextDone \<or> w = SessionClosed" and "ready w sv s"
  shows "\<exists>s'. tunnel_steps env (wake w c sv s) s' \<and> (\<exists>cs. tn_conns s' c = Some (Exited cs)) \<and>
    reg_sessions (tn_registry s') (sv_peerID sv) \<noteq> Some (sv_state sv) \<and>
    (\<forall>p. p \<noteq> sv_peerID sv \<longrightarrow> reg_sessions (tn_registry s') p = reg_sessions (tn_registry s) p)"
proof -
  let ?d = "sv\<lparr>sv_stream := cs_Close (sv_stream sv)\<rparr>" and ?s1 = "wake w c sv s"
  have inv1: "tunnel_inv env ?s1" by (rule inv_wake [OF reachable_inv [OF assms(1)] assms(2)])
  have tk: "taken w sv = sv" using assms(3) by auto
  have s1: "tn_conns ?s1 c = Some (Draining ?d)" "reg_sessions (tn_registry ?s1) = reg_sessions (tn_registry s)"
    by (simp_all add: wake_def tk goto_def session_Close_def yamux_Close_def)
  have ok: "reader_ok (Serving sv)" by (rule readers_okD [OF reachable_readers_ok [OF assms(1)] assms(2)])
  obtain s2 d2 where s2: "tunnel_steps env ?s1 s2" "tn_conns s2 c = Some (Draining d2)"
      "sv_readDone d2 \<noteq> []" "sv_peerID d2 = sv_peerID sv" "sv_state d2 = sv_state sv"
      "tn_registry s2 = tn_registry ?s1"
  proof (cases "sv_reading sv")
    case True
    let ?s2 = "reader_abort io_EOF c Draining ?d ?s1"
    have "tunnel_step env ?s1 ?s2"
      by (rule tunnel_step.Abort) (use True s1(1) in \<open>simp_all add: cs_Close_def stream_Close_def\<close>)
    then show ?thesis
      by (intro that [of ?s2 "reader_stops io_EOF (sv_stream ?d) ?d"])
         (auto simp: reader_abort_def reader_stops_def goto_def)
  next
    case False
    with ok s1(1) show ?thesis by (intro that [of ?s1 ?d]) auto
  qed
  have inv2: "tunnel_inv env s2" by (rule tunnel_steps_inv [OF s2(1) inv1])
  obtain e st where r: "RemoveIfCurrent (sv_peerID d2) (sv_state d2) (tn_registry s2) = Return (e, st)"
    and st: "reg_sessions st = (if reg_sessions (tn_registry s2) (sv_peerID d2) = Some (sv_state d2)
         then (reg_sessions (tn_registry s2))(sv_peerID d2 := None) else reg_sessions (tn_registry s2))"
    using dir.remove_law [OF tunnel_invD(2) [OF inv2], of "sv_peerID d2" "sv_state d2"] by blast
  let ?s3 = "absorb s2 (deregister c d2 s2)"
  have "tunnel_step env s2 ?s3" by (rule tunnel_step.Leave [OF s2(2,3)])
  with s2(1) have "tunnel_steps env ?s1 ?s3" by (rule rtranclp.rtrancl_into_rtrancl)
  moreover have "tn_conns ?s3 c = Some (Exited (Some (cs_Close (sv_stream d2))))"
    and "reg_sessions (tn_registry ?s3) = reg_sessions st"
    by (simp_all add: deregister_def r leave_simps yamux_Close_def)
  ultimately show ?thesis using st s1(2) s2(4-6) by (intro exI [of _ ?s3]) auto
qed

lemma woken_handler_can_finish_witness:
  "\<exists>s'. tunnel_steps demo_env
     (wake ContextDone 0 demo_sv (stop_signal (demo_tunnel (Serving demo_sv) demo_reg))) s' \<and>
     reg_sessions (tn_registry s') ''node-a'' \<noteq> Some 0"
proof -
  let ?s = "stop_signal (demo_tunnel (Serving demo_sv) demo_reg)"
  have r: "tunnel_steps demo_env demo_start ?s"
    using demo_up tunnel_step.Stop by (rule rtranclp.rtrancl_into_rtrancl)
  have c: "tn_conns ?s 0 = Some (Serving demo_sv)" "ready ContextDone demo_sv ?s"
    by (simp_all add: stop_signal_def)
  from woken_handler_can_finish [OF r c(1) _ c(2)] show ?thesis by (auto simp: demo_sv_def)
qed

subsection \<open>One read loop, undisturbed\<close>

text \<open>A message that may refresh the session of \<open>p\<close>.\<close>

definition heartbeat_of :: "peer_id \<Rightarrow> 'v control_message \<Rightarrow> bool" where
  "heartbeat_of p msg \<longleftrightarrow> cm_Type msg = ''heartbeat'' \<and>
     (\<exists>hb. cm_Heartbeat msg = Some hb \<and> hb_NodeID hb = p)"

definition refreshed :: "(byte list \<Rightarrow> 'v control_message result) \<Rightarrow> (nat \<Rightarrow> instant) \<Rightarrow> peer_id \<Rightarrow> sref
    \<Rightarrow> registry \<Rightarrow> registry \<Rightarrow> bool" where
  "refreshed unmarshal clock p a st st' \<longleftrightarrow>
     st' = st \<or>
     (\<exists>s k data msg. reg_heap st a = Some s \<and> st' = store a (s\<lparr>ss_LastHeartbeat := clock k\<rparr>) st \<and>
        unmarshal data = Inr msg \<and> heartbeat_of p msg)"

lemma store_store: "store a s (store a t st) = store a s st"
  by (simp add: store_def)

lemma refreshed_trans:
  assumes "refreshed unmarshal clock p a st st1" and "refreshed unmarshal clock p a st1 st2"
  shows "refreshed unmarshal clock p a st st2"
proof (cases "st1 = st \<or> st2 = st1")
  case True
  with assms show ?thesis by auto
next
  case False
  with assms obtain s k data msg where s: "reg_heap st a = Some s"
      "st1 = store a (s\<lparr>ss_LastHeartbeat := clock k\<rparr>) st" "unmarshal data = Inr msg" "heartbeat_of p msg"
    by (auto simp: refreshed_def)
  from False assms(2) s(2) obtain k' where "st2 = store a (s\<lparr>ss_LastHeartbeat := clock k'\<rparr>) st"
    by (auto simp: refreshed_def store_store)
  with s show ?thesis by (auto simp: refreshed_def)
qed

lemma control_turn_refreshed:
  assumes "control_turn unmarshal (clock k) p a cs st = Return (e, cs', st')"
  shows "refreshed unmarshal clock p a st st'"
proof (cases "st' = st")
  case False
  with assms obtain cs1 msg hb where
    msg: "ReceiveControlMessageRaw unmarshal (clock k) cs = (Inr msg, cs1)" "cm_Type msg = ''heartbeat''"
      "cm_Heartbeat msg = Some hb" "hb_NodeID hb = p" and touch: "TouchHeartbeat (clock k) a st = Return st'"
    by (auto simp: control_turn_def outcome_simps split: prod.splits sum.splits option.splits if_splits)
  obtain data where "unmarshal data = Inr msg"
    using msg(1) by (auto simp: ReceiveControlMessageRaw_def split: prod.splits sum.splits)
  moreover obtain s where "reg_heap st a = Some s" "st' = store a (s\<lparr>ss_LastHeartbeat := clock k\<rparr>) st"
    using touch by (auto simp: TouchHeartbeat_def deref_def split: option.splits)
  ultimately show ?thesis using msg by (auto simp: refreshed_def heartbeat_of_def)
qed (simp add: refreshed_def)

lemma control_turns_spec:
  "reg_wf st \<Longrightarrow> identity st a \<noteq> None \<Longrightarrow>
   \<exists>e cs' st'. control_turns unmarshal clock k p a cs st = Return (e, cs', st') \<and>
     refreshed unmarshal clock p a st st'"
proof (induction unmarshal clock k p a cs st rule: control_turns.induct)
  case (1 unmarshal clock k p a cs st)
  obtain e cs1 st1 where turn: "control_turn unmarshal (clock k) p a cs st = Return (e, cs1, st1)"
      and st1: "st1 = st \<or> (e = None \<and> TouchHeartbeat (clock k) a st = Return st1)"
    using control_turn_cases [OF "1.prems"] by metis
  have r: "refreshed unmarshal clock p a st st1" using turn by (rule control_turn_refreshed [where clock = clock and k = k])
  show ?case
  proof (cases e)
    case (Some err)
    with turn r show ?thesis by (simp add: control_turns.simps)
  next
    case None
    have "reg_wf st1 \<and> identity st1 = identity st"
      using st1 "1.prems" dir.touch_law [OF "1.prems", of "clock k"] by auto
    with "1.prems" have "reg_wf st1" "identity st1 a \<noteq> None" by auto
    then obtain e' cs' st' where "control_turns unmarshal clock (Suc k) p a cs1 st1 = Return (e', cs', st')"
        "refreshed unmarshal clock p a st1 st'"
      using "1.IH" [OF turn _ refl] None by blast
    moreover have "control_turns unmarshal clock k p a cs st = control_turns unmarshal clock (Suc k) p a cs1 st1"
      using turn None by (simp add: control_turns.simps [of unmarshal clock k])
    ultimately show ?thesis using refreshed_trans [OF r] by auto
  qed
qed



subsection \<open>From a node's handshake to its registration\<close>

lemma handshake_arrives:
  assumes "SendJSON marshal t0 h snd0 = (None, snd1)" and "w_out (cs_stream snd0) = []"
    and "\<And>d. marshal h = Inr d \<Longrightarrow> unmarshal d = Inr h"
    and "ValidateBasics unix h = None"
    and "deadline_ok cs" and "cs_maxFrame snd0 \<le> cs_maxFrame cs"
    and "stream_bytes cs = w_out (cs_stream snd1) @ rest"
  obtains cs' where "ReceiveHandshake unmarshal now unix cs = (Inr h, cs')" "stream_bytes cs' = rest"
proof -
  obtain d where d: "marshal h = Inr d" "SendFrame t0 d snd0 = (None, snd1)"
    using assms(1) by (auto simp: SendJSON_def split: sum.splits)
  note s = SendFrame_Some_or_frame [OF d(2)]
  have len: "length d \<le> unat (cs_maxFrame cs)" using s(1) assms(6) by (simp add: word_le_nat_alt)
  have "stream_bytes cs = frame_bytes d @ rest" using s(2) assms(2,7) by simp
  with parse_frame_frame_bytes [OF len] ReceiveFrame_parse [OF assms(5), of now]
  obtain cs' where "ReceiveFrame now cs = (Inr d, cs')" "stream_bytes cs' = rest" by (metis fst_conv snd_conv)
  with assms(3) [OF d(1)] assms(4) show ?thesis
    by (intro that [of cs']) (simp_all add: ReceiveHandshake_def ReceiveJSON_def)
qed


definition demo_sender :: control_stream where
  "demo_sender = NewControlStream demo_wire"


end
