(* ===== verification/Acl.thy ===== *)
theory Acl
  imports Mesh_Prelude Go_Strings
begin

section \<open>Access control (pkg/server/acl.go)\<close>

text \<open>
  An access policy answers whether a peer's method may be called. \<^verbatim>\<open>StaticACL\<close> looks for the
  applicable rule of highest priority; its pointer to a rule is the rule. The Go interface
  \<^verbatim>\<open>ACLPolicy\<close> is a locale, interpreted by the three implementations, and the datatype
  \<open>acl_policy\<close> with its dispatch is a value of that interface type.
\<close>

datatype action = ActionDeny | ActionAllow

record acl_rule =
  ar_PeerPattern :: string
  ar_MethodPattern :: string
  ar_Action :: action
  ar_Priority :: int

definition matchPattern :: "string \<Rightarrow> string \<Rightarrow> bool" where
  "matchPattern val pattern =
     (if pattern = ''*'' then True
      else if \<not> Contains pattern ''*'' then val = pattern
      else if HasPrefix pattern ''*'' \<and> HasSuffix pattern ''*'' then
        (let substr = Trim pattern CHR ''*'' in Contains val substr)
      else if HasPrefix pattern ''*'' then
        (let suffix = TrimPrefix pattern ''*'' in HasSuffix val suffix)
      else if HasSuffix pattern ''*'' then
        (let prefix = TrimSuffix pattern ''*'' in HasPrefix val prefix)
      else False)"

subsection \<open>The policies\<close>

record static_acl =
  sa_rules :: "acl_rule list"

definition NewStaticACL :: "acl_rule list \<Rightarrow> static_acl" where
  "NewStaticACL rules = \<lparr>sa_rules = rules\<rparr>"

definition UpdateRules :: "acl_rule list \<Rightarrow> static_acl \<Rightarrow> static_acl" where
  "UpdateRules rules acl = acl\<lparr>sa_rules := rules\<rparr>"

definition applicable :: "string \<Rightarrow> string \<Rightarrow> acl_rule \<Rightarrow> bool" where
  "applicable peerID method rule \<longleftrightarrow>
     matchPattern peerID (ar_PeerPattern rule) \<and> matchPattern method (ar_MethodPattern rule)"

fun match_loop :: "acl_rule list \<Rightarrow> string \<Rightarrow> string \<Rightarrow> acl_rule option \<Rightarrow> int \<Rightarrow> acl_rule option" where
  "match_loop [] peerID method bestMatch bestPriority = bestMatch"
| "match_loop (rule # rules) peerID method bestMatch bestPriority =
     (if applicable peerID method rule then
        (if ar_Priority rule > bestPriority
         then match_loop rules peerID method (Some rule) (ar_Priority rule)
         else match_loop rules peerID method bestMatch bestPriority)
      else match_loop rules peerID method bestMatch bestPriority)"

definition Static_Match :: "static_acl \<Rightarrow> string \<Rightarrow> string \<Rightarrow> acl_rule option" where
  "Static_Match acl peerID method = match_loop (sa_rules acl) peerID method None (-1)"

definition Static_Check :: "static_acl \<Rightarrow> string \<Rightarrow> string \<Rightarrow> bool" where
  "Static_Check acl peerID method =
     (case Static_Match acl peerID method of
        None \<Rightarrow> False
      | Some rule \<Rightarrow> ar_Action rule = ActionAllow)"

text \<open>
  \<^verbatim>\<open>UpdateRules\<close> takes no lock, so it may run during a \<^verbatim>\<open>Match\<close>: the loop's number of rounds is
  fixed at its start, and each round reads \<^verbatim>\<open>acl.rules\<close> anew. \<open>rs k\<close> is the list at the \<open>k\<close>-th of
  these readings (each taken to be whole, which Go does not promise either).
\<close>

definition index_panic :: string where
  "index_panic = ''index out of range''"

fun match_rounds ::
  "(nat \<Rightarrow> acl_rule list) \<Rightarrow> nat list \<Rightarrow> string \<Rightarrow> string \<Rightarrow> acl_rule option \<Rightarrow> int \<Rightarrow> acl_rule option outcome" where
  "match_rounds rs [] peerID method bestMatch bestPriority = Return bestMatch"
| "match_rounds rs (i # is) peerID method bestMatch bestPriority =
     (if length (rs (Suc i)) \<le> i then Panic index_panic
      else
        let rule = rs (Suc i) ! i in
        if applicable peerID method rule then
          (if ar_Priority rule > bestPriority
           then match_rounds rs is peerID method (Some rule) (ar_Priority rule)
           else match_rounds rs is peerID method bestMatch bestPriority)
        else match_rounds rs is peerID method bestMatch bestPriority)"

definition Static_Match_during ::
  "(nat \<Rightarrow> acl_rule list) \<Rightarrow> string \<Rightarrow> string \<Rightarrow> acl_rule option outcome" where
  "Static_Match_during rs peerID method =
     match_rounds rs [0..<length (rs 0)] peerID method None (-1)"

definition Static_Check_during :: "(nat \<Rightarrow> acl_rule list) \<Rightarrow> string \<Rightarrow> string \<Rightarrow> bool outcome" where
  "Static_Check_during rs peerID method =
     bind_outcome (Static_Match_during rs peerID method) (\<lambda>found. Return
       (case found of None \<Rightarrow> False | Some rule \<Rightarrow> ar_Action rule = ActionAllow))"

definition Permissive_Check :: "string \<Rightarrow> string \<Rightarrow> bool" where
  "Permissive_Check peerID method = True"

definition Permissive_Match :: "string \<Rightarrow> string \<Rightarrow> acl_rule option" where
  "Permissive_Match peerID method =
     Some \<lparr>ar_PeerPattern = ''*'', ar_MethodPattern = ''*'', ar_Action = ActionAllow, ar_Priority = 0\<rparr>"

definition Restrictive_Check :: "string \<Rightarrow> string \<Rightarrow> bool" where
  "Restrictive_Check peerID method = False"

definition Restrictive_Match :: "string \<Rightarrow> string \<Rightarrow> acl_rule option" where
  "Restrictive_Match peerID method =
     Some \<lparr>ar_PeerPattern = ''*'', ar_MethodPattern = ''*'', ar_Action = ActionDeny, ar_Priority = 0\<rparr>"

text \<open>A value of the interface type: one of the three, with its methods dispatched.\<close>

datatype acl_policy = StaticACL static_acl | PermissiveACL | RestrictiveACL

definition NewPermissiveACL :: acl_policy where
  [simp]: "NewPermissiveACL = PermissiveACL"

definition NewRestrictiveACL :: acl_policy where
  [simp]: "NewRestrictiveACL = RestrictiveACL"

fun ACL_Check :: "acl_policy \<Rightarrow> string \<Rightarrow> string \<Rightarrow> bool" where
  "ACL_Check (StaticACL acl) peerID method = Static_Check acl peerID method"
| "ACL_Check PermissiveACL peerID method = Permissive_Check peerID method"
| "ACL_Check RestrictiveACL peerID method = Restrictive_Check peerID method"

fun ACL_Match :: "acl_policy \<Rightarrow> string \<Rightarrow> string \<Rightarrow> acl_rule option" where
  "ACL_Match (StaticACL acl) peerID method = Static_Match acl peerID method"
| "ACL_Match PermissiveACL peerID method = Permissive_Match peerID method"
| "ACL_Match RestrictiveACL peerID method = Restrictive_Match peerID method"

subsection \<open>The interface\<close>

text \<open>
  What a user of \<^verbatim>\<open>ACLPolicy\<close> relies on: \<^verbatim>\<open>Check\<close> is the verdict of the rule \<^verbatim>\<open>Match\<close> finds,
  and that rule applies to the call.
\<close>

locale access_policy =
  fixes check :: "'s \<Rightarrow> string \<Rightarrow> string \<Rightarrow> bool"
    and match :: "'s \<Rightarrow> string \<Rightarrow> string \<Rightarrow> acl_rule option"
  assumes check_match: "check s p m \<longleftrightarrow> (\<exists>r. match s p m = Some r \<and> ar_Action r = ActionAllow)"
    and match_applicable: "match s p m = Some r \<Longrightarrow> applicable p m r"
begin

lemma denied_by_rule: "match s p m = Some r \<Longrightarrow> ar_Action r = ActionDeny \<Longrightarrow> \<not> check s p m"
  using check_match by auto

lemma default_deny: "match s p m = None \<Longrightarrow> \<not> check s p m"
  using check_match by auto

lemma allowed_by_applicable_rule:
  "check s p m \<Longrightarrow> \<exists>r. applicable p m r \<and> ar_Action r = ActionAllow"
  using check_match match_applicable by blast

end

subsection \<open>The rule that decides\<close>

text \<open>The first of the applicable rules with the highest priority, among those from zero on.\<close>

definition decisive :: "acl_rule list \<Rightarrow> string \<Rightarrow> string \<Rightarrow> nat \<Rightarrow> bool" where
  "decisive rules p m i \<longleftrightarrow>
     i < length rules \<and> applicable p m (rules ! i) \<and> 0 \<le> ar_Priority (rules ! i) \<and>
     (\<forall>j < length rules. applicable p m (rules ! j) \<longrightarrow>
        ar_Priority (rules ! j) \<le> ar_Priority (rules ! i) \<and>
        (j < i \<longrightarrow> ar_Priority (rules ! j) < ar_Priority (rules ! i)))"

lemma match_loop_spec:
  "match_loop rules p m best prio =
     (if \<exists>r \<in> set rules. applicable p m r \<and> ar_Priority r > prio
      then find (\<lambda>r. applicable p m r \<and>
                (\<forall>q \<in> set rules. applicable p m q \<longrightarrow> ar_Priority q \<le> ar_Priority r)) rules
      else best)"
proof (induction rules arbitrary: best prio)
  case (Cons r rs)
  let ?top = "\<lambda>xs r. applicable p m r \<and> (\<forall>q \<in> set xs. applicable p m q \<longrightarrow> ar_Priority q \<le> ar_Priority r)"
  show ?case
  proof (cases "applicable p m r")
    case False
    then have "?top (r # rs) = ?top rs" by auto
    with False Cons.IH show ?thesis by auto
  next
    case app: True
    show ?thesis
    proof (cases "\<exists>q \<in> set rs. applicable p m q \<and> ar_Priority q > max prio (ar_Priority r)")
      case True
      then obtain q where "q \<in> set rs" "applicable p m q" "ar_Priority q > prio" "ar_Priority q > ar_Priority r" by auto
      then have "\<not> ?top (r # rs) r" by auto
      moreover have "?top (r # rs) x \<longleftrightarrow> ?top rs x" if "x \<in> set rs" for x
        using True by auto
      then have "find (?top (r # rs)) rs = find (?top rs) rs" by (intro find_cong) simp_all
      ultimately show ?thesis
        using app True Cons.IH by auto
    next
      case False
      then have none: "\<not> (\<exists>q \<in> set rs. applicable p m q \<and> ar_Priority q > max prio (ar_Priority r))" by simp
      show ?thesis
      proof (cases "ar_Priority r > prio")
        case True
        with none app have "?top (r # rs) r" by auto
        with True none app Cons.IH show ?thesis by (auto simp: max_def)
      next
        case False
        with none app Cons.IH show ?thesis by (auto simp: max_def)
      qed
    qed
  qed
qed simp


lemma Match_spec:
  "Static_Match acl p m = Some r \<longleftrightarrow> (\<exists>i. decisive (sa_rules acl) p m i \<and> sa_rules acl ! i = r)"
proof -
  let ?rs = "sa_rules acl"
  let ?top = "\<lambda>r. applicable p m r \<and> (\<forall>q \<in> set ?rs. applicable p m q \<longrightarrow> ar_Priority q \<le> ar_Priority r)"
  show ?thesis
  proof (cases "\<exists>r \<in> set ?rs. applicable p m r \<and> ar_Priority r > -1")
    case False
    then have "Static_Match acl p m = None" unfolding Static_Match_def match_loop_spec by (rule if_not_P)
    moreover have "\<not> decisive ?rs p m i" for i
    proof
      assume d: "decisive ?rs p m i"
      then have "?rs ! i \<in> set ?rs" "applicable p m (?rs ! i)" "ar_Priority (?rs ! i) > -1"
        by (simp_all add: decisive_def)
      with False show False by blast
    qed
    ultimately show ?thesis by simp
  next
    case True
    then obtain q where q: "q \<in> set ?rs" "applicable p m q" "-1 < ar_Priority q" by blast
    have eq1: "Static_Match acl p m = find ?top ?rs"
      unfolding Static_Match_def match_loop_spec using True by (rule if_P)
    have eq2: "(i < length ?rs \<and> ?top (?rs ! i) \<and> (\<forall>j<i. \<not> ?top (?rs ! j))) = decisive ?rs p m i" for i
    proof
      assume i: "i < length ?rs \<and> ?top (?rs ! i) \<and> (\<forall>j<i. \<not> ?top (?rs ! j))"
      have max: "ar_Priority (?rs ! j) \<le> ar_Priority (?rs ! i)" if "j < length ?rs" "applicable p m (?rs ! j)" for j
        using i that nth_mem by blast
      have lt: "ar_Priority (?rs ! j) < ar_Priority (?rs ! i)" if "j < i" "applicable p m (?rs ! j)" for j
      proof (rule ccontr)
        assume "\<not> ar_Priority (?rs ! j) < ar_Priority (?rs ! i)"
        with i that have "?top (?rs ! j)" by (meson linorder_not_less order_trans)
        with i that show False by blast
      qed
      have "0 \<le> ar_Priority (?rs ! i)" using i q by force
      with i max lt show "decisive ?rs p m i" by (simp add: decisive_def)
    next
      assume d: "decisive ?rs p m i"
      have "\<not> ?top (?rs ! j)" if "j < i" for j
        using d that unfolding decisive_def by (metis linorder_not_less nth_mem order.strict_trans)
      moreover have "?top (?rs ! i)" using d unfolding decisive_def by (metis in_set_conv_nth)
      ultimately show "i < length ?rs \<and> ?top (?rs ! i) \<and> (\<forall>j<i. \<not> ?top (?rs ! j))"
        using d by (simp add: decisive_def)
    qed
    show ?thesis unfolding eq1 find_Some_iff eq2 [symmetric] by blast
  qed
qed

lemma star_applicable: "ar_PeerPattern r = ''*'' \<Longrightarrow> ar_MethodPattern r = ''*'' \<Longrightarrow> applicable p m r"
  by (simp add: applicable_def matchPattern_def)

interpretation static_policy: access_policy Static_Check Static_Match
proof unfold_locales
  fix s p m
  show "Static_Check s p m \<longleftrightarrow> (\<exists>r. Static_Match s p m = Some r \<and> ar_Action r = ActionAllow)"
    by (simp add: Static_Check_def split: option.split)
  show "applicable p m r" if "Static_Match s p m = Some r" for r
    using that Match_spec by (auto simp: decisive_def)
qed

interpretation any_policy: access_policy ACL_Check ACL_Match
proof unfold_locales
  fix s p m
  show "ACL_Check s p m \<longleftrightarrow> (\<exists>r. ACL_Match s p m = Some r \<and> ar_Action r = ActionAllow)"
    by (cases s) (simp_all add: static_policy.check_match Permissive_Check_def Permissive_Match_def
        Restrictive_Check_def Restrictive_Match_def)
  show "applicable p m r" if "ACL_Match s p m = Some r" for r
    using that
    by (cases s) (auto simp: static_policy.match_applicable Permissive_Match_def Restrictive_Match_def
        intro!: star_applicable)
qed

subsection \<open>Patterns\<close>

text \<open>The usual meaning of a pattern: a star stands for any sequence of bytes.\<close>

fun glob :: "string \<Rightarrow> string \<Rightarrow> bool" where
  "glob [] v = (v = [])"
| "glob (x # p) [] = (x = CHR ''*'' \<and> glob p [])"
| "glob (x # p) (c # v) =
     (if x = CHR ''*'' then glob p (c # v) \<or> glob (x # p) v else x = c \<and> glob p v)"

lemma glob_star: "glob (CHR ''*'' # p) v \<longleftrightarrow> (\<exists>l w. v = l @ w \<and> glob p w)"
proof (induction v)
  case (Cons c v)
  have "(\<exists>l w. c # v = l @ w \<and> glob p w) \<longleftrightarrow> glob p (c # v) \<or> (\<exists>l w. v = l @ w \<and> glob p w)"
  proof
    assume "\<exists>l w. c # v = l @ w \<and> glob p w"
    then obtain l w where "c # v = l @ w" "glob p w" by blast
    then show "glob p (c # v) \<or> (\<exists>l w. v = l @ w \<and> glob p w)" by (cases l) auto
  next
    assume "glob p (c # v) \<or> (\<exists>l w. v = l @ w \<and> glob p w)"
    then show "\<exists>l w. c # v = l @ w \<and> glob p w"
      by (metis append_Cons append_Nil)
  qed
  with Cons.IH show ?case by simp
qed simp

lemma glob_literal: "CHR ''*'' \<notin> set p \<Longrightarrow> glob (p @ q) v \<longleftrightarrow> (\<exists>w. v = p @ w \<and> glob q w)"
proof (induction p arbitrary: v)
  case (Cons x p)
  then show ?case by (cases v) auto
qed simp

lemma glob_exact: "CHR ''*'' \<notin> set p \<Longrightarrow> glob p v \<longleftrightarrow> v = p"
  using glob_literal [of p "[]" v] by simp

lemma glob_everything: "glob ''*'' v"
  by (simp add: glob_star)

lemma glob_prefix: "CHR ''*'' \<notin> set p \<Longrightarrow> glob (p @ ''*'') v \<longleftrightarrow> HasPrefix v p"
  by (simp add: glob_literal glob_everything HasPrefix_iff)

lemma glob_suffix: "CHR ''*'' \<notin> set p \<Longrightarrow> glob (''*'' @ p) v \<longleftrightarrow> HasSuffix v p"
  by (simp add: glob_star glob_exact HasSuffix_iff)

lemma glob_infix: "CHR ''*'' \<notin> set p \<Longrightarrow> glob (''*'' @ p @ ''*'') v \<longleftrightarrow> Contains v p"
  by (simp add: glob_star glob_prefix Contains_iff HasPrefix_iff) blast

lemma matchPattern_cases:
  assumes "CHR ''*'' \<notin> set p"
  shows "matchPattern v p \<longleftrightarrow> v = p"
    and "p \<noteq> [] \<Longrightarrow> matchPattern v (''*'' @ p) \<longleftrightarrow> HasSuffix v p"
    and "p \<noteq> [] \<Longrightarrow> matchPattern v (p @ ''*'') \<longleftrightarrow> HasPrefix v p"
    and "matchPattern v (''*'' @ p @ ''*'') \<longleftrightarrow> Contains v p"
proof -
  have last: "\<not> HasSuffix (CHR ''*'' # p) ''*''" if "p \<noteq> []"
    unfolding HasSuffix_single using assms that by (metis last_ConsR last_in_set last_snoc)
  have first: "\<not> HasPrefix (p @ ''*'') ''*''" if "p \<noteq> []"
    using assms that by (cases p) (auto simp: HasPrefix_single)
  show "matchPattern v p \<longleftrightarrow> v = p"
    using assms by (auto simp: matchPattern_def Contains_single)
  show "p \<noteq> [] \<Longrightarrow> matchPattern v (''*'' @ p) \<longleftrightarrow> HasSuffix v p"
    using last TrimPrefix_app [of "''*''" p] by (auto simp: matchPattern_def Contains_single HasPrefix_single Let_def)
  show "p \<noteq> [] \<Longrightarrow> matchPattern v (p @ ''*'') \<longleftrightarrow> HasPrefix v p"
    using first by (auto simp: matchPattern_def Contains_single HasSuffix_single Let_def append_eq_Cons_conv)
  show "matchPattern v (''*'' @ p @ ''*'') \<longleftrightarrow> Contains v p"
  proof (cases "p = []")
    case True
    then show ?thesis
      by (auto simp: matchPattern_def HasPrefix_single HasSuffix_single Contains_single Let_def)
  next
    case False
    then have "Trim (CHR ''*'' # p @ ''*'') CHR ''*'' = p" using Trim_both [OF assms] by simp
    with False show ?thesis
      by (auto simp: matchPattern_def Contains_single HasPrefix_single HasSuffix_single Let_def)
  qed
qed

text \<open>The patterns the code supports: a star at either end, or at both, or none.\<close>

definition edge_pattern :: "string \<Rightarrow> bool" where
  "edge_pattern pat \<longleftrightarrow>
     (\<exists>p. CHR ''*'' \<notin> set p \<and> (pat = p \<or> pat = ''*'' @ p \<or> pat = p @ ''*'' \<or> pat = ''*'' @ p @ ''*''))"

lemma matchPattern_glob:
  assumes "edge_pattern pat"
  shows "matchPattern v pat \<longleftrightarrow> glob pat v"
proof -
  obtain p where p: "CHR ''*'' \<notin> set p"
    and pat: "pat = p \<or> pat = ''*'' @ p \<or> pat = p @ ''*'' \<or> pat = ''*'' @ p @ ''*''"
    using assms unfolding edge_pattern_def by blast
  note m = matchPattern_cases [OF p, of v] and g = glob_exact [OF p, of v] glob_suffix [OF p, of v]
    glob_prefix [OF p, of v] glob_infix [OF p, of v]
  show ?thesis
  proof (cases "p = []")
    case True
    with pat consider "pat = []" | "pat = ''*''" | "pat = ''*'' @ p @ ''*''" by auto
    then show ?thesis
    proof cases
      case 1
      with m(1) g(1) True show ?thesis by simp
    next
      case 2
      then show ?thesis by (simp add: matchPattern_def glob_everything)
    next
      case 3
      with m(4) g(4) show ?thesis by simp
    qed
  next
    case False
    with pat m g show ?thesis by metis
  qed
qed

text \<open>A pattern with stars inside only matches nothing, although it may denote something.\<close>

lemma matchPattern_inner:
  assumes "CHR ''*'' \<in> set pat" and "\<not> HasPrefix pat ''*''" and "\<not> HasSuffix pat ''*''"
  shows "\<not> matchPattern v pat"
proof -
  have "pat \<noteq> ''*''" using assms(2) by (auto simp: HasPrefix_single)
  with assms show ?thesis by (simp add: matchPattern_def Contains_single)
qed

subsection \<open>Properties\<close>

lemma Static_Check_by_decisive_rule:
  "Static_Check acl p m \<longleftrightarrow>
     (\<exists>i. decisive (sa_rules acl) p m i \<and> ar_Action (sa_rules acl ! i) = ActionAllow)"
  unfolding static_policy.check_match Match_spec by blast

text \<open>What a check that updates overlap works on: in each round the rule it reads.\<close>

definition rules_read :: "(nat \<Rightarrow> acl_rule list) \<Rightarrow> acl_rule list" where
  "rules_read rs = map (\<lambda>i. rs (Suc i) ! i) [0..<length (rs 0)]"

lemma match_rounds_eq:
  "match_rounds rs is p m best prio =
     (if \<exists>i \<in> set is. length (rs (Suc i)) \<le> i then Panic index_panic
      else Return (match_loop (map (\<lambda>i. rs (Suc i) ! i) is) p m best prio))"
  by (induction "is" arbitrary: best prio) (simp_all add: Let_def)

lemma rules_read_still [simp]: "rules_read (\<lambda>_. rules) = rules"
  by (simp add: rules_read_def map_nth)

text \<open>
  C35. What decides a call, updates of the rules included. A check by a static policy, while
  \<^verbatim>\<open>UpdateRules\<close> replaces the list in any way, panics exactly when a round finds the list no longer
  than its index, as when a shorter list was installed. Otherwise it allows the call exactly when, of
  the rules read in the rounds, some rule applies, and the decisive one, the first of those with the
  highest priority, says allow: a call no rule applies to is denied, and so is one to which only rules
  of negative priority apply. An undisturbed check always returns and decides by the policy's rules.
\<close>

theorem Static_Check_amid_updates:
  "Static_Check_during rs p m =
     (if \<exists>i < length (rs 0). length (rs (Suc i)) \<le> i then Panic index_panic
      else Return (\<exists>i. decisive (rules_read rs) p m i \<and> ar_Action (rules_read rs ! i) = ActionAllow)) \<and>
   Static_Check_during (\<lambda>_. rules) p m = Return (Static_Check (NewStaticACL rules) p m)"
proof -
  have *: "Static_Check_during rs p m =
     (if \<exists>i < length (rs 0). length (rs (Suc i)) \<le> i then Panic index_panic
      else Return (Static_Check (NewStaticACL (rules_read rs)) p m))" for rs
    unfolding Static_Check_during_def Static_Match_during_def match_rounds_eq
    by (auto simp: Static_Check_def Static_Match_def NewStaticACL_def rules_read_def)
  have "Static_Check_during rs p m =
     (if \<exists>i < length (rs 0). length (rs (Suc i)) \<le> i then Panic index_panic
      else Return (\<exists>i. decisive (rules_read rs) p m i \<and> ar_Action (rules_read rs ! i) = ActionAllow))"
    unfolding * Static_Check_by_decisive_rule by (simp add: NewStaticACL_def)
  moreover have "Static_Check_during (\<lambda>_. rules) p m = Return (Static_Check (NewStaticACL rules) p m)"
    unfolding * by auto
  ultimately show ?thesis by blast
qed

text \<open>A shorter list installed in the middle: the check that was under way panics.\<close>

lemma shorter_list_panics:
  "Static_Check_during (\<lambda>k. if k = 0 then [r, r'] else []) p m = Panic index_panic"
  unfolding Static_Check_during_def Static_Match_during_def match_rounds_eq by (simp add: ex_disj_distrib exI)

text \<open>
  C36. On the patterns with a star at an end, at both ends, or nowhere, \<^verbatim>\<open>matchPattern\<close> has the
  usual meaning of a pattern: the star stands for any sequence of bytes, everything else for
  itself.
\<close>

theorem matchPattern_is_glob_on_edge_patterns:
  assumes "edge_pattern pat"
  shows "matchPattern v pat \<longleftrightarrow> glob pat v"
  by (rule matchPattern_glob [OF assms])

theorem matchPattern_is_glob_on_edge_patterns_witness:
  "edge_pattern ''*calc.*'' \<and> matchPattern ''my.calc.Add'' ''*calc.*'' \<and> \<not> matchPattern ''ca'' ''*calc.*''"
proof -
  have e: "edge_pattern ''*calc.*''"
    unfolding edge_pattern_def by (intro exI [of _ "''calc.''"]) simp
  have "glob ''*calc.*'' ''my.calc.Add''" "\<not> glob ''*calc.*'' ''ca''" by simp_all
  with e matchPattern_is_glob_on_edge_patterns [OF e] show ?thesis by simp
qed

text \<open>
  A pattern whose stars all stand inside is legal but dead: it matches no name at all, not
  even the names it denotes, so a rule to deny \<^verbatim>\<open>admin.*.write\<close> never fires.
\<close>

lemma inner_star_pattern_never_matches:
  assumes "CHR ''*'' \<in> set pat" and "\<not> HasPrefix pat ''*''" and "\<not> HasSuffix pat ''*''"
  shows "\<not> matchPattern v pat"
  by (rule matchPattern_inner [OF assms])

lemma inner_star_pattern_never_matches_witness:
  "\<not> matchPattern ''admin.x.write'' ''admin.*.write'' \<and> glob ''admin.*.write'' ''admin.x.write''"
proof -
  have "\<not> matchPattern ''admin.x.write'' ''admin.*.write''"
    by (rule inner_star_pattern_never_matches) (simp_all add: HasPrefix_def HasSuffix_def)
  then show ?thesis by simp
qed

end
