(* ===== verification/Go_Float.thy ===== *)
theory Go_Float
  imports Mesh_Prelude Complex_Main "HOL-Library.Log_Nat"
begin

section \<open>Go's float64\<close>

text \<open>
  The arithmetic of \<^verbatim>\<open>float64\<close> the retry delays, the failure ratio and the token refill use: a
  value is a rational, an infinity or not a number, and an operation rounds its exact result to
  the nearest 53-bit binary number, ties to the even one (IEEE 754 binary64, which the language
  prescribes). There is one zero: no code here can see the sign of a zero.
\<close>

subsection \<open>Rounding\<close>

definition round_even :: "rat \<Rightarrow> int" where
  "round_even q =
     (let n = \<lfloor>q\<rfloor>; r = q - of_int n in
      if r < 1 / 2 then n else if r > 1 / 2 then n + 1 else if even n then n else n + 1)"

text \<open>The exponent of a positive number: \<open>2 powi binade q \<le> q < 2 powi (binade q + 1)\<close>.\<close>

definition binade :: "rat \<Rightarrow> int" where
  "binade q =
     (let (a, b) = quotient_of q; e = int (floorlog 2 (nat a)) - int (floorlog 2 (nat b)) in
      if 2 powi e \<le> q then e else e - 1)"

definition ulp_exp :: "rat \<Rightarrow> int" where
  "ulp_exp q = max (-1022) (binade q) - 52"

definition rnd_pos :: "rat \<Rightarrow> rat" where
  "rnd_pos q = of_int (round_even (q / 2 powi (ulp_exp q))) * 2 powi (ulp_exp q)"

definition rnd :: "rat \<Rightarrow> rat" where
  "rnd q = (if q = 0 then 0 else if q > 0 then rnd_pos q else - rnd_pos (- q))"

datatype f64 = Fin rat | PosInf | NegInf | NaN

definition fl :: "rat \<Rightarrow> f64" where
  "fl q =
     (let r = rnd q in
      if r \<ge> 2 ^ 1024 then PosInf else if r \<le> - (2 ^ 1024) then NegInf else Fin r)"

subsection \<open>Operations\<close>

definition f_of_int :: "int \<Rightarrow> f64" where
  "f_of_int n = fl (of_int n)"

definition inf_of_sign :: "rat \<Rightarrow> f64" where
  "inf_of_sign x = (if x > 0 then PosInf else if x < 0 then NegInf else NaN)"

fun f_add :: "f64 \<Rightarrow> f64 \<Rightarrow> f64" where
  "f_add (Fin x) (Fin y) = fl (x + y)"
| "f_add NaN y = NaN"
| "f_add x NaN = NaN"
| "f_add PosInf NegInf = NaN"
| "f_add NegInf PosInf = NaN"
| "f_add PosInf y = PosInf"
| "f_add NegInf y = NegInf"
| "f_add (Fin x) y = y"

fun f_sign :: "f64 \<Rightarrow> rat" where
  "f_sign (Fin x) = sgn x"
| "f_sign PosInf = 1"
| "f_sign NegInf = -1"
| "f_sign NaN = 0"

fun f_mul :: "f64 \<Rightarrow> f64 \<Rightarrow> f64" where
  "f_mul (Fin x) (Fin y) = fl (x * y)"
| "f_mul NaN y = NaN"
| "f_mul x NaN = NaN"
| "f_mul x y = inf_of_sign (f_sign x * f_sign y)"

text \<open>A divisor that is zero counts as the positive zero; the code's divisors are positive.\<close>

fun f_div :: "f64 \<Rightarrow> f64 \<Rightarrow> f64" where
  "f_div (Fin x) (Fin y) = (if y = 0 then inf_of_sign x else fl (x / y))"
| "f_div NaN y = NaN"
| "f_div x NaN = NaN"
| "f_div (Fin x) y = Fin 0"
| "f_div x (Fin y) = inf_of_sign (f_sign x * (if y < 0 then -1 else 1))"
| "f_div x y = NaN"

fun f_less :: "f64 \<Rightarrow> f64 \<Rightarrow> bool" where
  "f_less (Fin x) (Fin y) = (x < y)"
| "f_less NaN y = False"
| "f_less x NaN = False"
| "f_less x PosInf = (x \<noteq> PosInf)"
| "f_less NegInf y = (y \<noteq> NegInf)"
| "f_less x y = False"

definition f_le :: "f64 \<Rightarrow> f64 \<Rightarrow> bool" where
  "f_le x y \<longleftrightarrow> f_less x y \<or> (x = y \<and> x \<noteq> NaN)"

text \<open>
  Conversion to a 64-bit integer cuts off the fraction; the result for a value outside the range
  is left open by the language, and is the argument \<open>unrep\<close>.
\<close>

fun f_to_int :: "(f64 \<Rightarrow> int) \<Rightarrow> f64 \<Rightarrow> int" where
  "f_to_int unrep (Fin x) =
     (let n = (if x \<ge> 0 then \<lfloor>x\<rfloor> else \<lceil>x\<rceil>) in if int64_range n then n else unrep (Fin x))"
| "f_to_int unrep x = unrep x"

subsection \<open>Seconds of a duration\<close>

text \<open>Go's integer division and remainder cut off towards zero.\<close>

definition go_quot :: "int \<Rightarrow> int \<Rightarrow> int" where
  "go_quot a b = sgn a * sgn b * (\<bar>a\<bar> div \<bar>b\<bar>)"

definition go_rem :: "int \<Rightarrow> int \<Rightarrow> int" where
  "go_rem a b = a - b * go_quot a b"

definition duration_Seconds :: "duration \<Rightarrow> f64" where
  "duration_Seconds d =
     f_add (f_of_int (go_quot d second)) (f_div (f_of_int (go_rem d second)) (Fin 1000000000))"

subsection \<open>Rounding to integers\<close>

lemma round_even_bounds: "of_int (round_even q) \<le> q + 1 / 2" "q - 1 / 2 \<le> of_int (round_even q)"
proof -
  define n where "n = \<lfloor>q\<rfloor>"
  have n: "of_int n \<le> q" "q < of_int n + 1" unfolding n_def by linarith+
  show "of_int (round_even q) \<le> q + 1 / 2" "q - 1 / 2 \<le> of_int (round_even q)"
    using n unfolding round_even_def Let_def n_def [symmetric] by auto
qed

lemma round_even_int [simp]: "round_even (of_int n) = n"
  by (simp add: round_even_def Let_def)

lemma round_even_mono:
  assumes "p \<le> q"
  shows "round_even p \<le> round_even q"
proof (cases "\<lfloor>p\<rfloor> = \<lfloor>q\<rfloor>")
  case True
  with assms show ?thesis by (auto simp: round_even_def Let_def)
next
  case False
  with assms have "\<lfloor>p\<rfloor> + 1 \<le> \<lfloor>q\<rfloor>" using floor_mono [OF assms] by linarith
  moreover have "round_even p \<le> \<lfloor>p\<rfloor> + 1" "\<lfloor>q\<rfloor> \<le> round_even q"
    by (auto simp: round_even_def Let_def)
  ultimately show ?thesis by linarith
qed

lemma two_powi_pos [simp]: "(0::rat) < 2 powi e"
  by simp

lemma powi_le_iff: "(2::rat) powi a \<le> 2 powi b \<longleftrightarrow> a \<le> b"
  using power_int_strict_increasing [of b a "2::rat"] power_int_increasing [of a b "2::rat"]
  by (metis linorder_not_less one_le_numeral one_less_numeral_iff semiring_norm(76))

lemma floorlog_powi:
  assumes "a > 0"
  shows "2 powi (int (floorlog 2 (nat a)) - 1) \<le> (of_int a :: rat)"
    and "(of_int a :: rat) < 2 powi int (floorlog 2 (nat a))"
proof -
  define l where "l = floorlog 2 (nat a)"
  have l: "2 ^ (l - 1) \<le> nat a" "nat a < 2 ^ l" "l > 0"
    using floorlog_bounds [of "nat a" 2] assms by (auto simp: l_def floorlog_def)
  have i: "(2::int) ^ (l - 1) \<le> a" "a < 2 ^ l"
    using l(1,2) assms by (simp_all add: nat_less_iff le_nat_iff)
  have "(2::rat) ^ (l - 1) \<le> of_int a" "of_int a < (2::rat) ^ l"
    using i by (metis of_int_le_iff of_int_numeral of_int_power, metis of_int_less_iff of_int_numeral of_int_power)
  moreover have "int l - 1 = int (l - 1)" using l(3) by simp
  ultimately show "2 powi (int l - 1) \<le> (of_int a :: rat)" "(of_int a :: rat) < 2 powi int l"
    by (simp_all only: power_int_of_nat)
qed

lemma binade_bounds:
  assumes "0 < q"
  shows "2 powi binade q \<le> q \<and> q < 2 powi (binade q + 1)"
proof -
  obtain a b where ab: "quotient_of q = (a, b)" by (cases "quotient_of q")
  have b: "b > 0" and q: "q = of_int a / of_int b"
    using quotient_of_denom_pos [OF ab] quotient_of_div [OF ab] by simp_all
  with assms have a: "a > 0" by (simp add: zero_less_divide_iff)
  define la lb where "la = int (floorlog 2 (nat a))" and "lb = int (floorlog 2 (nat b))"
  note A = floorlog_powi [OF a, folded la_def] and B = floorlog_powi [OF b, folded lb_def]
  let ?e = "la - lb"
  have "q < 2 powi la / 2 powi (lb - 1)"
    unfolding q by (rule frac_less) (use A B a b in auto)
  also have "\<dots> = 2 powi (?e + 1)"
    using power_int_diff [of "2::rat" la "lb - 1"] by (simp add: algebra_simps)
  finally have hi: "q < 2 powi (?e + 1)" .
  have "2 powi (?e - 1) = 2 powi (la - 1) / (2::rat) powi lb"
    using power_int_diff [of "2::rat" "la - 1" lb] by (simp add: algebra_simps)
  also have "\<dots> \<le> q"
    unfolding q by (rule frac_le) (use A B a b in auto)
  finally have lo: "2 powi (?e - 1) \<le> q" .
  have "binade q = (if 2 powi ?e \<le> q then ?e else ?e - 1)"
    by (simp add: binade_def ab Let_def la_def lb_def)
  with hi lo show ?thesis by (auto split: if_splits)
qed

lemma powi_add: "(2::rat) powi (a + b) = 2 powi a * 2 powi b"
  by (rule power_int_add) simp

lemma powi_nat: "0 \<le> k \<Longrightarrow> (2::rat) powi k = of_int (2 ^ nat k)"
  using power_int_of_nat [of "2::rat" "nat k"] by simp

lemma binade_mono:
  assumes "0 < p" and "p \<le> q"
  shows "binade p \<le> binade q"
proof -
  have "(2::rat) powi binade p < 2 powi (binade q + 1)"
    using binade_bounds [OF assms(1)] binade_bounds [of q] assms by linarith
  then show ?thesis using powi_le_iff [of "binade q + 1" "binade p"] by linarith
qed

text \<open>The numbers with at most 53 binary digits that rounding leaves alone.\<close>

definition representable :: "rat \<Rightarrow> bool" where
  "representable r \<longleftrightarrow> (\<exists>m k. r = of_int m * 2 powi k \<and> \<bar>m\<bar> \<le> 2 ^ 53 \<and> -1074 \<le> k)"

lemma representable_minus: "representable r \<Longrightarrow> representable (- r)"
proof -
  assume "representable r"
  then obtain m k where "r = of_int m * 2 powi k" "\<bar>m\<bar> \<le> 2 ^ 53" "-1074 \<le> k"
    by (auto simp: representable_def)
  then show ?thesis
    unfolding representable_def by (intro exI [of _ "- m"] exI [of _ k]) simp
qed

lemma representable_int: "\<bar>n\<bar> \<le> 2 ^ 53 \<Longrightarrow> representable (of_int n)"
  unfolding representable_def by (intro exI [of _ n] exI [of _ 0]) simp

lemma representable_0 [simp]: "representable 0"
  using representable_int [of 0] by simp

lemma rnd_pos_exact:
  assumes "0 < r" and "representable r"
  shows "rnd_pos r = r"
proof -
  obtain m k where r: "r = of_int m * 2 powi k" and m: "\<bar>m\<bar> \<le> 2 ^ 53" and k: "-1074 \<le> k"
    using assms(2) by (auto simp: representable_def)
  let ?u = "ulp_exp r"
  have "\<exists>n. r / 2 powi ?u = of_int n"
  proof (cases "?u \<le> k")
    case True
    have "r = of_int (m * 2 ^ nat (k - ?u)) * 2 powi ?u"
      using True powi_add [of "k - ?u" ?u] powi_nat [of "k - ?u"] by (simp add: r)
    then show ?thesis by (metis nonzero_mult_div_cancel_right two_powi_pos less_irrefl)
  next
    case False
    with k have "-1022 \<le> binade r" by (cases "-1022 \<le> binade r") (simp_all add: ulp_exp_def)
    then have e: "binade r = ?u + 52" by (simp add: ulp_exp_def)
    with False have ge: "k + 53 \<le> binade r" by simp
    have "(2::rat) powi (k + 53) \<le> of_int m * 2 powi k"
      using binade_bounds [OF assms(1)] ge powi_le_iff [of "k + 53" "binade r"] unfolding r by linarith
    then have "(2::rat) ^ 53 \<le> of_int m"
      using powi_add [of k 53] by (simp add: mult.commute)
    then have "m = 2 ^ 53" using m by simp
    then have "r = 2 powi (k + 53)" using powi_add [of k 53] r by (simp add: mult.commute)
    moreover from this have "binade r \<le> k + 53"
      using binade_bounds [OF assms(1)] powi_le_iff by simp
    ultimately have "r = 2 powi (52 + ?u)" using e ge by (simp add: algebra_simps)
    then have "r = of_int (2 ^ 52) * 2 powi ?u" unfolding powi_add by simp
    then have "r / 2 powi ?u = of_int (2 ^ 52)" by (metis nonzero_mult_div_cancel_right two_powi_pos less_irrefl)
    then show ?thesis by blast
  qed
  then obtain n where n: "r / 2 powi ?u = of_int n" by blast
  then have "r = of_int n * 2 powi ?u" by (simp add: field_simps)
  then show ?thesis by (simp add: rnd_pos_def n)
qed

lemma scaled_bounds:
  assumes "0 < q"
  shows "0 < q / 2 powi ulp_exp q" and "q / 2 powi ulp_exp q \<le> 2 ^ 53"
    and "-1022 < binade q \<Longrightarrow> 2 ^ 52 \<le> q / 2 powi ulp_exp q"
proof -
  show "0 < q / 2 powi ulp_exp q" using assms by simp
  have "q < 2 powi (53 + ulp_exp q)"
    using binade_bounds [OF assms] powi_le_iff [of "binade q + 1" "53 + ulp_exp q"]
    by (simp add: ulp_exp_def)
  then show "q / 2 powi ulp_exp q \<le> 2 ^ 53" unfolding powi_add by (simp add: field_simps)
  show "2 ^ 52 \<le> q / 2 powi ulp_exp q" if "-1022 < binade q"
  proof -
    have "2 powi (52 + ulp_exp q) \<le> q" using that binade_bounds [OF assms] by (simp add: ulp_exp_def max_def)
    then show ?thesis unfolding powi_add by (simp add: field_simps)
  qed
qed

lemma rnd_pos_representable:
  assumes "0 < q"
  shows "representable (rnd_pos q)" and "0 \<le> rnd_pos q"
proof -
  let ?m = "round_even (q / 2 powi ulp_exp q)"
  have "round_even (of_int 0) \<le> ?m"
    using scaled_bounds(1) [OF assms] by (intro round_even_mono) simp
  then have lo: "0 \<le> ?m" by (simp only: round_even_int)
  have "?m \<le> round_even (of_int (2 ^ 53))"
    using scaled_bounds(2) [OF assms] by (intro round_even_mono) simp
  then have hi: "?m \<le> 2 ^ 53" by (simp only: round_even_int)
  show "representable (rnd_pos q)"
    unfolding representable_def rnd_pos_def using lo hi
    by (intro exI [of _ ?m] exI [of _ "ulp_exp q"]) (simp add: ulp_exp_def)
  show "0 \<le> rnd_pos q" unfolding rnd_pos_def using lo by simp
qed

lemma rnd_pos_mono:
  assumes "0 < p" and "p \<le> q"
  shows "rnd_pos p \<le> rnd_pos q"
proof (cases "ulp_exp p = ulp_exp q")
  case True
  have "round_even (p / 2 powi ulp_exp q) \<le> round_even (q / 2 powi ulp_exp q)"
    using assms(2) by (intro round_even_mono divide_right_mono) simp_all
  then show ?thesis unfolding rnd_pos_def True by (intro mult_right_mono) simp_all
next
  case False
  with binade_mono [OF assms] have lt: "ulp_exp p + 1 \<le> ulp_exp q" and norm: "-1022 < binade q"
    by (auto simp: ulp_exp_def max_def split: if_splits)
  have q: "0 < q" using assms by simp
  have "round_even (p / 2 powi ulp_exp p) \<le> round_even (of_int (2 ^ 53))"
    using scaled_bounds(2) [OF assms(1)] by (intro round_even_mono) simp
  then have "(of_int (round_even (p / 2 powi ulp_exp p)) :: rat) \<le> 2 ^ 53"
    unfolding round_even_int using of_int_le_iff [where 'a = rat] by fastforce
  then have "rnd_pos p \<le> 2 ^ 53 * 2 powi ulp_exp p"
    unfolding rnd_pos_def by (intro mult_right_mono) simp_all
  also have "\<dots> = 2 powi (52 + (ulp_exp p + 1))"
    by (simp add: powi_add)
  also have "\<dots> \<le> 2 powi (52 + ulp_exp q)"
    unfolding powi_le_iff using lt by simp
  also have "\<dots> = 2 ^ 52 * 2 powi ulp_exp q" by (simp add: powi_add)
  also have "\<dots> \<le> rnd_pos q"
  proof -
    have "round_even (of_int (2 ^ 52)) \<le> round_even (q / 2 powi ulp_exp q)"
      using scaled_bounds(3) [OF q norm] by (intro round_even_mono) simp
    then have "(2 ^ 52 :: rat) \<le> of_int (round_even (q / 2 powi ulp_exp q))"
      unfolding round_even_int using of_int_le_iff [where 'a = rat] by fastforce
    then show ?thesis unfolding rnd_pos_def by (intro mult_right_mono) simp_all
  qed
  finally show ?thesis .
qed

subsection \<open>What the code relies on\<close>

text \<open>
  The laws of rounding the clients of \<^verbatim>\<open>float64\<close> use, as an interface: the numbers that rounding
  leaves alone, its monotonicity, and that small integers are among them.
\<close>

locale rounding =
  fixes round :: "rat \<Rightarrow> rat" and exact :: "rat \<Rightarrow> bool"
  assumes round_exact: "exact r \<Longrightarrow> round r = r"
    and exact_round: "exact (round q)"
    and round_mono: "p \<le> q \<Longrightarrow> round p \<le> round q"
    and exact_int: "\<bar>n\<bar> \<le> 2 ^ 53 \<Longrightarrow> exact (of_int n)"
begin

lemma round_round [simp]: "round (round q) = round q"
  by (rule round_exact) (rule exact_round)

lemma round_le_exact: "exact b \<Longrightarrow> q \<le> b \<Longrightarrow> round q \<le> b"
  using round_mono [of q b] round_exact [of b] by simp

lemma exact_le_round: "exact b \<Longrightarrow> b \<le> q \<Longrightarrow> b \<le> round q"
  using round_mono [of b q] round_exact [of b] by simp

lemma round_small_int: "\<bar>n\<bar> \<le> 2 ^ 53 \<Longrightarrow> round (of_int n) = of_int n"
  by (rule round_exact) (rule exact_int)

lemma growth:
  assumes "exact x" and "0 \<le> x" and "1 \<le> m"
  shows "x \<le> round (x * m)"
  using assms by (intro exact_le_round) (simp_all add: mult_le_cancel_left1)

lemma quotient_in_unit:
  assumes "0 \<le> a" and "a \<le> b" and "0 < b"
  shows "0 \<le> round (a / b) \<and> round (a / b) \<le> 1"
  using assms exact_int [of 0] exact_int [of 1]
  by (intro conjI exact_le_round round_le_exact) simp_all

end

lemma rnd_mono: "p \<le> q \<Longrightarrow> rnd p \<le> rnd q"
proof -
  assume le: "p \<le> q"
  consider "0 < p" | "p \<le> 0" "0 \<le> q" | "q < 0" by linarith
  then show ?thesis
  proof cases
    case 1
    with le rnd_pos_mono [of p q] show ?thesis by (simp add: rnd_def)
  next
    case 2
    then have "rnd p \<le> 0" "0 \<le> rnd q"
      using rnd_pos_representable(2) [of "- p"] rnd_pos_representable(2) [of q] by (auto simp: rnd_def)
    then show ?thesis by simp
  next
    case 3
    with le rnd_pos_mono [of "- q" "- p"] show ?thesis by (simp add: rnd_def)
  qed
qed

interpretation ieee: rounding rnd representable
proof unfold_locales
  fix r
  assume r: "representable r"
  show "rnd r = r"
    using rnd_pos_exact [OF _ r] rnd_pos_exact [OF _ representable_minus [OF r]] by (simp add: rnd_def)
next
  fix q
  show "representable (rnd q)"
    using rnd_pos_representable(1) [of q] representable_minus [OF rnd_pos_representable(1) [of "- q"]]
    by (cases "0 < q"; cases "q = 0") (simp_all add: rnd_def)
qed (rule rnd_mono representable_int; assumption)+

lemma fl_small_int: "\<bar>n\<bar> \<le> 2 ^ 53 \<Longrightarrow> fl (of_int n) = Fin (of_int n)"
proof -
  assume n: "\<bar>n\<bar> \<le> 2 ^ 53"
  have "(of_int \<bar>n\<bar> :: rat) \<le> 2 ^ 53" using n by (metis of_int_le_iff of_int_numeral of_int_power)
  moreover have "(2 ^ 53 :: rat) < 2 ^ 1024" by simp
  ultimately have "\<bar>of_int n :: rat\<bar> < 2 ^ 1024" unfolding of_int_abs by linarith
  then show ?thesis
    unfolding fl_def Let_def ieee.round_small_int [OF n] by (auto simp: abs_less_iff)
qed

lemma f_of_int_small: "\<bar>n\<bar> \<le> 2 ^ 53 \<Longrightarrow> f_of_int n = Fin (of_int n)"
  by (simp only: f_of_int_def fl_small_int)

lemma fl_bounded:
  assumes "representable b" and "\<bar>q\<bar> \<le> b" and "b < 2 ^ 1024"
  shows "fl q = Fin (rnd q) \<and> \<bar>rnd q\<bar> \<le> b"
proof -
  have "rnd q \<le> b" "- b \<le> rnd q"
    using ieee.round_le_exact [OF assms(1), of q] ieee.exact_le_round [OF representable_minus [OF assms(1)], of q]
      assms(2) by simp_all
  with assms(3) show ?thesis by (auto simp: fl_def Let_def abs_le_iff)
qed

text \<open>One rounding adds at most one part in \<open>2 ^ 53\<close> to a number in the normal range.\<close>

lemma rnd_upper:
  assumes "2 powi -1021 \<le> q \<or> q = 0"
  shows "rnd q \<le> q * (1 + 1 / 2 ^ 53)"
proof (cases "q = 0")
  case False
  with assms have q: "2 powi -1021 \<le> q" by simp
  then have pos: "0 < q" by (meson less_le_trans two_powi_pos)
  let ?u = "2 powi ulp_exp q :: rat"
  have "(2::rat) powi -1021 < 2 powi (binade q + 1)" using q binade_bounds [OF pos] by simp
  then have "-1022 < binade q" using powi_le_iff [of "binade q + 1" "-1021"] by simp
  from scaled_bounds(3) [OF pos this] have "?u * 2 ^ 52 \<le> q" by (simp add: field_simps)
  moreover have "rnd_pos q \<le> (q / ?u + 1 / 2) * ?u"
    unfolding rnd_pos_def by (intro mult_right_mono round_even_bounds(1)) simp
  moreover have "(q / ?u + 1 / 2) * ?u = q + ?u / 2" by (simp add: field_simps)
  ultimately show ?thesis using pos by (simp add: rnd_def algebra_simps)
qed (simp add: rnd_def)

end
