(* ===== verification/Rate_Limit.thy ===== *)
theory Rate_Limit
  imports Go_Float "HOL-Library.Multiset"
begin

section \<open>Rate limiting (pkg/server/ratelimit.go)\<close>

text \<open>
  The three rate limiters behind the Go interface \<^verbatim>\<open>RateLimiter\<close>. A limiter keys its state by
  \<^verbatim>\<open>peerID + ":" + method\<close>. The contract of a limiter's user, who releases what was admitted to
  him once, is a locale; each limiter is an instance, and the concurrency limiter one that bounds
  what is in flight.
\<close>

definition limit_key :: "string \<Rightarrow> string \<Rightarrow> string" where
  "limit_key peerID method = peerID @ '':'' @ method"

subsection \<open>The token bucket\<close>

record bucket =
  bk_tokens :: int
  bk_lastRefill :: instant

record token_bucket =
  tb_rate :: int
  tb_burst :: int
  tb_buckets :: "string \<rightharpoonup> bucket"

definition NewTokenBucketLimiter :: "int \<Rightarrow> int \<Rightarrow> token_bucket" where
  "NewTokenBucketLimiter rate burst = \<lparr>tb_rate = rate, tb_burst = burst, tb_buckets = Map.empty\<rparr>"

definition tokens_due :: "(f64 \<Rightarrow> int) \<Rightarrow> int \<Rightarrow> duration \<Rightarrow> int" where
  "tokens_due unrep rate elapsed = f_to_int unrep (f_mul (duration_Seconds elapsed) (f_of_int rate))"

text \<open>\<open>made\<close> is the clock when a missing bucket is made, \<open>now\<close> the clock read after it.\<close>

definition TokenBucket_Allow ::
  "(f64 \<Rightarrow> int) \<Rightarrow> instant \<times> instant \<Rightarrow> string \<Rightarrow> string \<Rightarrow> token_bucket \<Rightarrow> bool \<times> token_bucket" where
  "TokenBucket_Allow unrep t peerID method tbl =
     (let key = limit_key peerID method;
          made = fst t; now = snd t;
          b = (case tb_buckets tbl key of
                 None \<Rightarrow> \<lparr>bk_tokens = tb_burst tbl, bk_lastRefill = made\<rparr>
               | Some b \<Rightarrow> b);
          tokensToAdd = tokens_due unrep (tb_rate tbl) (time_Sub now (bk_lastRefill b));
          b1 = (if tokensToAdd > 0 then
                  \<lparr>bk_tokens = (let n = wrap64 (bk_tokens b + tokensToAdd) in if n > tb_burst tbl then tb_burst tbl else n),
                   bk_lastRefill = now\<rparr>
                else b)
      in if bk_tokens b1 > 0
         then (True, tbl\<lparr>tb_buckets := (tb_buckets tbl)(key \<mapsto> b1\<lparr>bk_tokens := bk_tokens b1 - 1\<rparr>)\<rparr>)
         else (False, tbl\<lparr>tb_buckets := (tb_buckets tbl)(key \<mapsto> b1)\<rparr>))"

definition TokenBucket_Release :: "string \<Rightarrow> string \<Rightarrow> token_bucket \<Rightarrow> token_bucket" where
  "TokenBucket_Release peerID method tbl = tbl"

subsection \<open>The concurrency limiter\<close>

record concurrency_limiter =
  cl_maxConcurrent :: int
  cl_current :: "string \<rightharpoonup> int"

definition NewConcurrencyLimiter :: "int \<Rightarrow> concurrency_limiter" where
  "NewConcurrencyLimiter m = \<lparr>cl_maxConcurrent = m, cl_current = Map.empty\<rparr>"

definition Concurrency_Allow :: "string \<Rightarrow> string \<Rightarrow> concurrency_limiter \<Rightarrow> bool \<times> concurrency_limiter" where
  "Concurrency_Allow peerID method cl =
     (let key = limit_key peerID method in
      if map_get 0 (cl_current cl) key < cl_maxConcurrent cl
      then (True, cl\<lparr>cl_current := (cl_current cl)(key \<mapsto> map_get 0 (cl_current cl) key + 1)\<rparr>)
      else (False, cl))"

definition Concurrency_Release :: "string \<Rightarrow> string \<Rightarrow> concurrency_limiter \<Rightarrow> concurrency_limiter" where
  "Concurrency_Release peerID method cl =
     (let key = limit_key peerID method in
      if map_get 0 (cl_current cl) key > 0
      then cl\<lparr>cl_current := (cl_current cl)(key \<mapsto> map_get 0 (cl_current cl) key - 1)\<rparr>
      else cl)"

subsection \<open>A value of the interface type\<close>

datatype rate_limiter =
    TokenBucketLimiter token_bucket
  | ConcurrencyLimiter concurrency_limiter
  | NoOpLimiter

definition NewNoOpLimiter :: rate_limiter where
  "NewNoOpLimiter = NoOpLimiter"

fun Limiter_Allow ::
  "(f64 \<Rightarrow> int) \<Rightarrow> instant \<times> instant \<Rightarrow> string \<Rightarrow> string \<Rightarrow> rate_limiter \<Rightarrow> bool \<times> rate_limiter" where
  "Limiter_Allow unrep t peerID method (TokenBucketLimiter tb) =
     (case TokenBucket_Allow unrep t peerID method tb of (b, tb1) \<Rightarrow> (b, TokenBucketLimiter tb1))"
| "Limiter_Allow unrep t peerID method (ConcurrencyLimiter cl) =
     (case Concurrency_Allow peerID method cl of (b, cl1) \<Rightarrow> (b, ConcurrencyLimiter cl1))"
| "Limiter_Allow unrep t peerID method NoOpLimiter = (True, NoOpLimiter)"

fun Limiter_Release :: "string \<Rightarrow> string \<Rightarrow> rate_limiter \<Rightarrow> rate_limiter" where
  "Limiter_Release peerID method (TokenBucketLimiter tb) = TokenBucketLimiter (TokenBucket_Release peerID method tb)"
| "Limiter_Release peerID method (ConcurrencyLimiter cl) = ConcurrencyLimiter (Concurrency_Release peerID method cl)"
| "Limiter_Release peerID method NoOpLimiter = NoOpLimiter"

subsection \<open>The contract\<close>

text \<open>
  A limiter and its user agree on what is admitted and not yet released, a multiset of keys:
  \<open>agrees s M\<close>. Admission adds to it, refusal and release by a holder keep the agreement.
\<close>

locale limiter_contract =
  fixes allow :: "'t \<Rightarrow> string \<Rightarrow> string \<Rightarrow> 's \<Rightarrow> bool \<times> 's"
    and release :: "string \<Rightarrow> string \<Rightarrow> 's \<Rightarrow> 's"
    and agrees :: "'s \<Rightarrow> string multiset \<Rightarrow> bool"
  assumes admit_law: "agrees s M \<Longrightarrow> allow t p m s = (True, s') \<Longrightarrow> agrees s' (add_mset (limit_key p m) M)"
    and refuse_law: "agrees s M \<Longrightarrow> allow t p m s = (False, s') \<Longrightarrow> agrees s' M"
    and release_law: "agrees s (add_mset (limit_key p m) M) \<Longrightarrow> agrees (release p m s) M"
begin

lemma paired_use:
  assumes "agrees s M" and "allow t p m s = (True, s')"
  shows "agrees (release p m s') M"
  using release_law [OF admit_law [OF assms]] .

end

locale bounded_limiter = limiter_contract allow release agrees
  for allow :: "'t \<Rightarrow> string \<Rightarrow> string \<Rightarrow> 's \<Rightarrow> bool \<times> 's" and release agrees +
  fixes bound :: "'s \<Rightarrow> int"
  assumes bound_law: "agrees s M \<Longrightarrow> 0 \<le> bound s \<Longrightarrow> int (count M k) \<le> bound s"
    and allow_iff: "agrees s M \<Longrightarrow> fst (allow t p m s) \<longleftrightarrow> int (count M (limit_key p m)) < bound s"
    and bound_frame: "bound (snd (allow t p m s)) = bound s" "bound (release p m s) = bound s"
begin

lemma full_refuses: "agrees s M \<Longrightarrow> int (count M (limit_key p m)) = bound s \<Longrightarrow> \<not> fst (allow t p m s)"
  using allow_iff by simp

end

definition cl_agrees :: "concurrency_limiter \<Rightarrow> string multiset \<Rightarrow> bool" where
  "cl_agrees cl M \<longleftrightarrow>
     (\<forall>k. map_get 0 (cl_current cl) k = int (count M k) \<and> int (count M k) \<le> max 0 (cl_maxConcurrent cl))"

lemma map_get_upd [simp]: "map_get z (m(k \<mapsto> v)) j = (if j = k then v else map_get z m j)"
  by (simp add: map_get_def)

lemma cl_agrees_New: "cl_agrees (NewConcurrencyLimiter n) {#}"
  by (simp add: cl_agrees_def NewConcurrencyLimiter_def map_get_def)

interpretation concurrency: bounded_limiter "\<lambda>_::unit. Concurrency_Allow" Concurrency_Release cl_agrees cl_maxConcurrent
proof unfold_locales
  fix s M p m s'
  assume s: "cl_agrees s M"
  show "Concurrency_Allow p m s = (True, s') \<Longrightarrow> cl_agrees s' (add_mset (limit_key p m) M)"
    using s by (auto simp: Concurrency_Allow_def cl_agrees_def Let_def split: if_splits)
  show "Concurrency_Allow p m s = (False, s') \<Longrightarrow> cl_agrees s' M"
    using s by (auto simp: Concurrency_Allow_def Let_def split: if_splits)
  show "fst (Concurrency_Allow p m s) \<longleftrightarrow> int (count M (limit_key p m)) < cl_maxConcurrent s"
    using s by (simp add: Concurrency_Allow_def cl_agrees_def Let_def)
next
  fix s M p m
  assume s: "cl_agrees s (add_mset (limit_key p m) M)"
  have "count (add_mset (limit_key p m) M) k = (if k = limit_key p m then Suc (count M k) else count M k)" for k by simp
  with s show "cl_agrees (Concurrency_Release p m s) M"
    unfolding cl_agrees_def Concurrency_Release_def Let_def by (auto split: if_splits)
next
  fix s M k
  assume "cl_agrees s M" and "0 \<le> cl_maxConcurrent s"
  then show "int (count M k) \<le> cl_maxConcurrent s" by (simp add: cl_agrees_def)
next
  fix p m s
  show "cl_maxConcurrent (snd (Concurrency_Allow p m s)) = cl_maxConcurrent s"
    and "cl_maxConcurrent (Concurrency_Release p m s) = cl_maxConcurrent s"
    by (simp_all add: Concurrency_Allow_def Concurrency_Release_def Let_def)
qed


subsection \<open>Token buckets\<close>

text \<open>What a token bucket keeps: no bucket holds more than the burst.\<close>

definition tb_bounded :: "token_bucket \<Rightarrow> bool" where
  "tb_bounded tb \<longleftrightarrow> (\<forall>k b. tb_buckets tb k = Some b \<longrightarrow> bk_tokens b \<le> tb_burst tb)"

lemma TokenBucket_Allow_bounded:
  assumes "tb_bounded tb" and "TokenBucket_Allow unrep t p m tb = (r, tb')"
  shows "tb_bounded tb' \<and> tb_burst tb' = tb_burst tb \<and> tb_rate tb' = tb_rate tb"
proof -
  have old: "tb_buckets tb (limit_key p m) = Some b \<Longrightarrow> bk_tokens b \<le> tb_burst tb" for b
    using assms(1) by (simp add: tb_bounded_def)
  have "\<exists>b1. tb' = tb\<lparr>tb_buckets := (tb_buckets tb)(limit_key p m \<mapsto> b1)\<rparr> \<and> bk_tokens b1 \<le> tb_burst tb"
  proof (cases "tb_buckets tb (limit_key p m)")
    case None
    with assms(2) show ?thesis by (auto simp: TokenBucket_Allow_def Let_def split: if_splits)
  next
    case (Some b)
    with assms(2) old [OF Some] show ?thesis by (auto simp: TokenBucket_Allow_def Let_def split: if_splits)
  qed
  with assms(1) show ?thesis by (auto simp: tb_bounded_def split: if_splits)
qed

subsection \<open>Every limiter keeps the contract\<close>

fun limiter_agrees :: "rate_limiter \<Rightarrow> string multiset \<Rightarrow> bool" where
  "limiter_agrees (ConcurrencyLimiter cl) M = cl_agrees cl M"
| "limiter_agrees (TokenBucketLimiter tb) M = tb_bounded tb"
| "limiter_agrees NoOpLimiter M = True"

interpretation limiter: limiter_contract "Limiter_Allow unrep" Limiter_Release limiter_agrees for unrep
proof unfold_locales
  fix s M t p m s'
  assume s: "limiter_agrees s M"
  show "Limiter_Allow unrep t p m s = (True, s') \<Longrightarrow> limiter_agrees s' (add_mset (limit_key p m) M)"
    using s by (cases s) (auto intro: concurrency.admit_law dest: TokenBucket_Allow_bounded split: prod.splits)
  show "Limiter_Allow unrep t p m s = (False, s') \<Longrightarrow> limiter_agrees s' M"
    using s by (cases s) (auto intro: concurrency.refuse_law dest: TokenBucket_Allow_bounded split: prod.splits)
next
  fix s p m M
  assume "limiter_agrees s (add_mset (limit_key p m) M)"
  then show "limiter_agrees (Limiter_Release p m s) M"
    by (cases s) (auto intro: concurrency.release_law simp: TokenBucket_Release_def)
qed

text \<open>Calls for one key that no token becomes due for, at the given times.\<close>

fun tb_calls :: "(f64 \<Rightarrow> int) \<Rightarrow> (instant \<times> instant) list \<Rightarrow> string \<Rightarrow> string \<Rightarrow> token_bucket \<Rightarrow> bool list" where
  "tb_calls unrep [] p m tb = []"
| "tb_calls unrep (t # ts) p m tb =
     (case TokenBucket_Allow unrep t p m tb of (r, tb1) \<Rightarrow> r # tb_calls unrep ts p m tb1)"

lemma TokenBucket_Allow_no_refill:
  assumes "tb_buckets tb (limit_key p m) = Some b"
    and "tokens_due unrep (tb_rate tb) (time_Sub (snd t) (bk_lastRefill b)) \<le> 0"
  shows "TokenBucket_Allow unrep t p m tb =
    (0 < bk_tokens b,
     tb\<lparr>tb_buckets := (tb_buckets tb)(limit_key p m \<mapsto>
        (if 0 < bk_tokens b then b\<lparr>bk_tokens := bk_tokens b - 1\<rparr> else b))\<rparr>)"
  using assms by (simp add: TokenBucket_Allow_def Let_def)

lemma tb_calls_drain:
  assumes "tb_buckets tb (limit_key p m) = Some b" and "bk_tokens b = int k"
    and "\<forall>t \<in> set ts. tokens_due unrep (tb_rate tb) (time_Sub (snd t) (bk_lastRefill b)) \<le> 0"
  shows "tb_calls unrep ts p m tb = replicate (min k (length ts)) True @ replicate (length ts - k) False"
  using assms
proof (induction ts arbitrary: tb b k)
  case (Cons t ts)
  have due: "tokens_due unrep (tb_rate tb) (time_Sub (snd t) (bk_lastRefill b)) \<le> 0" using Cons.prems(3) by simp
  note step = TokenBucket_Allow_no_refill [OF Cons.prems(1) due]
  show ?case
  proof (cases k)
    case 0
    with Cons.prems show ?thesis
      unfolding tb_calls.simps step prod.case
      by (subst Cons.IH [where b = b and k = 0]) simp_all
  next
    case (Suc j)
    with Cons.prems show ?thesis
      unfolding tb_calls.simps step prod.case
      by (subst Cons.IH [where b = "b\<lparr>bk_tokens := bk_tokens b - 1\<rparr>" and k = j]) simp_all
  qed
qed simp

subsection \<open>Properties\<close>

text \<open>
  A token bucket admits a burst and no more: of the calls made for a new key before the first
  new token is due, in any number, exactly the first \<open>burst\<close> are admitted.
\<close>

lemma token_bucket_admits_exactly_the_burst:
  assumes "tb_buckets tb (limit_key p m) = None" and "tb_burst tb = int k" and "ts = (made, now) # rest"
    and "\<forall>t \<in> set ts. tokens_due unrep (tb_rate tb) (time_Sub (snd t) made) \<le> 0"
  shows "tb_calls unrep ts p m tb = replicate (min k (length ts)) True @ replicate (length ts - k) False"
proof -
  let ?b = "\<lparr>bk_tokens = tb_burst tb, bk_lastRefill = made\<rparr>"
  let ?tb = "tb\<lparr>tb_buckets := (tb_buckets tb)(limit_key p m \<mapsto> ?b)\<rparr>"
  have "TokenBucket_Allow unrep (made, now) p m tb = TokenBucket_Allow unrep (made, now) p m ?tb"
    using assms(1) by (simp add: TokenBucket_Allow_def Let_def)
  then have "tb_calls unrep ts p m tb = tb_calls unrep ts p m ?tb" by (simp add: assms(3))
  moreover have "tb_calls unrep ts p m ?tb = replicate (min k (length ts)) True @ replicate (length ts - k) False"
    by (rule tb_calls_drain [where b = ?b]) (use assms(2,4) in simp_all)
  ultimately show ?thesis by simp
qed

lemma no_time_no_tokens: "\<bar>rate\<bar> \<le> 2 ^ 53 \<Longrightarrow> tokens_due unrep rate 0 = 0"
  using f_of_int_small [of 0] f_of_int_small [of rate] fl_small_int [of 0]
  by (simp add: tokens_due_def duration_Seconds_def go_quot_def go_rem_def int64_defs)

lemma token_bucket_admits_exactly_the_burst_witness:
  "tb_calls (\<lambda>_. 0) [(5, 5), (5, 5), (5, 5)] ''a'' ''m'' (NewTokenBucketLimiter 10 2) = [True, True, False]"
proof -
  have "tb_calls (\<lambda>_. 0) [(5, 5), (5, 5), (5, 5)] ''a'' ''m'' (NewTokenBucketLimiter 10 2) =
      replicate (min 2 (length [(5::int, 5::int), (5, 5), (5, 5)])) True @
      replicate (length [(5::int, 5::int), (5, 5), (5, 5)] - 2) False"
    by (rule token_bucket_admits_exactly_the_burst [where made = 5 and now = 5 and rest = "[(5, 5), (5, 5)]"])
       (use no_time_no_tokens [of 10 "\<lambda>_. 0"] in \<open>simp_all add: NewTokenBucketLimiter_def\<close>)
  also have "\<dots> = [True, True, False]" by (simp add: numeral_eq_Suc)
  finally show ?thesis .
qed

text \<open>Two different calls share a limit when the colon can be read in two places.\<close>

lemma limit_key_collision: "limit_key ''a:b'' ''c'' = limit_key ''a'' ''b:c''"
  by (simp add: limit_key_def)

end
