(* ===== verification/Reverse_Gateway.thy ===== *)
theory Reverse_Gateway
  imports Registry_Properties Control_Stream "HOL-Library.Multiset"
begin

section \<open>Reverse calls (pkg/reverse/dialer.go, gateway.go)\<close>

text \<open>
  The gateway turns a request for a peer into a gRPC call over a yamux stream of the peer's
  session. gRPC is a library: \<open>grpc_Dial\<close> stands for \<^verbatim>\<open>grpc.DialContext\<close>, which is given the
  gateway's way to open a stream, and \<open>client_Invoke\<close> for the generated client's call. A context
  is its deadline; cancelling it is only done on return. Texts of errors and codes are made by
  the library (\<open>Error\<close>, \<open>Code_String\<close>).
\<close>

subsection \<open>Contexts\<close>

record go_ctx =
  ctx_deadline :: "instant option"

definition WithTimeout :: "instant \<Rightarrow> duration \<Rightarrow> go_ctx \<Rightarrow> go_ctx" where
  "WithTimeout now d ctx =
     (case ctx_deadline ctx of
        None \<Rightarrow> ctx\<lparr>ctx_deadline := Some (now + d)\<rparr>
      | Some t \<Rightarrow> if t < now + d then ctx else ctx\<lparr>ctx_deadline := Some (now + d)\<rparr>)"

definition WithCancel :: "go_ctx \<Rightarrow> go_ctx" where
  "WithCancel ctx = ctx"

subsection \<open>Messages\<close>

record invoke_request =
  rq_PeerId :: string
  rq_Method :: string
  rq_Payload :: "byte list"
  rq_CorrelationId :: string
  rq_TimeoutMs :: "32 word"

record error_detail =
  ed_Code :: string
  ed_Message :: string

record invoke_response =
  ir_PeerId :: string
  ir_Method :: string
  ir_Result :: "byte list"
  ir_Success :: bool
  ir_Error :: "error_detail option"
  ir_CorrelationId :: string
  ir_ElapsedMs :: "64 word"

definition Milliseconds :: "duration \<Rightarrow> int" where
  "Milliseconds d = sgn d * (\<bar>d\<bar> div millisecond)"

definition elapsed_ms :: "instant \<Rightarrow> instant \<Rightarrow> 64 word" where
  "elapsed_ms start now = word_of_int (Milliseconds (time_Sub now start))"

subsection \<open>The dialer\<close>

abbreviation ErrMissingPeerID :: go_error where
  "ErrMissingPeerID \<equiv> Sentinel ''reverse.ErrMissingPeerID''"
abbreviation errMissingTarget :: go_error where
  "errMissingTarget \<equiv> Sentinel ''reverse.errMissingTarget''"

record dialer =
  dl_dialTimeout :: duration

definition NewDialer :: dialer where
  "NewDialer = \<lparr>dl_dialTimeout = 10 * second\<rparr>"

definition WithDialTimeout :: "duration \<Rightarrow> dialer \<Rightarrow> dialer" where
  "WithDialTimeout d dl = dl\<lparr>dl_dialTimeout := d\<rparr>"

definition DialContext :: "'str stream_race \<Rightarrow> peer_id \<Rightarrow> registry \<Rightarrow> 'str result outcome" where
  "DialContext race peerID st =
     bind_outcome (OpenStream race peerID st) (\<lambda>r.
       Return (case r of
                 Inl e \<Rightarrow> Inl (Wrapf ''failed to open stream: %w'' [] e)
               | Inr stream \<Rightarrow> Inr stream))"

text \<open>
  What surrounds one call of the gateway: the outcome of the race for the stream, the library,
  the clock, and the registry when the stream is opened (\<open>at_dial\<close> of the registry before).
\<close>

record ('str, 'cc) call_env =
  ce_race :: "go_ctx \<Rightarrow> 'str stream_race"
  ce_grpc_Dial :: "go_ctx \<Rightarrow> string \<Rightarrow> (go_ctx \<Rightarrow> 'str result outcome) \<Rightarrow> 'cc result outcome"
  ce_client_Invoke :: "'cc \<Rightarrow> go_ctx \<Rightarrow> invoke_request \<Rightarrow> invoke_response result"
  ce_start :: instant
  ce_dialing :: instant
  ce_finish :: instant
  ce_Error :: "go_error \<Rightarrow> string"
  ce_FromError :: "go_error \<Rightarrow> (grpc_code \<times> string) option"
  ce_Code_String :: "grpc_code \<Rightarrow> string"

definition DialPeer ::
  "('str, 'cc) call_env \<Rightarrow> dialer \<Rightarrow> go_ctx \<Rightarrow> peer_id \<Rightarrow> registry \<Rightarrow> 'cc result outcome" where
  "DialPeer env d ctx peerID st =
     (if peerID = '''' then Return (Inl ErrMissingPeerID)
      else
        bind_outcome
          (ce_grpc_Dial env (WithTimeout (ce_dialing env) (dl_dialTimeout d) ctx)
             (''passthrough:///'' @ peerID) (\<lambda>c. DialContext (ce_race env c) peerID st))
          (\<lambda>r. Return (case r of
                          Inl e \<Rightarrow> Inl (Wrapf ''failed to dial: %w'' [] e)
                        | Inr conn \<Rightarrow> Inr conn)))"

definition parseTarget :: "string \<Rightarrow> peer_id result" where
  "parseTarget target =
     (if target = '''' then Inl errMissingTarget
      else if length target > 15 \<and> take 15 target = ''passthrough:///'' then Inr (drop 15 target)
      else Inr target)"

subsection \<open>The gateway\<close>

record gateway =
  gw_dialer :: dialer
  gw_timeout :: duration

definition NewGateway :: gateway where
  "NewGateway = \<lparr>gw_dialer = NewDialer, gw_timeout = 30 * second\<rparr>"

definition WithInvokeTimeout :: "duration \<Rightarrow> gateway \<Rightarrow> gateway" where
  "WithInvokeTimeout d g = g\<lparr>gw_timeout := d\<rparr>"

definition ensureDeadline :: "instant \<Rightarrow> gateway \<Rightarrow> go_ctx \<Rightarrow> 32 word \<Rightarrow> go_ctx" where
  "ensureDeadline now g ctx timeoutMs =
     (if timeoutMs > 0 then WithTimeout now (uint timeoutMs * millisecond) ctx
      else if gw_timeout g > 0 then WithTimeout now (gw_timeout g) ctx
      else WithCancel ctx)"

definition failed_response :: "invoke_request \<Rightarrow> string \<Rightarrow> string \<Rightarrow> 64 word \<Rightarrow> invoke_response" where
  "failed_response req code msg ms =
     \<lparr>ir_PeerId = rq_PeerId req, ir_Method = rq_Method req, ir_Result = [], ir_Success = False,
      ir_Error = Some \<lparr>ed_Code = code, ed_Message = msg\<rparr>, ir_CorrelationId = '''', ir_ElapsedMs = ms\<rparr>"

text \<open>
  Which gRPC connections the program holds open is a state of its own, a multiset that dialling adds
  to and \<^verbatim>\<open>conn.Close\<close> takes from. A deferred \<^verbatim>\<open>Close\<close> is applied to the state the function returns.
\<close>

definition DialPeer_conns ::
  "('str, 'cc) call_env \<Rightarrow> dialer \<Rightarrow> go_ctx \<Rightarrow> peer_id \<Rightarrow> registry \<Rightarrow> 'cc multiset
     \<Rightarrow> ('cc result \<times> 'cc multiset) outcome" where
  "DialPeer_conns env d ctx peerID st conns =
     bind_outcome (DialPeer env d ctx peerID st) (\<lambda>dialed.
       Return (dialed, case dialed of Inl err \<Rightarrow> conns | Inr conn \<Rightarrow> add_mset conn conns))"

definition conn_Close :: "'cc \<Rightarrow> 'cc multiset \<Rightarrow> 'cc multiset" where
  "conn_Close conn conns = conns - {#conn#}"

definition Gateway_Invoke_conns ::
  "('str, 'cc) call_env \<Rightarrow> gateway \<Rightarrow> go_ctx \<Rightarrow> peer_id \<Rightarrow> invoke_request \<Rightarrow> registry \<Rightarrow> 'cc multiset
     \<Rightarrow> (invoke_response result \<times> 'cc multiset) outcome" where
  "Gateway_Invoke_conns env g ctx peerID req st conns =
     (let ctx1 = ensureDeadline (ce_start env) g ctx (rq_TimeoutMs req);
          ms = elapsed_ms (ce_start env) (ce_finish env)
      in bind_outcome (DialPeer_conns env (gw_dialer g) ctx1 peerID st conns) (\<lambda>(dialed, conns1).
        Return
          (case dialed of
             Inl err \<Rightarrow>
               (Inr (failed_response req ''DIAL_FAILED'' (''failed to dial peer: '' @ ce_Error env err) ms), conns1)
           | Inr conn \<Rightarrow>
               (case ce_client_Invoke env conn ctx1 req of
                  Inl err \<Rightarrow>
                    (let (code, msg) = (case ce_FromError env err of
                                          None \<Rightarrow> (Unknown, ce_Error env err)
                                        | Some st \<Rightarrow> st)
                     in Inr (failed_response req (ce_Code_String env code) msg ms))
                | Inr resp \<Rightarrow> Inr resp, conn_Close conn conns1))))"

text \<open>The answer of a call alone.\<close>

definition Gateway_Invoke ::
  "('str, 'cc) call_env \<Rightarrow> gateway \<Rightarrow> go_ctx \<Rightarrow> peer_id \<Rightarrow> invoke_request \<Rightarrow> registry
     \<Rightarrow> invoke_response result outcome" where
  "Gateway_Invoke env g ctx peerID req st =
     bind_outcome (Gateway_Invoke_conns env g ctx peerID req st {#}) (\<lambda>(answer, conns). Return answer)"

text \<open>
  The streaming call: \<open>open_stream\<close> is the generated client's \<^verbatim>\<open>InvokeStream\<close>. The returned
  connection stands for the cleanup function, which is \<open>stream_cleanup\<close> of it.
\<close>

definition Gateway_InvokeStream ::
  "('str, 'cc) call_env \<Rightarrow> ('cc \<Rightarrow> go_ctx \<Rightarrow> 'st result) \<Rightarrow> gateway \<Rightarrow> go_ctx \<Rightarrow> peer_id \<Rightarrow> registry
     \<Rightarrow> 'cc multiset \<Rightarrow> (('st \<times> 'cc) result \<times> 'cc multiset) outcome" where
  "Gateway_InvokeStream env open_stream g ctx peerID st conns =
     bind_outcome (DialPeer_conns env (gw_dialer g) ctx peerID st conns) (\<lambda>(dialed, conns1).
       Return
         (case dialed of
            Inl err \<Rightarrow> (Inl (Wrapf ''failed to dial peer: %w'' [] err), conns1)
          | Inr conn \<Rightarrow>
              (case open_stream conn ctx of
                 Inl err \<Rightarrow> (Inl (Wrapf ''failed to create stream: %w'' [] err), conn_Close conn conns1)
               | Inr stream \<Rightarrow> (Inr (stream, conn), conns1))))"

text \<open>\<^verbatim>\<open>stream.CloseSend\<close> tells the peer only; its result is dropped.\<close>

definition stream_cleanup :: "'cc \<Rightarrow> 'cc multiset \<Rightarrow> 'cc multiset" where
  "stream_cleanup conn conns = conn_Close conn conns"

definition Gateway_Dial ::
  "('str, 'cc) call_env \<Rightarrow> gateway \<Rightarrow> go_ctx \<Rightarrow> peer_id \<Rightarrow> registry \<Rightarrow> 'cc multiset
     \<Rightarrow> ('cc result \<times> 'cc multiset) outcome" where
  "Gateway_Dial env g ctx peerID st conns = DialPeer_conns env (gw_dialer g) ctx peerID st conns"

subsection \<open>What the code relies on\<close>

text \<open>
  Of \<^verbatim>\<open>grpc.DialContext\<close>: it panics only if the dialer it was given does, and, because of
  \<^verbatim>\<open>WithBlock\<close>, it fails when that dialer never succeeds.
\<close>

definition dial_returns :: "('str, 'cc) call_env \<Rightarrow> bool" where
  "dial_returns env \<longleftrightarrow>
     (\<forall>ctx t f. (\<forall>c. returns (f c)) \<longrightarrow> returns (ce_grpc_Dial env ctx t f))"

definition dial_blocks :: "('str, 'cc) call_env \<Rightarrow> bool" where
  "dial_blocks env \<longleftrightarrow>
     (\<forall>ctx t f. (\<forall>c. \<exists>e. f c = Return (Inl e)) \<longrightarrow> (\<exists>e. ce_grpc_Dial env ctx t f = Return (Inl e)))"

text \<open>A peer that cannot be reached: not registered, marked disconnected, or without yamux session.\<close>

definition offline :: "registry \<Rightarrow> peer_id \<Rightarrow> bool" where
  "offline st p \<longleftrightarrow>
     (case reg_sessions st p of
        None \<Rightarrow> True
      | Some a \<Rightarrow> (case reg_heap st a of None \<Rightarrow> True | Some s \<Rightarrow> \<not> ss_Connected s \<or> ss_Session s = None))"

subsection \<open>Lemmas\<close>

lemma OpenStream_returns:
  assumes "reg_wf st"
  shows "returns (OpenStream race p st)"
proof (cases "reg_sessions st p")
  case None
  then show ?thesis by (simp add: OpenStream_def)
next
  case (Some a)
  obtain s where "reg_heap st a = Some s" using reg_wf_entry [OF assms Some] by metis
  with Some show ?thesis by (simp add: OpenStream_def)
qed

lemma OpenStream_offline:
  assumes "reg_wf st" and "offline st p"
  shows "\<exists>e. OpenStream race p st = Return (Inl e)"
proof (cases "reg_sessions st p")
  case None
  then show ?thesis by (simp add: OpenStream_def)
next
  case (Some a)
  obtain s where "reg_heap st a = Some s" using reg_wf_entry [OF assms(1) Some] by metis
  with Some assms(2) show ?thesis by (simp add: OpenStream_def offline_def)
qed

lemma DialContext_offline:
  "reg_wf st \<Longrightarrow> offline st p \<Longrightarrow> \<exists>e. DialContext race p st = Return (Inl e)"
  using OpenStream_offline [of st p race] by (auto simp: DialContext_def)

lemma DialPeer_returns:
  assumes "reg_wf st" and "dial_returns env"
  obtains r where "DialPeer env d ctx p st = Return r"
proof -
  have "returns (DialContext (ce_race env c) p st)" for c
    using OpenStream_returns [OF assms(1), of "ce_race env c" p]
    by (auto simp: DialContext_def returns_iff)
  then have "returns (ce_grpc_Dial env (WithTimeout (ce_dialing env) (dl_dialTimeout d) ctx)
      (''passthrough:///'' @ p) (\<lambda>c. DialContext (ce_race env c) p st))"
    using assms(2) by (simp add: dial_returns_def)
  then have "returns (DialPeer env d ctx p st)"
    by (auto simp: DialPeer_def returns_iff)
  then show ?thesis using that by (auto simp: returns_iff)
qed

lemma DialPeer_offline:
  assumes "reg_wf st" and "dial_blocks env" and "offline st p"
  shows "\<exists>e. DialPeer env d ctx p st = Return (Inl e)"
proof -
  have "\<forall>c. \<exists>e. DialContext (ce_race env c) p st = Return (Inl e)"
    using DialContext_offline [OF assms(1,3)] by blast
  with assms(2) obtain e where "ce_grpc_Dial env (WithTimeout (ce_dialing env) (dl_dialTimeout d) ctx)
      (''passthrough:///'' @ p) (\<lambda>c. DialContext (ce_race env c) p st) = Return (Inl e)"
    unfolding dial_blocks_def by metis
  then show ?thesis by (simp add: DialPeer_def)
qed

lemma Gateway_Invoke_answers:
  assumes "reg_wf st" and "dial_returns env"
  obtains resp where "Gateway_Invoke env g ctx p req st = Return (Inr resp)"
proof -
  obtain r where "DialPeer env (gw_dialer g) (ensureDeadline (ce_start env) g ctx (rq_TimeoutMs req)) p st = Return r"
    using DialPeer_returns [OF assms] .
  then have "\<exists>resp. Gateway_Invoke env g ctx p req st = Return (Inr resp)"
    by (auto simp: Gateway_Invoke_def Gateway_Invoke_conns_def DialPeer_conns_def Let_def
        split: sum.split option.split prod.split)
  then show ?thesis using that by blast
qed

subsection \<open>Properties\<close>

text \<open>
  A reverse call never returns an error: whatever the library answers, the caller gets a
  response. For a peer that is offline it is the failure \<^verbatim>\<open>DIAL_FAILED\<close> for the peer and method
  of the request, with an empty correlation id, whatever the request's was.
\<close>

lemma Gateway_Invoke_never_errs:
  assumes "reg_wf st" and "dial_returns env" and "dial_blocks env"
  shows "\<exists>resp. Gateway_Invoke env g ctx p req st = Return (Inr resp) \<and>
    (offline st p \<longrightarrow>
       \<not> ir_Success resp \<and> map_option ed_Code (ir_Error resp) = Some ''DIAL_FAILED'' \<and>
       ir_PeerId resp = rq_PeerId req \<and> ir_Method resp = rq_Method req \<and> ir_CorrelationId resp = '''')"
proof -
  obtain resp where resp: "Gateway_Invoke env g ctx p req st = Return (Inr resp)"
    using Gateway_Invoke_answers [OF assms(1,2)] .
  have "resp = failed_response req ''DIAL_FAILED'' msg (ir_ElapsedMs resp)"
    if "offline st p" "msg = ed_Message (the (ir_Error resp))" for msg
    using DialPeer_offline [OF assms(1,3) that(1), of "gw_dialer g" "ensureDeadline (ce_start env) g ctx (rq_TimeoutMs req)"]
      resp that(2) by (auto simp: Gateway_Invoke_def Gateway_Invoke_conns_def DialPeer_conns_def failed_response_def Let_def)
  with resp show ?thesis by (metis failed_response_def invoke_response.select_convs(1,2,4,5,6) error_detail.select_convs(1) option.map(2))
qed

text \<open>An environment whose library dials once.\<close>

definition demo_call :: "(unit, unit) call_env" where
  "demo_call = \<lparr>ce_race = (\<lambda>_. StreamDone (Inr ())), ce_grpc_Dial = (\<lambda>ctx t f. f ctx),
     ce_client_Invoke = (\<lambda>conn ctx req. Inl (StatusError NotFound ''no such method'')),
     ce_start = 0, ce_dialing = 0, ce_finish = 5 * millisecond, ce_Error = (\<lambda>_. ''err''),
     ce_FromError = (\<lambda>e. case e of StatusError c m \<Rightarrow> Some (c, m) | _ \<Rightarrow> None),
     ce_Code_String = (\<lambda>_. ''NotFound'')\<rparr>"

definition demo_request :: invoke_request where
  "demo_request = \<lparr>rq_PeerId = ''node-a'', rq_Method = ''calc.Add'', rq_Payload = [], rq_CorrelationId = ''c1'', rq_TimeoutMs = 0\<rparr>"

lemma demo_call_dials: "dial_returns demo_call" "dial_blocks demo_call"
  by (simp_all add: dial_returns_def dial_blocks_def demo_call_def)

lemma Gateway_Invoke_never_errs_witness:
  "\<exists>resp. Gateway_Invoke demo_call NewGateway \<lparr>ctx_deadline = None\<rparr> ''node-a'' demo_request demo_registry = Return (Inr resp) \<and>
     map_option ed_Code (ir_Error resp) = Some ''DIAL_FAILED''"
proof -
  have "offline demo_registry ''node-a''" by (simp add: offline_def NewRegistry_def)
  with Gateway_Invoke_never_errs [OF reg_wf_NewRegistry demo_call_dials] show ?thesis by blast
qed

text \<open>
  The deadline of a reverse call is the earliest one in force: a request's own timeout can
  shorten the caller's deadline but never extend it, and the gateway's default only counts when the
  request has none.
\<close>

lemma ensureDeadline_is_the_earliest:
  "ctx_deadline (ensureDeadline now g ctx timeoutMs) =
     (let limit = (if timeoutMs > 0 then Some (now + uint timeoutMs * millisecond)
                   else if gw_timeout g > 0 then Some (now + gw_timeout g) else None)
      in case (limit, ctx_deadline ctx) of
           (None, d) \<Rightarrow> d
         | (Some t, None) \<Rightarrow> Some t
         | (Some t, Some u) \<Rightarrow> Some (min t u))"
  by (auto simp: ensureDeadline_def WithTimeout_def WithCancel_def Let_def min_def split: option.split)

lemma parseTarget_passthrough: "p \<noteq> '''' \<Longrightarrow> parseTarget (''passthrough:///'' @ p) = Inr p"
  by (simp add: parseTarget_def)

end
