(* ===== verification/Invoke_Proxy.thy ===== *)
theory Invoke_Proxy
  imports Acl Rate_Limit Reverse_Gateway
begin

section \<open>The invoke proxy (pkg/server/invoke.go)\<close>

text \<open>
  The server's gRPC entry. A request passes validation, the access policy, the rate limiter and
  a look-up of the peer, is handed to the gateway, and on return refreshes the peer's heartbeat
  and releases the limiter. \<open>proxy_begin\<close> is the part up to the gateway's call and
  \<open>proxy_finish\<close> the part after it, deferred calls included; other requests run in between. The
  proxy's state is its policy, its limiter and the session registry it shares.
\<close>

record proxy =
  px_acl :: acl_policy
  px_limiter :: rate_limiter
  px_registry :: registry

definition NewInvokeProxy :: "registry \<Rightarrow> acl_policy option \<Rightarrow> rate_limiter option \<Rightarrow> proxy" where
  "NewInvokeProxy reg acl limiter =
     \<lparr>px_acl = (case acl of None \<Rightarrow> NewPermissiveACL | Some a \<Rightarrow> a),
      px_limiter = (case limiter of None \<Rightarrow> NewNoOpLimiter | Some l \<Rightarrow> l),
      px_registry = reg\<rparr>"

definition release :: "invoke_request \<Rightarrow> proxy \<Rightarrow> proxy" where
  "release req px = px\<lparr>px_limiter := Limiter_Release (rq_PeerId req) (rq_Method req) (px_limiter px)\<rparr>"

subsection \<open>A unary call\<close>

definition proxy_begin ::
  "(f64 \<Rightarrow> int) \<Rightarrow> instant \<times> instant \<Rightarrow> invoke_request \<Rightarrow> proxy \<Rightarrow> go_error option \<times> proxy" where
  "proxy_begin unrep t req px =
     (if rq_PeerId req = '''' then (Some (StatusError InvalidArgument ''peer_id is required''), px)
      else if rq_Method req = '''' then (Some (StatusError InvalidArgument ''method is required''), px)
      else if \<not> ACL_Check (px_acl px) (rq_PeerId req) (rq_Method req) then
        (Some (StatusError PermissionDenied ''access denied by ACL policy''), px)
      else
        (case Limiter_Allow unrep t (rq_PeerId req) (rq_Method req) (px_limiter px) of
           (False, lm) \<Rightarrow>
             (Some (StatusError ResourceExhausted ''rate limit exceeded''), px\<lparr>px_limiter := lm\<rparr>)
         | (True, lm) \<Rightarrow>
             (let px1 = px\<lparr>px_limiter := lm\<rparr> in
              case Get (rq_PeerId req) (px_registry px1) of
                None \<Rightarrow> (Some (StatusError NotFound ''peer not found or offline''), release req px1)
              | Some _ \<Rightarrow> (None, px1))))"

text \<open>The deadline the proxy sets before it calls the gateway.\<close>

definition proxy_ctx :: "instant \<Rightarrow> invoke_request \<Rightarrow> go_ctx \<Rightarrow> go_ctx" where
  "proxy_ctx now req ctx =
     (if rq_TimeoutMs req > 0 then WithTimeout now (uint (rq_TimeoutMs req) * millisecond) ctx else ctx)"

text \<open>\<open>answer\<close> is what the gateway returned, \<open>started\<close> and \<open>now\<close> the clock before and after.\<close>

definition proxy_finish ::
  "(go_error \<Rightarrow> string) \<Rightarrow> instant \<Rightarrow> instant \<Rightarrow> invoke_request \<Rightarrow> invoke_response result \<Rightarrow> proxy
     \<Rightarrow> (invoke_response result \<times> proxy) outcome" where
  "proxy_finish error_text started now req answer px =
     (case answer of
        Inl err \<Rightarrow> Return (Inl (StatusError Unavailable (''invoke failed: '' @ error_text err)), release req px)
      | Inr resp \<Rightarrow>
          (let resp1 = (if ir_ElapsedMs resp = 0 then resp\<lparr>ir_ElapsedMs := elapsed_ms started now\<rparr> else resp)
           in bind_outcome (Heartbeat now (rq_PeerId req) (px_registry px)) (\<lambda>(_, st).
                Return (Inr resp1, release req (px\<lparr>px_registry := st\<rparr>)))))"

text \<open>
  The whole call. \<open>meanwhile\<close> is what other goroutines do to the proxy while the gateway works.
\<close>

definition Invoke ::
  "(f64 \<Rightarrow> int) \<Rightarrow> ('str, 'cc) call_env \<Rightarrow> gateway \<Rightarrow> (proxy \<Rightarrow> proxy) \<Rightarrow> go_ctx \<Rightarrow> invoke_request \<Rightarrow> proxy
     \<Rightarrow> (invoke_response result \<times> proxy) outcome" where
  "Invoke unrep env g meanwhile ctx req px =
     (case proxy_begin unrep (ce_start env, ce_start env) req px of
        (Some e, px1) \<Rightarrow> Return (Inl e, px1)
      | (None, px1) \<Rightarrow>
          bind_outcome
            (Gateway_Invoke env g (proxy_ctx (ce_start env) req ctx) (rq_PeerId req) req (px_registry px1))
            (\<lambda>answer. proxy_finish (ce_Error env) (ce_start env) (ce_finish env) req answer (meanwhile px1)))"

definition ValidateRequest :: "invoke_request option \<Rightarrow> go_error option" where
  "ValidateRequest req =
     (case req of
        None \<Rightarrow> Some (Errorf ''request is nil'' [])
      | Some r \<Rightarrow>
          if rq_PeerId r = '''' then Some (Errorf ''peer_id is required'' [])
          else if rq_Method r = '''' then Some (Errorf ''method is required'' [])
          else None)"

subsection \<open>A stream of calls\<close>

text \<open>
  One round of \<^verbatim>\<open>InvokeStream\<close>: what \<^verbatim>\<open>Recv\<close> returns, the environment of the call, and what
  \<^verbatim>\<open>Send\<close> returns. \<^verbatim>\<open>status.FromError\<close> of an error that is no status has the code \<open>Unknown\<close>
  and the error's text.
\<close>

record ('str, 'cc) stream_round =
  sr_recv :: "invoke_request result"
  sr_env :: "('str, 'cc) call_env"
  sr_meanwhile :: "proxy \<Rightarrow> proxy"
  sr_send :: "go_error option"

definition status_of :: "('str, 'cc) call_env \<Rightarrow> go_error \<Rightarrow> grpc_code \<times> string" where
  "status_of env e = (case ce_FromError env e of None \<Rightarrow> (Unknown, ce_Error env e) | Some st \<Rightarrow> st)"

definition stream_response ::
  "('str, 'cc) call_env \<Rightarrow> invoke_request \<Rightarrow> invoke_response result \<Rightarrow> invoke_response" where
  "stream_response env req r =
     (case r of
        Inl err \<Rightarrow>
          \<lparr>ir_PeerId = rq_PeerId req, ir_Method = rq_Method req, ir_Result = [], ir_Success = False,
           ir_Error = Some \<lparr>ed_Code = ce_Code_String env (fst (status_of env err)),
                            ed_Message = snd (status_of env err)\<rparr>,
           ir_CorrelationId = rq_CorrelationId req, ir_ElapsedMs = 0\<rparr>
      | Inr resp \<Rightarrow>
          \<lparr>ir_PeerId = ir_PeerId resp, ir_Method = ir_Method resp, ir_Result = ir_Result resp,
           ir_Success = ir_Success resp, ir_Error = ir_Error resp,
           ir_CorrelationId = ir_CorrelationId resp, ir_ElapsedMs = ir_ElapsedMs resp\<rparr>)"

text \<open>
  The loop over the rounds: the responses handed to \<^verbatim>\<open>Send\<close>, the error it returned with
  (\<open>None\<close>: it is still waiting for a next message), and the proxy.
\<close>

fun InvokeStream ::
  "(f64 \<Rightarrow> int) \<Rightarrow> gateway \<Rightarrow> go_ctx \<Rightarrow> ('str, 'cc) stream_round list \<Rightarrow> proxy
     \<Rightarrow> (invoke_response list \<times> go_error option \<times> proxy) outcome" where
  "InvokeStream unrep g ctx [] px = Return ([], None, px)"
| "InvokeStream unrep g ctx (r # rs) px =
     (case sr_recv r of
        Inl err \<Rightarrow> Return ([], Some err, px)
      | Inr req \<Rightarrow>
          bind_outcome (Invoke unrep (sr_env r) g (sr_meanwhile r) ctx req px) (\<lambda>(answer, px1).
            (case sr_send r of
               Some err \<Rightarrow> Return ([stream_response (sr_env r) req answer], Some err, px1)
             | None \<Rightarrow>
                 bind_outcome (InvokeStream unrep g ctx rs px1) (\<lambda>(sent, e, px2).
                   Return (stream_response (sr_env r) req answer # sent, e, px2)))))"

subsection \<open>Requests in flight\<close>

text \<open>
  The interleaving of many calls: each begins and, if it was admitted, is in flight until it
  finishes. Other parts of the program change the registry.
\<close>

record traffic =
  tr_proxy :: proxy
  tr_inflight :: "invoke_request multiset"
  tr_crashed :: bool

inductive traffic_step :: "(f64 \<Rightarrow> int) \<Rightarrow> traffic \<Rightarrow> traffic \<Rightarrow> bool" for unrep where
  Refuse: "proxy_begin unrep t req (tr_proxy s) = (Some e, px) \<Longrightarrow>
    traffic_step unrep s (s\<lparr>tr_proxy := px\<rparr>)"
| Admit: "proxy_begin unrep t req (tr_proxy s) = (None, px) \<Longrightarrow>
    traffic_step unrep s (s\<lparr>tr_proxy := px, tr_inflight := add_mset req (tr_inflight s)\<rparr>)"
| Finish: "req \<in># tr_inflight s \<Longrightarrow>
    proxy_finish error_text started now req answer (tr_proxy s) = Return (r, px) \<Longrightarrow>
    traffic_step unrep s (s\<lparr>tr_proxy := px, tr_inflight := tr_inflight s - {#req#}\<rparr>)"
| Crash: "req \<in># tr_inflight s \<Longrightarrow>
    proxy_finish error_text started now req answer (tr_proxy s) = Panic m \<Longrightarrow>
    traffic_step unrep s (s\<lparr>tr_crashed := True\<rparr>)"
| Registry: "reg_step now f (px_registry (tr_proxy s)) = Return st \<Longrightarrow>
    traffic_step unrep s (s\<lparr>tr_proxy := (tr_proxy s)\<lparr>px_registry := st\<rparr>\<rparr>)"

inductive_cases traffic_stepE: "traffic_step unrep s s'"

subsection \<open>Lemmas\<close>

definition request_key :: "invoke_request \<Rightarrow> string" where
  "request_key req = limit_key (rq_PeerId req) (rq_Method req)"

definition inflight_keys :: "traffic \<Rightarrow> string multiset" where
  "inflight_keys s = image_mset request_key (tr_inflight s)"

lemma proxy_begin_refused:
  assumes "proxy_begin unrep t req px = (Some e, px')" and "limiter_agrees (px_limiter px) M"
  shows "limiter_agrees (px_limiter px') M \<and> px_registry px' = px_registry px \<and> px_acl px' = px_acl px"
  using assms
  by (auto simp: proxy_begin_def release_def Let_def
      intro: limiter.refuse_law limiter.paired_use split: if_splits prod.splits bool.splits option.splits)

lemma proxy_begin_admitted:
  assumes "proxy_begin unrep t req px = (None, px')"
  shows "ACL_Check (px_acl px) (rq_PeerId req) (rq_Method req)"
    and "Limiter_Allow unrep t (rq_PeerId req) (rq_Method req) (px_limiter px) = (True, px_limiter px')"
    and "px_registry px' = px_registry px" and "px_acl px' = px_acl px"
    and "reg_sessions (px_registry px) (rq_PeerId req) \<noteq> None"
  using assms
  by (auto simp: proxy_begin_def Get_def Let_def split: if_splits prod.splits bool.splits option.splits)

lemma Heartbeat_cases:
  assumes "reg_wf st"
  obtains e st' where "Heartbeat now p st = Return (e, st')" "reg_wf st'" "reg_sessions st' = reg_sessions st"
  using dir.heartbeat_law [OF assms, of now p] by metis

lemma proxy_finish_returns:
  assumes "reg_wf (px_registry px)"
  obtains r st where "proxy_finish error_text started now req answer px = Return (r, release req (px\<lparr>px_registry := st\<rparr>))"
    "reg_wf st" "reg_sessions st = reg_sessions (px_registry px)"
proof (cases answer)
  case (Inl err)
  have "px\<lparr>px_registry := px_registry px\<rparr> = px" by simp
  with Inl assms show ?thesis by (intro that [of _ "px_registry px"]) (auto simp: proxy_finish_def)
next
  case (Inr resp)
  obtain e st where "Heartbeat now (rq_PeerId req) (px_registry px) = Return (e, st)" "reg_wf st"
      "reg_sessions st = reg_sessions (px_registry px)"
    using Heartbeat_cases [OF assms] .
  with Inr show ?thesis by (intro that [of _ st]) (auto simp: proxy_finish_def Let_def)
qed

lemma release_frame [simp]:
  "px_registry (release req px) = px_registry px" "px_acl (release req px) = px_acl px"
  "px_limiter (release req px) = Limiter_Release (rq_PeerId req) (rq_Method req) (px_limiter px)"
  by (simp_all add: release_def)

definition traffic_inv :: "acl_policy \<Rightarrow> traffic \<Rightarrow> bool" where
  "traffic_inv acl s \<longleftrightarrow>
     \<not> tr_crashed s \<and> reg_wf (px_registry (tr_proxy s)) \<and> px_acl (tr_proxy s) = acl \<and>
     limiter_agrees (px_limiter (tr_proxy s)) (inflight_keys s) \<and>
     (\<forall>req \<in># tr_inflight s. ACL_Check acl (rq_PeerId req) (rq_Method req))"

lemma traffic_step_inv: "traffic_step unrep s s' \<Longrightarrow> traffic_inv acl s \<Longrightarrow> traffic_inv acl s'"
proof (induction rule: traffic_step.induct)
  case (Refuse t req s e px)
  then show ?case
    using proxy_begin_refused [OF Refuse.hyps, of "inflight_keys s"] by (simp add: traffic_inv_def inflight_keys_def)
next
  case (Admit t req s px)
  note b = proxy_begin_admitted [OF Admit.hyps]
  have "limiter_agrees (px_limiter px) (add_mset (limit_key (rq_PeerId req) (rq_Method req)) (inflight_keys s))"
    using limiter.admit_law [OF _ b(2)] Admit.prems by (simp add: traffic_inv_def)
  with b Admit.prems show ?case by (simp add: traffic_inv_def inflight_keys_def request_key_def)
next
  case (Finish req s error_text started now answer r px)
  have wf: "reg_wf (px_registry (tr_proxy s))" using Finish.prems by (simp add: traffic_inv_def)
  obtain r' st where "proxy_finish error_text started now req answer (tr_proxy s) =
      Return (r', release req ((tr_proxy s)\<lparr>px_registry := st\<rparr>))" "reg_wf st"
    using proxy_finish_returns [OF wf] .
  with Finish.hyps(2) have px: "px = release req ((tr_proxy s)\<lparr>px_registry := st\<rparr>)" "reg_wf st" by simp_all
  have "inflight_keys s = add_mset (limit_key (rq_PeerId req) (rq_Method req)) (image_mset request_key (tr_inflight s - {#req#}))"
    using Finish.hyps(1) by (metis inflight_keys_def image_mset_add_mset insert_DiffM request_key_def)
  then have "limiter_agrees (px_limiter px) (image_mset request_key (tr_inflight s - {#req#}))"
    using Finish.prems limiter.release_law by (simp add: px traffic_inv_def)
  with px Finish.prems show ?case
    by (auto simp: traffic_inv_def inflight_keys_def dest: in_diffD)
next
  case (Crash req s error_text started now answer m)
  have wf: "reg_wf (px_registry (tr_proxy s))" using Crash.prems by (simp add: traffic_inv_def)
  obtain r' st where "proxy_finish error_text started now req answer (tr_proxy s) =
      Return (r', release req ((tr_proxy s)\<lparr>px_registry := st\<rparr>))"
    using proxy_finish_returns [OF wf] .
  with Crash.hyps(2) show ?case by simp
next
  case (Registry now f s st)
  have "reg_wf (px_registry (tr_proxy s))" using Registry.prems by (simp add: traffic_inv_def)
  from reg_step_wf [OF this, of now f] Registry.hyps have "reg_wf st" by auto
  with Registry.prems show ?case by (simp add: traffic_inv_def inflight_keys_def)
qed

lemma traffic_steps_inv: "(traffic_step unrep)\<^sup>*\<^sup>* s s' \<Longrightarrow> traffic_inv acl s \<Longrightarrow> traffic_inv acl s'"
  by (induction rule: rtranclp_induct) (blast intro: traffic_step_inv)+

definition limiter_max :: "rate_limiter \<Rightarrow> int option" where
  "limiter_max l = (case l of ConcurrencyLimiter cl \<Rightarrow> Some (cl_maxConcurrent cl) | _ \<Rightarrow> None)"

lemma limiter_max_Allow: "Limiter_Allow unrep t p m l = (b, l') \<Longrightarrow> limiter_max l' = limiter_max l"
  by (cases l) (auto simp: limiter_max_def Concurrency_Allow_def Let_def split: prod.splits if_splits)

lemma limiter_max_Release: "limiter_max (Limiter_Release p m l) = limiter_max l"
  by (cases l) (auto simp: limiter_max_def Concurrency_Release_def Let_def)

lemma proxy_begin_max:
  "proxy_begin unrep t req px = (e, px') \<Longrightarrow> limiter_max (px_limiter px') = limiter_max (px_limiter px)"
  by (auto simp: proxy_begin_def Let_def limiter_max_Release dest: limiter_max_Allow
      split: if_splits prod.splits bool.splits option.splits)

lemma proxy_finish_max:
  "proxy_finish error_text started now req answer px = Return (r, px') \<Longrightarrow>
   limiter_max (px_limiter px') = limiter_max (px_limiter px)"
  by (auto simp: proxy_finish_def Let_def outcome_simps limiter_max_Release split: sum.splits if_splits)

lemma traffic_step_max:
  "traffic_step unrep s s' \<Longrightarrow> limiter_max (px_limiter (tr_proxy s')) = limiter_max (px_limiter (tr_proxy s))"
  by (induction rule: traffic_step.induct) (auto dest: proxy_begin_max proxy_finish_max)

lemma traffic_steps_max:
  "(traffic_step unrep)\<^sup>*\<^sup>* s s' \<Longrightarrow> limiter_max (px_limiter (tr_proxy s')) = limiter_max (px_limiter (tr_proxy s))"
  by (induction rule: rtranclp_induct) (simp_all add: traffic_step_max)

subsection \<open>Properties\<close>

definition start_traffic :: "proxy \<Rightarrow> traffic" where
  "start_traffic px = \<lparr>tr_proxy = px, tr_inflight = {#}, tr_crashed = False\<rparr>"

text \<open>
  C16. With a concurrency limiter of \<open>n\<close>, however calls begin, are refused and finish, at most
  \<open>n\<close> calls of one peer's method are in flight at any time; no call panics; and when all calls have
  finished, successfully or not, no slot is left taken.
\<close>

theorem calls_in_flight_are_bounded:
  assumes "(traffic_step unrep)\<^sup>*\<^sup>*
      (start_traffic (NewInvokeProxy reg acl (Some (ConcurrencyLimiter (NewConcurrencyLimiter n))))) s"
    and "reg_wf reg" and "0 \<le> n"
  shows "(\<forall>k. int (count (inflight_keys s) k) \<le> n) \<and> \<not> tr_crashed s \<and>
    (tr_inflight s = {#} \<longrightarrow>
       (\<exists>cl. px_limiter (tr_proxy s) = ConcurrencyLimiter cl \<and> (\<forall>k. map_get 0 (cl_current cl) k = 0)))"
proof -
  let ?px = "NewInvokeProxy reg acl (Some (ConcurrencyLimiter (NewConcurrencyLimiter n)))"
  have "traffic_inv (px_acl ?px) (start_traffic ?px)"
    using assms(2) cl_agrees_New
    by (simp add: traffic_inv_def start_traffic_def inflight_keys_def NewInvokeProxy_def)
  then have inv: "traffic_inv (px_acl ?px) s" by (rule traffic_steps_inv [OF assms(1)])
  have "limiter_max (px_limiter (tr_proxy s)) = Some n"
    using traffic_steps_max [OF assms(1)]
    by (simp add: start_traffic_def NewInvokeProxy_def limiter_max_def NewConcurrencyLimiter_def)
  then obtain cl where cl: "px_limiter (tr_proxy s) = ConcurrencyLimiter cl" "cl_maxConcurrent cl = n"
    by (auto simp: limiter_max_def split: rate_limiter.splits)
  have agrees: "cl_agrees cl (inflight_keys s)" using inv cl(1) by (simp add: traffic_inv_def)
  have "int (count (inflight_keys s) k) \<le> n" for k
    using concurrency.bound_law [OF agrees] cl(2) assms(3) by simp
  moreover have "map_get 0 (cl_current cl) k = 0" if "tr_inflight s = {#}" for k
    using agrees that by (simp add: cl_agrees_def inflight_keys_def)
  ultimately show ?thesis using inv cl(1) by (auto simp: traffic_inv_def)
qed

definition demo_proxy :: proxy where
  "demo_proxy = NewInvokeProxy demo_two None (Some (ConcurrencyLimiter (NewConcurrencyLimiter 1)))"

lemma demo_begin:
  "proxy_begin unrep t demo_request demo_proxy =
     (None, demo_proxy\<lparr>px_limiter := ConcurrencyLimiter \<lparr>cl_maxConcurrent = 1, cl_current = [''node-a:calc.Add'' \<mapsto> 1]\<rparr>\<rparr>)"
proof -
  have "reg_sessions demo_two ''node-a'' = Some 0" unfolding demo_two_unfold by simp
  then show ?thesis
    by (simp add: proxy_begin_def demo_request_def demo_proxy_def NewInvokeProxy_def Permissive_Check_def
        Concurrency_Allow_def NewConcurrencyLimiter_def limit_key_def map_get_def Get_def Let_def)
qed

theorem calls_in_flight_are_bounded_witness:
  "\<exists>s. (traffic_step (\<lambda>_. 0))\<^sup>*\<^sup>* (start_traffic demo_proxy) s \<and> tr_inflight s = {#demo_request#} \<and>
     (\<forall>k. int (count (inflight_keys s) k) \<le> 1)"
proof -
  let ?s = "start_traffic demo_proxy"
  have "\<exists>s. traffic_step (\<lambda>_. 0) ?s s \<and> tr_inflight s = {#demo_request#}"
    using traffic_step.Admit [of "\<lambda>_. 0" "(0, 0)" demo_request ?s] demo_begin
    by (fastforce simp: start_traffic_def)
  then obtain s where s: "traffic_step (\<lambda>_. 0) ?s s" "tr_inflight s = {#demo_request#}" by blast
  from s(1) have "(traffic_step (\<lambda>_. 0))\<^sup>*\<^sup>* ?s s" by (rule r_into_rtranclp)
  with calls_in_flight_are_bounded [of "\<lambda>_. 0" demo_two None 1 s] demo_two_wf s(2) show ?thesis
    by (auto simp: demo_proxy_def)
qed



subsection \<open>Streams of calls\<close>

text \<open>What the loop relies on in a round, and the requests it answers: up to the first error of \<^verbatim>\<open>Recv\<close> or \<^verbatim>\<open>Send\<close>.\<close>

definition round_ok :: "('str, 'cc) stream_round \<Rightarrow> bool" where
  "round_ok r \<longleftrightarrow> dial_returns (sr_env r) \<and>
     (\<forall>q. reg_wf (px_registry q) \<longrightarrow> reg_wf (px_registry (sr_meanwhile r q)))"

fun answered :: "('str, 'cc) stream_round list \<Rightarrow> ('str, 'cc) stream_round list" where
  "answered [] = []"
| "answered (r # rs) =
     (case sr_recv r of
        Inl e \<Rightarrow> []
      | Inr req \<Rightarrow> r # (case sr_send r of Some e \<Rightarrow> [] | None \<Rightarrow> answered rs))"

fun first_error :: "('str, 'cc) stream_round list \<Rightarrow> go_error option" where
  "first_error [] = None"
| "first_error (r # rs) =
     (case sr_recv r of
        Inl e \<Rightarrow> Some e
      | Inr req \<Rightarrow> (case sr_send r of Some e \<Rightarrow> Some e | None \<Rightarrow> first_error rs))"

text \<open>
  A message that refuses a request repeats its peer, method and correlation id; any other message is
  the gateway's answer to the request, with nothing but the elapsed time filled in.
\<close>

definition refuses :: "invoke_request \<Rightarrow> invoke_response \<Rightarrow> bool" where
  "refuses req msg \<longleftrightarrow> \<not> ir_Success msg \<and> ir_Error msg \<noteq> None \<and> ir_PeerId msg = rq_PeerId req \<and>
     ir_Method msg = rq_Method req \<and> ir_CorrelationId msg = rq_CorrelationId req"

definition passes_on :: "gateway \<Rightarrow> ('str, 'cc) call_env \<Rightarrow> invoke_request \<Rightarrow> invoke_response \<Rightarrow> bool" where
  "passes_on g env req msg \<longleftrightarrow>
     (\<exists>c st resp ms. Gateway_Invoke env g c (rq_PeerId req) req st = Return (Inr resp) \<and> msg = resp\<lparr>ir_ElapsedMs := ms\<rparr>)"

definition right_message :: "gateway \<Rightarrow> ('str, 'cc) stream_round \<Rightarrow> invoke_response \<Rightarrow> bool" where
  "right_message g r msg \<longleftrightarrow>
     (case sr_recv r of Inl e \<Rightarrow> False | Inr req \<Rightarrow> refuses req msg \<or> passes_on g (sr_env r) req msg)"

lemma stream_response_Inr: "stream_response env req (Inr resp) = resp"
  by (simp add: stream_response_def)

lemma refuses_Inl: "refuses req (stream_response env req (Inl e))"
  by (simp add: refuses_def stream_response_def)

lemma finish_answer:
  assumes "proxy_finish error_text started now req (Inr resp) px = Return (a, px')"
  shows "\<exists>ms. a = Inr (resp\<lparr>ir_ElapsedMs := ms\<rparr>)"
proof (cases "ir_ElapsedMs resp = 0")
  case True
  with assms show ?thesis
    by (cases "Heartbeat now (rq_PeerId req) (px_registry px)") (auto simp: proxy_finish_def Let_def)
next
  case False
  with assms have "a = Inr (resp\<lparr>ir_ElapsedMs := ir_ElapsedMs resp\<rparr>)"
    by (cases "Heartbeat now (rq_PeerId req) (px_registry px)") (auto simp: proxy_finish_def Let_def)
  then show ?thesis by blast
qed

lemma Invoke_returns:
  fixes unrep g ctx req
  assumes "reg_wf (px_registry px)" and "round_ok r" and "sr_recv r = Inr req"
  obtains a px' where "Invoke unrep (sr_env r) g (sr_meanwhile r) ctx req px = Return (a, px')"
    "reg_wf (px_registry px')" "right_message g r (stream_response (sr_env r) req a)"
proof -
  let ?env = "sr_env r"
  obtain e px1 where b: "proxy_begin unrep (ce_start ?env, ce_start ?env) req px = (e, px1)"
    by (cases "proxy_begin unrep (ce_start ?env, ce_start ?env) req px")
  have reg: "px_registry px1 = px_registry px"
    using b by (auto simp: proxy_begin_def Let_def split: if_splits prod.splits bool.splits option.splits)
  show ?thesis
  proof (cases e)
    case (Some err)
    with b have "Invoke unrep ?env g (sr_meanwhile r) ctx req px = Return (Inl err, px1)" by (simp add: Invoke_def)
    with reg assms(1,3) show ?thesis by (intro that [of "Inl err" px1]) (simp_all add: right_message_def refuses_Inl)
  next
    case None
    have wf1: "reg_wf (px_registry px1)" using reg assms(1) by simp
    then have wf2: "reg_wf (px_registry (sr_meanwhile r px1))" using assms(2) by (simp add: round_ok_def)
    obtain resp where gw: "Gateway_Invoke ?env g (proxy_ctx (ce_start ?env) req ctx) (rq_PeerId req) req
        (px_registry px1) = Return (Inr resp)"
    proof (rule Gateway_Invoke_answers [OF wf1])
      show "dial_returns ?env" using assms(2) by (simp add: round_ok_def)
    qed
    obtain a st where f: "proxy_finish (ce_Error ?env) (ce_start ?env) (ce_finish ?env) req (Inr resp)
        (sr_meanwhile r px1) = Return (a, release req ((sr_meanwhile r px1)\<lparr>px_registry := st\<rparr>))" "reg_wf st"
      by (rule proxy_finish_returns [OF wf2])
    with finish_answer gw obtain ms where "a = Inr (resp\<lparr>ir_ElapsedMs := ms\<rparr>)" by metis
    then have "right_message g r (stream_response ?env req a)"
      using gw assms(3) by (auto simp: right_message_def passes_on_def stream_response_Inr)
    with b None gw f show ?thesis by (intro that) (auto simp: Invoke_def)
  qed
qed

text \<open>
  C17. A stream of calls: every request received is answered by exactly one message, in order, until
  \<^verbatim>\<open>Recv\<close> or \<^verbatim>\<open>Send\<close> fails, and the stream ends with that error and no other. A refused call does
  not end the stream: its message says so and repeats the request's peer, method and correlation id;
  every other message is the gateway's answer to its request. The end of the client's requests is an
  error of \<^verbatim>\<open>Recv\<close>: the stream then ends with \<^verbatim>\<open>io.EOF\<close> and not with success.
\<close>

theorem InvokeStream_answers_each_request:
  assumes "\<forall>r \<in> set rs. round_ok r" and "reg_wf (px_registry px)"
  shows "\<exists>sent px'. InvokeStream unrep g ctx rs px = Return (sent, first_error rs, px') \<and>
    list_all2 (right_message g) (answered rs) sent"
  using assms
proof (induction rs arbitrary: px)
  case (Cons r rs)
  show ?case
  proof (cases "sr_recv r")
    case (Inr req)
    obtain a px1 where i: "Invoke unrep (sr_env r) g (sr_meanwhile r) ctx req px = Return (a, px1)"
      "reg_wf (px_registry px1)" "right_message g r (stream_response (sr_env r) req a)"
    proof (rule Invoke_returns [OF _ _ Inr, of px unrep g ctx])
      show "reg_wf (px_registry px)" "round_ok r" using Cons.prems by simp_all
    qed
    show ?thesis
    proof (cases "sr_send r")
      case None
      obtain sent px' where "InvokeStream unrep g ctx rs px1 = Return (sent, first_error rs, px')"
        "list_all2 (right_message g) (answered rs) sent"
        using Cons.IH [OF _ i(2)] Cons.prems(1) by auto
      with Inr None i(1,3) show ?thesis by auto
    qed (use Inr i(1,3) in auto)
  qed simp
qed simp

definition demo_round :: "invoke_request result \<Rightarrow> (unit, unit) stream_round" where
  "demo_round r = \<lparr>sr_recv = r, sr_env = demo_call, sr_meanwhile = (\<lambda>q. q), sr_send = None\<rparr>"

theorem InvokeStream_answers_each_request_witness:
  "\<exists>sent px'. InvokeStream (\<lambda>_. 0) NewGateway \<lparr>ctx_deadline = None\<rparr> [demo_round (Inr demo_request), demo_round (Inl io_EOF)]
     demo_proxy = Return (sent, Some io_EOF, px') \<and> length sent = 1"
proof -
  let ?rs = "[demo_round (Inr demo_request), demo_round (Inl io_EOF)]"
  have ok: "\<forall>r \<in> set ?rs. round_ok r" using demo_call_dials(1) by (simp add: demo_round_def round_ok_def)
  have wf: "reg_wf (px_registry demo_proxy)" using demo_two_wf by (simp add: demo_proxy_def NewInvokeProxy_def)
  have "first_error ?rs = Some io_EOF" "length (answered ?rs) = 1" by (simp_all add: demo_round_def)
  with InvokeStream_answers_each_request [OF ok wf, of "\<lambda>_. 0" NewGateway "\<lparr>ctx_deadline = None\<rparr>"] show ?thesis
    by (auto dest: list_all2_lengthD)
qed

end
