(* ===== verification/Mesh_System.thy ===== *)
theory Mesh_System
  imports Tunnel_Properties Invoke_Proxy
begin

section \<open>Tunnel and calls over one registry\<close>

text \<open>
  The running server: nodes connect, authenticate and leave (\<open>tunnel_step\<close>) while clients' calls
  begin, reach a node and finish (\<open>proxy_begin\<close>, \<open>OpenStream\<close>, \<open>proxy_finish\<close>). Both sides share
  the session registry, and their steps interleave freely. \<open>ms_reached\<close> is a history that no code
  reads: the calls for which the gateway's dialer obtained a stream, each with the handshake of the
  session the stream belongs to.
\<close>

record mesh =
  ms_tunnel :: tunnel
  ms_acl :: acl_policy
  ms_limiter :: rate_limiter
  ms_inflight :: "invoke_request multiset"
  ms_reached :: "(invoke_request \<times> handshake option) list"

definition the_registry :: "mesh \<Rightarrow> registry" where
  "the_registry s = tn_registry (ms_tunnel s)"

text \<open>The proxy's view of the state, and a proxy put back.\<close>

definition the_proxy :: "mesh \<Rightarrow> proxy" where
  "the_proxy s = \<lparr>px_acl = ms_acl s, px_limiter = ms_limiter s, px_registry = the_registry s\<rparr>"

definition put_proxy :: "proxy \<Rightarrow> mesh \<Rightarrow> mesh" where
  "put_proxy px s =
     s\<lparr>ms_acl := px_acl px, ms_limiter := px_limiter px,
       ms_tunnel := (ms_tunnel s)\<lparr>tn_registry := px_registry px\<rparr>\<rparr>"

fun proxy_returned :: "mesh \<Rightarrow> invoke_request \<Rightarrow> ('r \<times> proxy) outcome \<Rightarrow> mesh" where
  "proxy_returned s req (Return (r, px)) = (put_proxy px s)\<lparr>ms_inflight := ms_inflight s - {#req#}\<rparr>"
| "proxy_returned s req (Panic m) = s\<lparr>ms_tunnel := (ms_tunnel s)\<lparr>tn_crashed := True\<rparr>\<rparr>"

definition mesh_start :: "(yamux \<Rightarrow> go_error option) \<Rightarrow> acl_policy option \<Rightarrow> rate_limiter option \<Rightarrow> mesh" where
  "mesh_start yerr acl limiter =
     (let px = NewInvokeProxy (NewRegistry yerr) acl limiter in
      \<lparr>ms_tunnel = tunnel_Start (px_registry px), ms_acl = px_acl px, ms_limiter = px_limiter px,
       ms_inflight = {#}, ms_reached = []\<rparr>)"

inductive mesh_step :: "'v tunnel_env \<Rightarrow> (f64 \<Rightarrow> int) \<Rightarrow> mesh \<Rightarrow> mesh \<Rightarrow> bool" for env unrep where
  Node: "tunnel_step env (ms_tunnel s) t \<Longrightarrow> mesh_step env unrep s (s\<lparr>ms_tunnel := t\<rparr>)"
| Refuse: "proxy_begin unrep t req (the_proxy s) = (Some e, px) \<Longrightarrow> mesh_step env unrep s (put_proxy px s)"
| Admit: "proxy_begin unrep t req (the_proxy s) = (None, px) \<Longrightarrow>
    mesh_step env unrep s ((put_proxy px s)\<lparr>ms_inflight := add_mset req (ms_inflight s)\<rparr>)"
| Reach: "req \<in># ms_inflight s \<Longrightarrow> reg_sessions (the_registry s) (rq_PeerId req) = Some a \<Longrightarrow>
    reg_heap (the_registry s) a = Some sess \<Longrightarrow>
    OpenStream (StreamDone (Inr ())) (rq_PeerId req) (the_registry s) = Return (Inr ()) \<Longrightarrow>
    mesh_step env unrep s (s\<lparr>ms_reached := (req, ss_Handshake sess) # ms_reached s\<rparr>)"
| Finish: "req \<in># ms_inflight s \<Longrightarrow>
    mesh_step env unrep s (proxy_returned s req (proxy_finish error_text started now req answer (the_proxy s)))"

subsection \<open>The invariant\<close>

definition may_reach :: "'v tunnel_env \<Rightarrow> acl_policy \<Rightarrow> invoke_request \<times> handshake option \<Rightarrow> bool" where
  "may_reach env acl c \<longleftrightarrow>
     (case c of (req, k) \<Rightarrow> ACL_Check acl (rq_PeerId req) (rq_Method req) \<and>
        (\<exists>h. k = Some h \<and> hs_NodeID h = rq_PeerId req \<and> authorised env h))"

definition call_keys :: "mesh \<Rightarrow> string multiset" where
  "call_keys s = image_mset request_key (ms_inflight s)"

definition mesh_inv :: "'v tunnel_env \<Rightarrow> acl_policy \<Rightarrow> mesh \<Rightarrow> bool" where
  "mesh_inv env acl s \<longleftrightarrow>
     tunnel_inv env (ms_tunnel s) \<and> ms_acl s = acl \<and> limiter_agrees (ms_limiter s) (call_keys s) \<and>
     (\<forall>req \<in># ms_inflight s. ACL_Check acl (rq_PeerId req) (rq_Method req)) \<and>
     (\<forall>c \<in> set (ms_reached s). may_reach env acl c)"

lemma the_proxy_simps [simp]:
  "px_acl (the_proxy s) = ms_acl s" "px_limiter (the_proxy s) = ms_limiter s" "px_registry (the_proxy s) = the_registry s"
  by (simp_all add: the_proxy_def)

lemma put_proxy_simps [simp]:
  "ms_acl (put_proxy px s) = px_acl px" "ms_limiter (put_proxy px s) = px_limiter px"
  "ms_tunnel (put_proxy px s) = (ms_tunnel s)\<lparr>tn_registry := px_registry px\<rparr>"
  "ms_inflight (put_proxy px s) = ms_inflight s" "ms_reached (put_proxy px s) = ms_reached s"
  by (simp_all add: put_proxy_def)

lemma same_registry: "t\<lparr>tn_registry := tn_registry t\<rparr> = t"
  by simp

text \<open>A heartbeat of the proxy is a step the tunnel expects of the rest of the program.\<close>

lemma heartbeat_tunnel_inv:
  assumes "tunnel_inv env t" and "Heartbeat now p (tn_registry t) = Return (e, st)"
  shows "tunnel_inv env (t\<lparr>tn_registry := st\<rparr>)"
  using inv_rest [OF assms(1), of "OpHeartbeat p" now] assms(2) by simp

lemma finish_tunnel_inv:
  assumes "tunnel_inv env t" and "tn_registry t = px_registry px"
  obtains r st where
    "proxy_finish error_text started now req answer px = Return (r, release req (px\<lparr>px_registry := st\<rparr>))"
    "tunnel_inv env (t\<lparr>tn_registry := st\<rparr>)"
proof (cases answer)
  case (Inl err)
  have "px\<lparr>px_registry := px_registry px\<rparr> = px" by simp
  with Inl assms show ?thesis
    by (intro that [of _ "px_registry px"]) (auto simp: proxy_finish_def same_registry simp flip: assms(2))
next
  case (Inr resp)
  have "reg_wf (px_registry px)" using tunnel_invD(2) [OF assms(1)] assms(2) by simp
  then obtain e st where hb: "Heartbeat now (rq_PeerId req) (px_registry px) = Return (e, st)"
    using Heartbeat_cases by metis
  from heartbeat_tunnel_inv [OF assms(1)] hb assms(2) have "tunnel_inv env (t\<lparr>tn_registry := st\<rparr>)" by simp
  with Inr hb show ?thesis by (intro that [of _ st]) (auto simp: proxy_finish_def Let_def)
qed

lemma mesh_step_inv: "mesh_step env unrep s s' \<Longrightarrow> mesh_inv env acl s \<Longrightarrow> mesh_inv env acl s'"
proof (induction rule: mesh_step.induct)
  case (Node s t)
  then show ?case using tunnel_step_inv [OF Node.hyps] by (simp add: mesh_inv_def call_keys_def)
next
  case (Refuse t req s e px)
  then show ?case
    using proxy_begin_refused [OF Refuse.hyps, of "call_keys s"]
    by (simp add: mesh_inv_def call_keys_def the_registry_def)
next
  case (Admit t req s px)
  note b = proxy_begin_admitted [OF Admit.hyps]
  have "limiter_agrees (px_limiter px) (add_mset (limit_key (rq_PeerId req) (rq_Method req)) (call_keys s))"
    using limiter.admit_law [OF _ b(2)] Admit.prems by (simp add: mesh_inv_def)
  with b Admit.prems show ?case by (simp add: mesh_inv_def call_keys_def request_key_def the_registry_def)
next
  case (Reach req s a sess)
  then have inv: "tunnel_inv env (ms_tunnel s)" and ok: "ACL_Check acl (rq_PeerId req) (rq_Method req)"
    by (auto simp: mesh_inv_def)
  have "ss_PeerID sess = rq_PeerId req"
    using reg_wf_entry [OF tunnel_invD(2) [OF inv]] Reach.hyps(2,3) by (metis option.inject the_registry_def)
  then have "identity (tn_registry (ms_tunnel s)) a = Some (rq_PeerId req, ss_Handshake sess, ss_Session sess)"
    using Reach.hyps(3) by (simp add: identity_def the_registry_def)
  with tunnel_invD(4) [OF inv] have "may_reach env acl (req, ss_Handshake sess)"
    using ok unfolding all_admitted_def may_reach_def by auto
  with Reach.prems show ?case by (simp add: mesh_inv_def call_keys_def)
next
  case (Finish req s error_text started now answer)
  have inv: "tunnel_inv env (ms_tunnel s)" using Finish.prems by (simp add: mesh_inv_def)
  have reg: "tn_registry (ms_tunnel s) = px_registry (the_proxy s)" by (simp add: the_registry_def)
  obtain r st where f: "proxy_finish error_text started now req answer (the_proxy s) =
      Return (r, release req ((the_proxy s)\<lparr>px_registry := st\<rparr>))" "tunnel_inv env ((ms_tunnel s)\<lparr>tn_registry := st\<rparr>)"
    by (rule finish_tunnel_inv [OF inv reg])
  have "call_keys s = add_mset (limit_key (rq_PeerId req) (rq_Method req)) (image_mset request_key (ms_inflight s - {#req#}))"
    using Finish.hyps by (metis call_keys_def image_mset_add_mset insert_DiffM request_key_def)
  then have "limiter_agrees (Limiter_Release (rq_PeerId req) (rq_Method req) (ms_limiter s))
      (image_mset request_key (ms_inflight s - {#req#}))"
    using Finish.prems limiter.release_law by (simp add: mesh_inv_def)
  with f Finish.prems show ?case by (auto simp: mesh_inv_def call_keys_def dest: in_diffD)
qed

lemma mesh_steps_inv: "(mesh_step env unrep)\<^sup>*\<^sup>* s s' \<Longrightarrow> mesh_inv env acl s \<Longrightarrow> mesh_inv env acl s'"
  by (induction rule: rtranclp_induct) (blast intro: mesh_step_inv)+

lemma mesh_start_inv: "mesh_inv env (ms_acl (mesh_start yerr acl limiter)) (mesh_start yerr acl limiter)"
  if "case limiter of Some l \<Rightarrow> limiter_agrees l {#} | None \<Rightarrow> True"
  using that reachable_inv [of env yerr "tunnel_Start (NewRegistry yerr)"]
  by (simp add: mesh_inv_def mesh_start_def call_keys_def NewInvokeProxy_def NewNoOpLimiter_def Let_def split: option.splits)

subsection \<open>Property\<close>


lemma tunnel_steps_lift:
  "tunnel_steps env t t' \<Longrightarrow> (mesh_step env unrep)\<^sup>*\<^sup>* (s\<lparr>ms_tunnel := t\<rparr>) (s\<lparr>ms_tunnel := t'\<rparr>)"
proof (induction rule: rtranclp_induct)
  case (step t1 t2)
  have "mesh_step env unrep (s\<lparr>ms_tunnel := t1\<rparr>) (s\<lparr>ms_tunnel := t1\<rparr>\<lparr>ms_tunnel := t2\<rparr>)"
    by (rule mesh_step.Node) (simp add: step.hyps)
  with step.IH show ?case by simp
qed simp

definition demo_mesh :: mesh where
  "demo_mesh = mesh_start (\<lambda>_. None) (Some PermissiveACL) (Some (ConcurrencyLimiter (NewConcurrencyLimiter 1)))"

definition demo_mesh_up :: mesh where
  "demo_mesh_up = demo_mesh\<lparr>ms_tunnel := demo_tunnel (Serving demo_sv) demo_reg\<rparr>"

lemma demo_mesh_up: "(mesh_step demo_env unrep)\<^sup>*\<^sup>* demo_mesh demo_mesh_up"
proof -
  have "demo_mesh\<lparr>ms_tunnel := demo_start\<rparr> = demo_mesh"
    by (simp add: demo_mesh_def mesh_start_def NewInvokeProxy_def Let_def)
  with tunnel_steps_lift [OF demo_up, of unrep demo_mesh] show ?thesis by (simp add: demo_mesh_up_def)
qed


end
