(* ===== verification/Tunnel_Tls.thy ===== *)
theory Tunnel_Tls
  imports Mesh_Prelude "HOL-Library.Word"
begin

unbundle bit_operations_syntax

section \<open>TLS configuration of the tunnel (pkg/tunnel/tunnel.go)\<close>

text \<open>
  How the tunnel server loads its certificate, and what its watcher does when the certificate
  file changes. To the configuration a certificate is opaque (\<open>'c\<close>); what \<^verbatim>\<open>tls.LoadX509KeyPair\<close>
  and the generator of the development certificate return are arguments, since they depend on the
  disk and on randomness. The generator itself is \<open>generateDevCertificate\<close>. A \<^verbatim>\<open>*tls.Config\<close> is
  never changed once it is installed, so it is a value here; \<^verbatim>\<open>tls.Listen\<close> keeps the one it was given.
\<close>

type_synonym uint16 = "16 word"

definition VersionTLS10 :: uint16 where "VersionTLS10 = 0x0301"
definition VersionTLS11 :: uint16 where "VersionTLS11 = 0x0302"
definition VersionTLS12 :: uint16 where "VersionTLS12 = 0x0303"
definition VersionTLS13 :: uint16 where "VersionTLS13 = 0x0304"

record 'c tls_config =
  tc_Certificates :: "'c list"
  tc_MinVersion :: uint16
  tc_GetConfigForClient :: bool            \<comment> \<open>set; it only logs and returns \<^verbatim>\<open>nil, nil\<close>\<close>

record 'c tls_server =
  ts_certFile :: string
  ts_keyFile :: string
  ts_tlsConfig :: "'c tls_config option"
  ts_listener :: "'c tls_config option"    \<comment> \<open>the configuration the listener was made with\<close>
  ts_watching :: bool

subsection \<open>The development certificate\<close>

record x509_template =
  xt_SerialNumber :: int
  xt_CommonName :: string
  xt_NotBefore :: instant
  xt_NotAfter :: instant
  xt_KeyUsage :: int
  xt_ExtKeyUsage :: "int list"
  xt_DNSNames :: "string list"
  xt_IPAddresses :: "string list"

record ('k, 'd) tls_certificate =
  crt_Certificate :: "'d list"
  crt_PrivateKey :: 'k

definition KeyUsageDigitalSignature :: int where "KeyUsageDigitalSignature = 1"
definition KeyUsageKeyEncipherment :: int where "KeyUsageKeyEncipherment = 4"
definition ExtKeyUsageServerAuth :: int where "ExtKeyUsageServerAuth = 1"

text \<open>
  What the cryptographic library and its source of randomness yield: a key, a serial number below
  the given bound, and the encoding \<open>'d\<close> of a certificate for a template, signed by a parent, with a
  public key and the signer's private key. \<open>now1\<close> and \<open>now2\<close> are the two readings of the clock.
\<close>

record ('k, 'p, 'd) x509_lib =
  xl_GenerateKey :: "'k result"
  xl_rand_Int :: "int \<Rightarrow> int result"
  xl_PublicKey :: "'k \<Rightarrow> 'p"
  xl_CreateCertificate :: "x509_template \<Rightarrow> x509_template \<Rightarrow> 'p \<Rightarrow> 'k \<Rightarrow> 'd result"

definition dev_template :: "int \<Rightarrow> instant \<Rightarrow> instant \<Rightarrow> x509_template" where
  "dev_template serial now1 now2 =
     \<lparr>xt_SerialNumber = serial, xt_CommonName = ''grpc-mesh-dev'',
      xt_NotBefore = now1 - 60 * minute, xt_NotAfter = now2 + 24 * (60 * minute),
      xt_KeyUsage = KeyUsageDigitalSignature OR KeyUsageKeyEncipherment,
      xt_ExtKeyUsage = [ExtKeyUsageServerAuth], xt_DNSNames = [''localhost''],
      xt_IPAddresses = [''127.0.0.1'', ''::1'']\<rparr>"

definition generateDevCertificate ::
  "('k, 'p, 'd) x509_lib \<Rightarrow> instant \<Rightarrow> instant \<Rightarrow> ('k, 'd) tls_certificate result" where
  "generateDevCertificate lib now1 now2 =
     (case xl_GenerateKey lib of
        Inl e \<Rightarrow> Inl e
      | Inr key \<Rightarrow>
          (case xl_rand_Int lib (push_bit 128 1) of
             Inl e \<Rightarrow> Inl e
           | Inr serial \<Rightarrow>
               (let tmpl = dev_template serial now1 now2 in
                case xl_CreateCertificate lib tmpl tmpl (xl_PublicKey lib key) key of
                  Inl e \<Rightarrow> Inl e
                | Inr der \<Rightarrow> Inr \<lparr>crt_Certificate = [der], crt_PrivateKey = key\<rparr>)))"

text \<open>
  What the library documents of the certificates it makes: their period of validity is the
  template's (cut off to seconds), \<open>expired d t\<close> being a client's verdict at the time \<open>t\<close>.
\<close>

definition dates_certificates :: "('k, 'p, 'd) x509_lib \<Rightarrow> ('d \<Rightarrow> instant \<Rightarrow> bool) \<Rightarrow> bool" where
  "dates_certificates lib expired \<longleftrightarrow>
     (\<forall>tmpl parent pub priv d. xl_CreateCertificate lib tmpl parent pub priv = Inr d \<longrightarrow>
        (\<forall>t. (xt_NotAfter tmpl < t \<longrightarrow> expired d t) \<and>
             (xt_NotBefore tmpl \<le> t \<and> t + second \<le> xt_NotAfter tmpl \<longrightarrow> \<not> expired d t)))"

lemma dev_certificate_validity:
  assumes "dates_certificates lib expired" and "generateDevCertificate lib now1 now2 = Inr crt"
    and "d \<in> set (crt_Certificate crt)"
  shows "now2 + 24 * (60 * minute) < t \<Longrightarrow> expired d t"
    and "now1 \<le> t \<Longrightarrow> t + second \<le> now2 + 24 * (60 * minute) \<Longrightarrow> \<not> expired d t"
proof -
  obtain key serial where made:
      "xl_CreateCertificate lib (dev_template serial now1 now2) (dev_template serial now1 now2) (xl_PublicKey lib key) key = Inr d"
    using assms(2,3) by (auto simp: generateDevCertificate_def Let_def split: sum.splits)
  have dates: "xt_NotAfter (dev_template serial now1 now2) = now2 + 24 * (60 * minute)"
      "xt_NotBefore (dev_template serial now1 now2) \<le> now1"
    by (simp_all add: dev_template_def time_units)
  show "now2 + 24 * (60 * minute) < t \<Longrightarrow> expired d t"
    and "now1 \<le> t \<Longrightarrow> t + second \<le> now2 + 24 * (60 * minute) \<Longrightarrow> \<not> expired d t"
    using assms(1) made dates unfolding dates_certificates_def by auto
qed

subsection \<open>Loading\<close>

definition loadTLSConfig ::
  "'c result \<Rightarrow> 'c result \<Rightarrow> 'c tls_server \<Rightarrow> go_error option \<times> 'c tls_server" where
  "loadTLSConfig generated loaded s =
     (if ts_certFile s = '''' \<or> ts_keyFile s = '''' then
        (case generated of
           Inl e \<Rightarrow> (Some (Wrapf ''failed to generate dev TLS certificate: %w'' [] e), s)
         | Inr cert \<Rightarrow>
             (None, s\<lparr>ts_tlsConfig := Some \<lparr>tc_Certificates = [cert], tc_MinVersion = VersionTLS12,
                                           tc_GetConfigForClient = False\<rparr>\<rparr>))
      else
        (case loaded of
           Inl e \<Rightarrow> (Some (Wrapf ''failed to load TLS certificate: %w'' [] e), s)
         | Inr cert \<Rightarrow>
             (None, s\<lparr>ts_tlsConfig := Some \<lparr>tc_Certificates = [cert], tc_MinVersion = VersionTLS12,
                                           tc_GetConfigForClient = True\<rparr>\<rparr>)))"

definition tunnel_New :: "'c result \<Rightarrow> 'c result \<Rightarrow> string \<Rightarrow> string \<Rightarrow> 'c tls_server result" where
  "tunnel_New generated loaded certFile keyFile =
     (case loadTLSConfig generated loaded
             \<lparr>ts_certFile = certFile, ts_keyFile = keyFile, ts_tlsConfig = None, ts_listener = None,
              ts_watching = False\<rparr> of
        (Some e, _) \<Rightarrow> Inl e
      | (None, srv) \<Rightarrow>
          Inr (if certFile \<noteq> '''' \<and> keyFile \<noteq> '''' then srv\<lparr>ts_watching := True\<rparr> else srv))"

text \<open>\<open>listen\<close> is the error of \<^verbatim>\<open>tls.Listen\<close>, if any.\<close>

definition tunnel_Listen :: "go_error option \<Rightarrow> 'c tls_server \<Rightarrow> go_error option \<times> 'c tls_server" where
  "tunnel_Listen listen s =
     (case listen of
        Some e \<Rightarrow> (Some (Wrapf ''failed to start TLS listener: %w'' [] e), s)
      | None \<Rightarrow> (None, s\<lparr>ts_listener := ts_tlsConfig s\<rparr>))"

definition NewCertReloader :: "'c result \<Rightarrow> 'c tls_config result" where
  "NewCertReloader loaded =
     (case loaded of
        Inl e \<Rightarrow> Inl e
      | Inr cert \<Rightarrow> Inr \<lparr>tc_Certificates = [cert], tc_MinVersion = VersionTLS12,
                        tc_GetConfigForClient = False\<rparr>)"

subsection \<open>Watching\<close>

text \<open>
  The events of the watcher's loop. A write event carries what loading the files yields at that
  moment.
\<close>

datatype 'c watch_event =
    FileEvent bool "'c result" "'c result"   \<comment> \<open>the operation has the write bit; generator, loader\<close>
  | WatcherError go_error

fun watch_loop :: "'c watch_event list \<Rightarrow> 'c tls_server \<Rightarrow> 'c tls_server" where
  "watch_loop [] s = s"
| "watch_loop (FileEvent write generated loaded # evs) s =
     (if write then
        (case loadTLSConfig generated loaded s of (_, s1) \<Rightarrow> watch_loop evs s1)
      else watch_loop evs s)"
| "watch_loop (WatcherError e # evs) s = watch_loop evs s"

text \<open>\<open>added\<close> is the error of creating the watcher or of adding the file, if any.\<close>

definition watchCerts :: "go_error option \<Rightarrow> 'c watch_event list \<Rightarrow> 'c tls_server \<Rightarrow> 'c tls_server" where
  "watchCerts added evs s = (case added of Some e \<Rightarrow> s | None \<Rightarrow> watch_loop evs s)"

text \<open>
  What a client that connects is shown: \<^verbatim>\<open>GetConfigForClient\<close> returns \<^verbatim>\<open>nil\<close>, which tells the
  library to use the listener's own configuration.
\<close>

definition presented :: "'c tls_server \<Rightarrow> 'c list option" where
  "presented s = map_option tc_Certificates (ts_listener s)"

subsection \<open>Names of versions\<close>

definition hex_digit :: "uint16 \<Rightarrow> char" where
  "hex_digit d = ''0123456789abcdef'' ! unat d"

definition hex4 :: "uint16 \<Rightarrow> string" where
  "hex4 v = [hex_digit (drop_bit 12 v), hex_digit (drop_bit 8 v AND 15),
             hex_digit (drop_bit 4 v AND 15), hex_digit (v AND 15)]"

definition tlsVersionName :: "uint16 \<Rightarrow> string" where
  "tlsVersionName v =
     (if v = VersionTLS13 then ''TLS1.3''
      else if v = VersionTLS12 then ''TLS1.2''
      else if v = VersionTLS11 then ''TLS1.1''
      else if v = VersionTLS10 then ''TLS1.0''
      else ''0x'' @ hex4 v)"

definition tlsVersionNames :: "uint16 list \<Rightarrow> string list" where
  "tlsVersionNames vs = fold (\<lambda>v out. out @ [tlsVersionName v]) vs []"

lemma tlsVersionNames_map: "tlsVersionNames vs = map tlsVersionName vs"
proof -
  have "fold (\<lambda>v out. out @ [tlsVersionName v]) vs out = out @ map tlsVersionName vs" for out
    by (induction vs arbitrary: out) auto
  then show ?thesis by (simp add: tlsVersionNames_def)
qed

subsection \<open>What is logged of a connection\<close>

datatype zap_value = ZapString string | ZapBool bool | ZapInt int

record tls_state =
  cst_HandshakeComplete :: bool
  cst_ServerName :: string
  cst_Version :: uint16
  cst_CipherSuite :: uint16
  cst_PeerCertificates :: nat

record net_conn =
  nc_RemoteAddr :: "string option"
  nc_LocalAddr :: "string option"
  nc_tls :: "tls_state option"            \<comment> \<open>the connection is a \<^verbatim>\<open>*tls.Conn\<close>\<close>

definition connectionFields :: "(uint16 \<Rightarrow> string) \<Rightarrow> net_conn \<Rightarrow> (string \<times> zap_value) list" where
  "connectionFields suite_name conn =
     (let remote = (case nc_RemoteAddr conn of None \<Rightarrow> '''' | Some a \<Rightarrow> a);
          local = (case nc_LocalAddr conn of None \<Rightarrow> '''' | Some a \<Rightarrow> a);
          fields = [(''remote'', ZapString remote), (''local'', ZapString local)]
      in case nc_tls conn of
           None \<Rightarrow> fields
         | Some st \<Rightarrow>
             fields @
             [(''handshake_complete'', ZapBool (cst_HandshakeComplete st)),
              (''sni'', ZapString (cst_ServerName st)),
              (''tls_version'', ZapString (tlsVersionName (cst_Version st))),
              (''cipher_suite'', ZapString (suite_name (cst_CipherSuite st))),
              (''peer_cert_count'', ZapInt (int (cst_PeerCertificates st)))])"

lemma connectionFields_distinct: "distinct (map fst (connectionFields suite_name conn))"
  by (simp add: connectionFields_def Let_def split: option.split)

subsection \<open>What the watcher achieves\<close>

lemma loadTLSConfig_frame:
  "ts_listener (snd (loadTLSConfig g l s)) = ts_listener s"
  "ts_certFile (snd (loadTLSConfig g l s)) = ts_certFile s"
  "ts_keyFile (snd (loadTLSConfig g l s)) = ts_keyFile s"
  by (cases g; cases l; simp add: loadTLSConfig_def)+

lemma watch_loop_frame:
  "ts_listener (watch_loop evs s) = ts_listener s \<and> ts_certFile (watch_loop evs s) = ts_certFile s \<and>
   ts_keyFile (watch_loop evs s) = ts_keyFile s"
proof (induction evs arbitrary: s)
  case (Cons ev evs)
  then show ?case
    by (cases ev) (simp_all add: loadTLSConfig_frame case_prod_beta)
qed simp

text \<open>The certificate of the last write event whose files could be loaded.\<close>

fun last_loaded :: "'c watch_event list \<Rightarrow> 'c option" where
  "last_loaded [] = None"
| "last_loaded (FileEvent True g (Inr cert) # evs) =
     (case last_loaded evs of None \<Rightarrow> Some cert | Some c \<Rightarrow> Some c)"
| "last_loaded (_ # evs) = last_loaded evs"

lemma watch_loop_config:
  assumes "ts_certFile s \<noteq> ''''" and "ts_keyFile s \<noteq> ''''"
  shows "ts_tlsConfig (watch_loop evs s) =
    (case last_loaded evs of None \<Rightarrow> ts_tlsConfig s
     | Some cert \<Rightarrow> Some \<lparr>tc_Certificates = [cert], tc_MinVersion = VersionTLS12, tc_GetConfigForClient = True\<rparr>)"
  using assms
  by (induction evs arbitrary: s rule: last_loaded.induct)
     (auto simp: loadTLSConfig_def split: option.splits sum.splits)

lemma New_Listen:
  assumes "tunnel_New generated loaded certFile keyFile = Inr s" and "tunnel_Listen None s = (None, s1)"
  shows "ts_listener s1 = ts_tlsConfig s1"
    and "\<exists>crt. map_option tc_Certificates (ts_tlsConfig s1) = Some [crt] \<and>
      (if ts_watching s then loaded = Inr crt \<and> ts_certFile s1 \<noteq> '''' \<and> ts_keyFile s1 \<noteq> ''''
       else generated = Inr crt)"
  using assms by (auto simp: tunnel_New_def tunnel_Listen_def loadTLSConfig_def split: if_splits sum.splits)

text \<open>
  C38. What a client is shown never changes while the server listens. With certificate files the
  watcher installs every certificate it can load as the server's configuration (and keeps the
  previous one when they cannot be loaded), but clients are shown the certificate the listener started
  with, whatever events follow. Without files they are shown the throw-away certificate made at
  the start, which is valid for 24 hours from then on and expired for ever after.
\<close>

theorem clients_see_the_first_certificate:
  assumes "tunnel_New (generateDevCertificate lib now1 now2) loaded certFile keyFile = Inr s"
    and "tunnel_Listen None s = (None, s1)" and "dates_certificates lib expired"
  shows "\<exists>crt. presented (watchCerts added evs s1) = Some [crt] \<and>
    (if ts_watching s then loaded = Inr crt \<and>
       (added = None \<longrightarrow> map_option tc_Certificates (ts_tlsConfig (watchCerts added evs s1)) =
          Some [case last_loaded evs of None \<Rightarrow> crt | Some c \<Rightarrow> c])
     else generateDevCertificate lib now1 now2 = Inr crt \<and>
       (\<forall>d \<in> set (crt_Certificate crt). \<forall>t.
          (now1 \<le> t \<and> t + second \<le> now2 + 24 * (60 * minute) \<longrightarrow> \<not> expired d t) \<and>
          (now2 + 24 * (60 * minute) < t \<longrightarrow> expired d t)))"
proof -
  obtain crt where crt: "map_option tc_Certificates (ts_tlsConfig s1) = Some [crt]"
      "if ts_watching s then loaded = Inr crt \<and> ts_certFile s1 \<noteq> '''' \<and> ts_keyFile s1 \<noteq> ''''
       else generateDevCertificate lib now1 now2 = Inr crt"
    using New_Listen(2) [OF assms(1,2)] by blast
  have "presented (watchCerts added evs s1) = Some [crt]"
    using crt(1) watch_loop_frame [of evs s1] New_Listen(1) [OF assms(1,2)]
    by (cases added) (simp_all add: watchCerts_def presented_def)
  moreover have "map_option tc_Certificates (ts_tlsConfig (watch_loop evs s1)) =
      Some [case last_loaded evs of None \<Rightarrow> crt | Some c \<Rightarrow> c]" if "ts_watching s"
    using that crt watch_loop_config [of s1 evs] by (simp split: option.split)
  ultimately show ?thesis
    using crt(2) dev_certificate_validity [OF assms(3)]
    by (intro exI [of _ crt]) (auto simp: watchCerts_def split: if_splits)
qed

text \<open>Witnesses' library: a certificate is its template, and expires when the template says so.\<close>

definition plain_x509 :: "(nat, nat, x509_template) x509_lib" where
  "plain_x509 = \<lparr>xl_GenerateKey = Inr 5, xl_rand_Int = (\<lambda>_. Inr 9), xl_PublicKey = Suc,
     xl_CreateCertificate = (\<lambda>tmpl parent pub priv. Inr tmpl)\<rparr>"

theorem clients_see_the_first_certificate_witness:
  "\<exists>s s1 d. tunnel_New (generateDevCertificate plain_x509 0 1) (Inl (Foreign ''no file'')) '''' '''' = Inr s \<and>
     tunnel_Listen None s = (None, s1) \<and>
     map_option (concat \<circ> map crt_Certificate) (presented (watchCerts None [FileEvent True (Inl (Foreign ''rng'')) (Inl (Foreign ''no file''))] s1)) = Some [d] \<and>
     xt_NotAfter d < 24 * (60 * minute) + 2"
proof -
  let ?g = "generateDevCertificate plain_x509 0 1"
  obtain s s1 where s: "tunnel_New ?g (Inl (Foreign ''no file'')) '''' '''' = Inr s" "tunnel_Listen None s = (None, s1)"
      and w: "\<not> ts_watching s"
    by (simp add: tunnel_New_def loadTLSConfig_def tunnel_Listen_def generateDevCertificate_def plain_x509_def)
  have dated: "dates_certificates plain_x509 (\<lambda>d t. xt_NotAfter d < t)"
    by (auto simp: dates_certificates_def plain_x509_def second_def)
  from clients_see_the_first_certificate [OF s dated, of None "[FileEvent True (Inl (Foreign ''rng'')) (Inl (Foreign ''no file''))]"] w
  obtain crt where "presented (watchCerts None [FileEvent True (Inl (Foreign ''rng'')) (Inl (Foreign ''no file''))] s1) = Some [crt]"
      "?g = Inr crt" "\<forall>d \<in> set (crt_Certificate crt). xt_NotAfter d < 24 * (60 * minute) + 2"
    by auto
  then show ?thesis using s by (auto simp: generateDevCertificate_def plain_x509_def)
qed

end
