(* ===== verification/Mesh_Config.thy ===== *)
theory Mesh_Config
  imports Mesh_Prelude "HOL-Library.Word"
begin

section \<open>Configuration (pkg/config/config.go)\<close>

text \<open>
  What the server is configured with, how the code sets up the configuration library (viper), and
  the checks it makes on what the library decoded. The library is a parameter: what reading a file
  or a document yields (\<open>'d\<close>), and the structure it decodes from that and from the settings. The
  disk is a function \<open>stat\<close> from paths to the error of \<^verbatim>\<open>os.Stat\<close>.
\<close>

subsection \<open>The schema\<close>

record server_config =
  sc_GRPCAddress :: string
  sc_MetricsAddress :: string

record listener_config =
  lc_Address :: string
  lc_CertFile :: string
  lc_KeyFile :: string
  lc_CAFile :: string

record logging_config =
  gc_Level :: string

record auth_config =
  ac_Enabled :: bool
  ac_AllowedTokens :: "string list"
  ac_NodeTokens :: "string \<rightharpoonup> string"

record mesh_config =
  mc_Server :: server_config
  mc_Listener :: listener_config
  mc_Logging :: logging_config
  mc_Auth :: auth_config

subsection \<open>The settings of viper\<close>

datatype setting = StrSetting string | BoolSetting bool

record viper =
  vp_defaults :: "(string \<times> setting) list"
  vp_envReplacer :: "(string \<times> string) option"
  vp_automaticEnv :: bool
  vp_boundEnv :: "string list"
  vp_configFile :: "string option"
  vp_configName :: string
  vp_configType :: string
  vp_configPaths :: "string list"

definition viper_New :: viper where
  "viper_New =
     \<lparr>vp_defaults = [], vp_envReplacer = None, vp_automaticEnv = False, vp_boundEnv = [],
      vp_configFile = None, vp_configName = ''config'', vp_configType = '''', vp_configPaths = []\<rparr>"

definition SetDefault :: "string \<Rightarrow> setting \<Rightarrow> viper \<Rightarrow> viper" where
  "SetDefault k s v = v\<lparr>vp_defaults := vp_defaults v @ [(k, s)]\<rparr>"

definition BindEnv :: "string \<Rightarrow> viper \<Rightarrow> viper" where
  "BindEnv k v = v\<lparr>vp_boundEnv := vp_boundEnv v @ [k]\<rparr>"

definition env_keys :: "string list" where
  "env_keys = [''server.grpc_address'', ''server.metrics_address'', ''listener.address'',
     ''listener.cert_file'', ''listener.key_file'', ''listener.ca_file'', ''logging.level'', ''auth.enabled'']"

definition newViper :: viper where
  "newViper =
     (let v = viper_New;
          v = SetDefault ''server.grpc_address'' (StrSetting '':50051'') v;
          v = SetDefault ''server.metrics_address'' (StrSetting '':9090'') v;
          v = SetDefault ''listener.address'' (StrSetting '':8443'') v;
          v = SetDefault ''logging.level'' (StrSetting ''info'') v;
          v = SetDefault ''auth.enabled'' (BoolSetting False) v;
          v = v\<lparr>vp_envReplacer := Some (''.'', ''_'')\<rparr>;
          v = v\<lparr>vp_automaticEnv := True\<rparr>
      in fold BindEnv env_keys v)"

subsection \<open>Loading\<close>

definition loadFromViper :: "(string \<Rightarrow> go_error option) \<Rightarrow> mesh_config result \<Rightarrow> mesh_config result" where
  "loadFromViper stat decoded =
     (case decoded of
        Inl e \<Rightarrow> Inl (Wrapf ''failed to unmarshal config: %w'' [] e)
      | Inr cfg \<Rightarrow>
          let cert = lc_CertFile (mc_Listener cfg); key = lc_KeyFile (mc_Listener cfg) in
          if (cert = '''') \<noteq> (key = '''') then
            Inl (Errorf ''listener.cert_file and listener.key_file must be configured together (got cert=%q key=%q)''
                   [ArgStr cert, ArgStr key])
          else
            (case (if cert \<noteq> '''' then stat cert else None) of
               Some e \<Rightarrow> Inl (Wrapf ''cert file not found: %w'' [] e)
             | None \<Rightarrow>
                 (case (if key \<noteq> '''' then stat key else None) of
                    Some e \<Rightarrow> Inl (Wrapf ''key file not found: %w'' [] e)
                  | None \<Rightarrow> Inr cfg)))"

text \<open>A failed read; \<^verbatim>\<open>viper.ConfigFileNotFoundError\<close> is told apart by its type.\<close>

datatype read_error = ConfigFileNotFound go_error | OtherReadError go_error

fun read_cause :: "read_error \<Rightarrow> go_error" where
  "read_cause (ConfigFileNotFound e) = e"
| "read_cause (OtherReadError e) = e"

record 'd viper_lib =
  vl_ReadInConfig :: "viper \<Rightarrow> read_error + 'd"
  vl_ReadConfig :: "viper \<Rightarrow> string \<Rightarrow> go_error + 'd"
  vl_Unmarshal :: "viper \<Rightarrow> 'd option \<Rightarrow> mesh_config result"

definition Load :: "'d viper_lib \<Rightarrow> (string \<Rightarrow> go_error option) \<Rightarrow> string \<Rightarrow> mesh_config result" where
  "Load lib stat path =
     (let v = newViper;
          v = (if path \<noteq> '''' then v\<lparr>vp_configFile := Some path\<rparr>
               else v\<lparr>vp_configName := ''config'', vp_configType := ''yaml'',
                      vp_configPaths := vp_configPaths v @ [''./config'', ''.'']\<rparr>)
      in case vl_ReadInConfig lib v of
           Inr d \<Rightarrow> loadFromViper stat (vl_Unmarshal lib v (Some d))
         | Inl err \<Rightarrow>
             (case err of
                ConfigFileNotFound e \<Rightarrow>
                  if path = '''' then loadFromViper stat (vl_Unmarshal lib v None)
                  else Inl (Wrapf ''failed to read config: %w'' [] e)
              | OtherReadError e \<Rightarrow> Inl (Wrapf ''failed to read config: %w'' [] e)))"

definition LoadBytes :: "'d viper_lib \<Rightarrow> (string \<Rightarrow> go_error option) \<Rightarrow> string \<Rightarrow> mesh_config result" where
  "LoadBytes lib stat data =
     (let v = newViper\<lparr>vp_configType := ''json''\<rparr> in
      case vl_ReadConfig lib v data of
        Inl e \<Rightarrow> Inl (Wrapf ''failed to read config: %w'' [] e)
      | Inr d \<Rightarrow> loadFromViper stat (vl_Unmarshal lib v (Some d)))"

subsection \<open>What is accepted\<close>

definition config_usable :: "(string \<Rightarrow> go_error option) \<Rightarrow> mesh_config \<Rightarrow> bool" where
  "config_usable stat cfg \<longleftrightarrow>
     lc_CertFile (mc_Listener cfg) = '''' \<and> lc_KeyFile (mc_Listener cfg) = '''' \<or>
     lc_CertFile (mc_Listener cfg) \<noteq> '''' \<and> lc_KeyFile (mc_Listener cfg) \<noteq> '''' \<and>
     stat (lc_CertFile (mc_Listener cfg)) = None \<and> stat (lc_KeyFile (mc_Listener cfg)) = None"

lemma loadFromViper_iff:
  "loadFromViper stat decoded = Inr cfg \<longleftrightarrow> decoded = Inr cfg \<and> config_usable stat cfg"
  by (auto simp: loadFromViper_def config_usable_def Let_def split: sum.splits if_splits option.splits)

lemma newViper_unfold:
  "newViper =
     \<lparr>vp_defaults = [(''server.grpc_address'', StrSetting '':50051''), (''server.metrics_address'', StrSetting '':9090''),
        (''listener.address'', StrSetting '':8443''), (''logging.level'', StrSetting ''info''),
        (''auth.enabled'', BoolSetting False)],
      vp_envReplacer = Some (''.'', ''_''), vp_automaticEnv = True, vp_boundEnv = env_keys,
      vp_configFile = None, vp_configName = ''config'', vp_configType = '''', vp_configPaths = []\<rparr>"
  by (simp add: newViper_def viper_New_def SetDefault_def BindEnv_def env_keys_def Let_def)

lemma every_default_has_an_env_binding: "fst ` set (vp_defaults newViper) \<subseteq> set (vp_boundEnv newViper)"
  by (simp add: newViper_unfold env_keys_def)

text \<open>
  Loading never returns a half-configured TLS pair: from a file, from the defaults or from a
  document, it returns a configuration exactly when the library decoded that one and its certificate
  and key files are either both unset or both set and present on the disk. A missing file is only
  forgiven when no path was given.
\<close>

lemma loaded_configuration_is_usable:
  "(Load lib stat path = Inr cfg \<longleftrightarrow>
     (let v = (if path \<noteq> '''' then newViper\<lparr>vp_configFile := Some path\<rparr>
               else newViper\<lparr>vp_configType := ''yaml'', vp_configPaths := [''./config'', ''.'']\<rparr>)
      in config_usable stat cfg \<and>
         ((\<exists>d. vl_ReadInConfig lib v = Inr d \<and> vl_Unmarshal lib v (Some d) = Inr cfg) \<or>
          (path = '''' \<and> (\<exists>e. vl_ReadInConfig lib v = Inl (ConfigFileNotFound e)) \<and>
           vl_Unmarshal lib v None = Inr cfg)))) \<and>
   (LoadBytes lib stat data = Inr cfg \<longleftrightarrow>
     config_usable stat cfg \<and>
     (\<exists>d. vl_ReadConfig lib (newViper\<lparr>vp_configType := ''json''\<rparr>) data = Inr d \<and>
        vl_Unmarshal lib (newViper\<lparr>vp_configType := ''json''\<rparr>) (Some d) = Inr cfg))"
proof (rule conjI)
  have v: "newViper\<lparr>vp_configName := ''config'', vp_configType := ''yaml'',
      vp_configPaths := vp_configPaths newViper @ [''./config'', ''.'']\<rparr> =
    newViper\<lparr>vp_configType := ''yaml'', vp_configPaths := [''./config'', ''.'']\<rparr>"
    by (simp add: newViper_unfold)
  show "Load lib stat path = Inr cfg \<longleftrightarrow>
     (let v = (if path \<noteq> '''' then newViper\<lparr>vp_configFile := Some path\<rparr>
               else newViper\<lparr>vp_configType := ''yaml'', vp_configPaths := [''./config'', ''.'']\<rparr>)
      in config_usable stat cfg \<and>
         ((\<exists>d. vl_ReadInConfig lib v = Inr d \<and> vl_Unmarshal lib v (Some d) = Inr cfg) \<or>
          (path = '''' \<and> (\<exists>e. vl_ReadInConfig lib v = Inl (ConfigFileNotFound e)) \<and>
           vl_Unmarshal lib v None = Inr cfg)))"
    unfolding Load_def Let_def v
    by (auto simp: loadFromViper_iff split: sum.splits read_error.splits if_splits)
  show "LoadBytes lib stat data = Inr cfg \<longleftrightarrow>
     config_usable stat cfg \<and>
     (\<exists>d. vl_ReadConfig lib (newViper\<lparr>vp_configType := ''json''\<rparr>) data = Inr d \<and>
        vl_Unmarshal lib (newViper\<lparr>vp_configType := ''json''\<rparr>) (Some d) = Inr cfg)"
    by (auto simp: LoadBytes_def Let_def loadFromViper_iff split: sum.splits)
qed

end
