(* ===== verification/Mesh_Logging.thy ===== *)
theory Mesh_Logging
  imports Mesh_Prelude
begin

section \<open>Logging (pkg/logging/logging.go)\<close>

text \<open>
  How the log level is read, what the logger is configured with, and when the global logger exists.
  The logging library is a parameter: \<open>build\<close> is what \<^verbatim>\<open>config.Build\<close> makes of the configuration
  (\<open>'l\<close> is a logger). The library's own copy of the global logger (\<^verbatim>\<open>zap.ReplaceGlobals\<close>) is read by
  no code of the repository and is left out.
\<close>

datatype log_level = DebugLevel | InfoLevel | WarnLevel | ErrorLevel | FatalLevel

text \<open>The levels are ordered by severity: a logger writes the entries of its level and above.\<close>

fun severity :: "log_level \<Rightarrow> int" where
  "severity DebugLevel = -1"
| "severity InfoLevel = 0"
| "severity WarnLevel = 1"
| "severity ErrorLevel = 2"
| "severity FatalLevel = 5"

lemma severity_inj: "severity a = severity b \<Longrightarrow> a = b"
  by (cases a; cases b) simp_all

instantiation log_level :: linorder
begin

definition less_eq_log_level :: "log_level \<Rightarrow> log_level \<Rightarrow> bool" where
  "less_eq_log_level a b \<longleftrightarrow> severity a \<le> severity b"

definition less_log_level :: "log_level \<Rightarrow> log_level \<Rightarrow> bool" where
  "less_log_level a b \<longleftrightarrow> severity a < severity b"

instance
  by standard (auto simp: less_eq_log_level_def less_log_level_def intro: severity_inj)

end

record zap_encoder =
  ze_keys :: "string list"      \<comment> \<open>time, level, name, caller, function, message, stack trace\<close>
  ze_line_ending :: string
  ze_styles :: "string list"    \<comment> \<open>how level, time, duration and caller are written\<close>

record zap_config =
  zc_Level :: log_level
  zc_Development :: bool
  zc_Encoding :: string
  zc_EncoderConfig :: zap_encoder
  zc_OutputPaths :: "string list"
  zc_ErrorOutputPaths :: "string list"

text \<open>
  \<^verbatim>\<open>zapcore.OmitKey\<close> is the empty key and \<^verbatim>\<open>zapcore.DefaultLineEnding\<close> a newline; an encoder bears
  the name of the library's function.
\<close>

definition encoderConfig :: zap_encoder where
  "encoderConfig =
     \<lparr>ze_keys = [''ts'', ''level'', ''logger'', ''caller'', '''', ''msg'', ''stacktrace''],
      ze_line_ending = [CHR 0x0A],
      ze_styles = [''CapitalColorLevelEncoder'', ''ISO8601TimeEncoder'', ''SecondsDurationEncoder'',
                   ''ShortCallerEncoder'']\<rparr>"

definition zap_config_of :: "log_level \<Rightarrow> zap_config" where
  "zap_config_of zapLevel =
     \<lparr>zc_Level = zapLevel, zc_Development = False, zc_Encoding = ''console'', zc_EncoderConfig = encoderConfig,
      zc_OutputPaths = [''stdout''], zc_ErrorOutputPaths = [''stderr'']\<rparr>"

definition lower_char :: "char \<Rightarrow> char" where
  "lower_char c = (let n = of_char c :: nat in if 65 \<le> n \<and> n \<le> 90 then char_of (n + 32) else c)"

text \<open>
  \<^verbatim>\<open>strings.ToLower\<close> on UTF-8. Two letters outside ASCII have a lower case inside it, the
  dotted capital I and the Kelvin sign. All others stay outside ASCII; they are kept as they are,
  which no case of \<^verbatim>\<open>parseLevel\<close> can tell from their lower case.
\<close>

fun ToLower :: "string \<Rightarrow> string" where
  "ToLower [] = []"
| "ToLower (c # s) =
     (case s of
        d # t \<Rightarrow>
          if c = CHR 0xC4 \<and> d = CHR 0xB0 then CHR ''i'' # ToLower t
          else
            (case t of
               e # u \<Rightarrow>
                 if c = CHR 0xE2 \<and> d = CHR 0x84 \<and> e = CHR 0xAA then CHR ''k'' # ToLower u
                 else lower_char c # ToLower s
             | [] \<Rightarrow> lower_char c # ToLower s)
      | [] \<Rightarrow> [lower_char c])"

definition parseLevel :: "string \<Rightarrow> log_level \<times> go_error option" where
  "parseLevel level =
     (let l = ToLower level in
      if l = ''debug'' then (DebugLevel, None)
      else if l = ''info'' \<or> l = '''' then (InfoLevel, None)
      else if l = ''warn'' \<or> l = ''warning'' then (WarnLevel, None)
      else if l = ''error'' then (ErrorLevel, None)
      else if l = ''fatal'' then (FatalLevel, None)
      else (InfoLevel, Some (Errorf ''unknown log level: %s'' [ArgStr level])))"

text \<open>The global logger is \<open>None\<close> before it is set.\<close>

definition log_Init :: "(zap_config \<Rightarrow> 'l result) \<Rightarrow> string \<Rightarrow> 'l option \<Rightarrow> go_error option \<times> 'l option" where
  "log_Init build level logger =
     (case parseLevel level of
        (zapLevel, Some err) \<Rightarrow> (Some err, logger)
      | (zapLevel, None) \<Rightarrow>
          (case build (zap_config_of zapLevel) of
             Inl err \<Rightarrow> (Some (Wrapf ''failed to build logger: %w'' [] err), logger)
           | Inr l \<Rightarrow> (None, Some l)))"

definition MustInit ::
  "(zap_config \<Rightarrow> 'l result) \<Rightarrow> (go_error \<Rightarrow> string) \<Rightarrow> string \<Rightarrow> 'l option \<Rightarrow> 'l option outcome" where
  "MustInit build error_text level logger =
     (case log_Init build level logger of
        (Some err, l) \<Rightarrow> Panic (error_text err)
      | (None, l) \<Rightarrow> Return l)"

definition log_L :: "'l \<Rightarrow> 'l option \<Rightarrow> 'l \<times> 'l option" where
  "log_L nop logger = (case logger of None \<Rightarrow> (nop, Some nop) | Some l \<Rightarrow> (l, Some l))"

lemma parseLevel_examples:
  "parseLevel ''WARN'' = (WarnLevel, None)" "parseLevel '''' = (InfoLevel, None)"
  "parseLevel [CHR 0xC4, CHR 0xB0, CHR ''N'', CHR ''F'', CHR ''O''] = (InfoLevel, None)"
  "snd (parseLevel ''verbose'') \<noteq> None"
  by code_simp+

text \<open>Only the level that asks for it hides errors.\<close>

lemma log_Init_shows_errors:
  assumes "log_Init build level logger = (None, l)"
  shows "\<exists>zapLevel lg. parseLevel level = (zapLevel, None) \<and> build (zap_config_of zapLevel) = Inr lg \<and>
    l = Some lg \<and> (zapLevel \<le> ErrorLevel \<or> ToLower level = ''fatal'')"
  using assms
  by (auto simp: log_Init_def parseLevel_def Let_def less_eq_log_level_def
      split: prod.splits option.splits sum.splits if_splits)

lemma log_Init_keeps_logger: "log_Init build level logger = (Some e, l) \<Longrightarrow> l = logger"
  by (auto simp: log_Init_def split: prod.splits option.splits sum.splits)

end
