(* ===== verification/Server_Lifecycle.thy ===== *)
theory Server_Lifecycle
  imports Invoke_Proxy Auth_Policy Tunnel_Tls Mesh_Config Mesh_Logging
begin

section \<open>The server's life (pkg/server/server.go, pkg/metrics/metrics.go)\<close>

text \<open>
  How the server is put together, started and stopped. A listening socket is a number. Whether the
  system lets a socket be bound is an argument of the start. The gRPC server is a library: a
  parameter with its listening sockets. A goroutine that serves a socket it has not yet begun to
  serve is recorded as pending, since a stop may come first.
\<close>

type_synonym socket = nat

subsection \<open>The metrics exporter\<close>

text \<open>
  \<open>me_open\<close> are the sockets of the exporter that are open. \<^verbatim>\<open>http.Server.Close\<close> closes the socket
  being served; a goroutine that enters \<^verbatim>\<open>Serve\<close> only afterwards closes it itself.
\<close>

record exporter =
  me_addr :: string
  me_server :: "socket option"
  me_open :: "socket set"

abbreviation ErrAlreadyStarted :: go_error where
  "ErrAlreadyStarted \<equiv> Sentinel ''metrics.ErrAlreadyStarted''"

definition NewExporter :: "string \<Rightarrow> exporter" where
  "NewExporter addr = \<lparr>me_addr = addr, me_server = None, me_open = {}\<rparr>"

definition Exporter_Start :: "socket result \<Rightarrow> exporter \<Rightarrow> go_error option \<times> exporter" where
  "Exporter_Start bound e =
     (if me_server e \<noteq> None then (Some ErrAlreadyStarted, e)
      else
        (case bound of
           Inl err \<Rightarrow> (Some (Wrapf ''metrics listener on %s: %w'' [ArgStr (me_addr e)] err), e)
         | Inr lsn \<Rightarrow> (None, e\<lparr>me_server := Some lsn, me_open := insert lsn (me_open e)\<rparr>)))"

text \<open>\<open>closing\<close> is the error of \<^verbatim>\<open>srv.Close\<close>.\<close>

definition Exporter_Stop :: "go_error option \<Rightarrow> exporter \<Rightarrow> go_error option \<times> exporter" where
  "Exporter_Stop closing e =
     (case me_server e of
        None \<Rightarrow> (None, e)
      | Some srv \<Rightarrow> (closing, e\<lparr>me_server := None, me_open := me_open e - {srv}\<rparr>))"

subsection \<open>The gRPC library\<close>

record 'g grpc_lib =
  gl_NewServer :: 'g
  gl_Serve :: "socket \<Rightarrow> 'g \<Rightarrow> 'g"              \<comment> \<open>entering \<^verbatim>\<open>Serve\<close>\<close>
  gl_GracefulStop :: "'g \<Rightarrow> 'g"
  gl_listening :: "'g \<Rightarrow> socket set"
  gl_stopped :: "'g \<Rightarrow> bool"

text \<open>
  What the library documents: a server serves the sockets it was given until it is stopped, which
  closes them; \<^verbatim>\<open>Serve\<close> on a stopped server closes its socket and returns an error.
\<close>

definition grpc_documented :: "'g grpc_lib \<Rightarrow> bool" where
  "grpc_documented lib \<longleftrightarrow>
     gl_listening lib (gl_NewServer lib) = {} \<and> \<not> gl_stopped lib (gl_NewServer lib) \<and>
     (\<forall>g. gl_listening lib (gl_GracefulStop lib g) = {} \<and> gl_stopped lib (gl_GracefulStop lib g)) \<and>
     (\<forall>g l. gl_stopped lib (gl_Serve lib l g) = gl_stopped lib g \<and>
        gl_listening lib (gl_Serve lib l g) =
          (if gl_stopped lib g then gl_listening lib g else insert l (gl_listening lib g)))"

subsection \<open>The server\<close>

record ('c, 'g) mesh_server =
  sv_cfg :: mesh_config
  sv_cancelled :: bool                       \<comment> \<open>\<open>s.ctx\<close>, on which the cleanup loop runs\<close>
  sv_policy :: auth_policy
  sv_tunnel :: "'c tls_server"
  sv_tunnelCancelled :: bool
  sv_tunnelListener :: "socket option"
  sv_tunnelOpen :: "socket set"
  sv_grpc :: 'g
  sv_grpcPending :: "socket list"
  sv_metrics :: exporter
  sv_gateway :: gateway
  sv_proxy :: proxy                          \<comment> \<open>with the session registry\<close>

definition server_New ::
  "'g grpc_lib \<Rightarrow> (zap_config \<Rightarrow> 'l result) \<Rightarrow> 'c result \<Rightarrow> 'c result \<Rightarrow> string list \<Rightarrow>
   (yamux \<Rightarrow> go_error option) \<Rightarrow> mesh_config \<Rightarrow> 'l option \<Rightarrow> ('c, 'g) mesh_server result \<times> 'l option" where
  "server_New lib build generated loaded order yerr cfg logger =
     (case log_Init build (gc_Level (mc_Logging cfg)) logger of
        (Some e, lg) \<Rightarrow> (Inl (Wrapf ''failed to init logging: %w'' [] e), lg)
      | (None, lg) \<Rightarrow>
          let reg = NewRegistry yerr;
              auth = mc_Auth cfg;
              authPolicy = NewAuthPolicy order (ac_Enabled auth) (ac_AllowedTokens auth) (ac_NodeTokens auth)
          in (case tunnel_New generated loaded (lc_CertFile (mc_Listener cfg)) (lc_KeyFile (mc_Listener cfg)) of
                Inl e \<Rightarrow> (Inl (Wrapf ''failed to create tunnel server: %w'' [] e), lg)
              | Inr tunnelSrv \<Rightarrow>
                  (Inr \<lparr>sv_cfg = cfg, sv_cancelled = False, sv_policy = authPolicy, sv_tunnel = tunnelSrv,
                        sv_tunnelCancelled = False, sv_tunnelListener = None, sv_tunnelOpen = {},
                        sv_grpc = gl_NewServer lib, sv_grpcPending = [],
                        sv_metrics = NewExporter (sc_MetricsAddress (mc_Server cfg)),
                        sv_gateway = NewGateway, sv_proxy = NewInvokeProxy reg None None\<rparr>, lg)))"

text \<open>The three bindings of a start: what \<^verbatim>\<open>Listen\<close> returns, should it be called.\<close>

record bindings =
  bd_metrics :: "socket result"
  bd_tunnel :: "socket result"
  bd_grpc :: "socket result"

definition tunnel_start :: "socket result \<Rightarrow> ('c, 'g) mesh_server \<Rightarrow> go_error option \<times> ('c, 'g) mesh_server" where
  "tunnel_start bound s =
     (case bound of
        Inl err \<Rightarrow> (fst (tunnel_Listen (Some err) (sv_tunnel s)), s)
      | Inr lsn \<Rightarrow>
          (None, s\<lparr>sv_tunnel := snd (tunnel_Listen None (sv_tunnel s)), sv_tunnelListener := Some lsn,
                   sv_tunnelOpen := insert lsn (sv_tunnelOpen s)\<rparr>))"

definition server_Start :: "bindings \<Rightarrow> ('c, 'g) mesh_server \<Rightarrow> go_error option \<times> ('c, 'g) mesh_server" where
  "server_Start bd s =
     (case Exporter_Start (bd_metrics bd) (sv_metrics s) of
        (Some e, m) \<Rightarrow> (Some (Wrapf ''failed to start metrics: %w'' [] e), s\<lparr>sv_metrics := m\<rparr>)
      | (None, m) \<Rightarrow>
          (case tunnel_start (bd_tunnel bd) (s\<lparr>sv_metrics := m\<rparr>) of
             (Some e, s1) \<Rightarrow> (Some (Wrapf ''failed to start tunnel: %w'' [] e), s1)
           | (None, s1) \<Rightarrow>
               (case bd_grpc bd of
                  Inl e \<Rightarrow>
                    (Some (Wrapf ''failed to listen on %s: %w'' [ArgStr (sc_GRPCAddress (mc_Server (sv_cfg s)))] e), s1)
                | Inr lis \<Rightarrow> (None, s1\<lparr>sv_grpcPending := sv_grpcPending s1 @ [lis]\<rparr>))))"

text \<open>The goroutine of a start enters \<^verbatim>\<open>Serve\<close>; its error is only logged.\<close>

definition grpc_serve :: "'g grpc_lib \<Rightarrow> socket \<Rightarrow> ('c, 'g) mesh_server \<Rightarrow> ('c, 'g) mesh_server" where
  "grpc_serve lib lis s =
     s\<lparr>sv_grpc := gl_Serve lib lis (sv_grpc s), sv_grpcPending := remove1 lis (sv_grpcPending s)\<rparr>"

definition tunnel_stop :: "('c, 'g) mesh_server \<Rightarrow> ('c, 'g) mesh_server" where
  "tunnel_stop s =
     s\<lparr>sv_tunnelCancelled := True,
       sv_tunnelOpen := (case sv_tunnelListener s of None \<Rightarrow> sv_tunnelOpen s | Some lsn \<Rightarrow> sv_tunnelOpen s - {lsn})\<rparr>"

definition server_Stop :: "'g grpc_lib \<Rightarrow> go_error option \<Rightarrow> ('c, 'g) mesh_server \<Rightarrow> ('c, 'g) mesh_server" where
  "server_Stop lib closing s =
     (let s1 = s\<lparr>sv_cancelled := True\<rparr>;
          s2 = s1\<lparr>sv_grpc := gl_GracefulStop lib (sv_grpc s1)\<rparr>;
          s3 = tunnel_stop s2
      in s3\<lparr>sv_metrics := snd (Exporter_Stop closing (sv_metrics s3))\<rparr>)"

definition ReverseGateway :: "('c, 'g) mesh_server \<Rightarrow> gateway" where
  "ReverseGateway s = sv_gateway s"

definition server_Registry :: "('c, 'g) mesh_server \<Rightarrow> registry" where
  "server_Registry s = px_registry (sv_proxy s)"

definition InvokePlane_Invoke ::
  "('str, 'cc) call_env \<Rightarrow> gateway \<Rightarrow> go_ctx \<Rightarrow> invoke_request \<Rightarrow> registry \<Rightarrow> invoke_response result outcome" where
  "InvokePlane_Invoke env g ctx req st = Gateway_Invoke env g ctx (rq_PeerId req) req st"

subsection \<open>Runs\<close>

text \<open>
  A run: starts and stops by the owner, and the goroutines of earlier starts entering \<^verbatim>\<open>Serve\<close>.
  The errors of the starts are collected.
\<close>

datatype server_op = DoStart bindings | DoStop "go_error option" | DoServe socket

fun server_step :: "'g grpc_lib \<Rightarrow> server_op \<Rightarrow> ('c, 'g) mesh_server \<Rightarrow> ('c, 'g) mesh_server" where
  "server_step lib (DoStart bd) s = snd (server_Start bd s)"
| "server_step lib (DoStop closing) s = server_Stop lib closing s"
| "server_step lib (DoServe lis) s = (if lis \<in> set (sv_grpcPending s) then grpc_serve lib lis s else s)"

definition server_run :: "'g grpc_lib \<Rightarrow> server_op list \<Rightarrow> ('c, 'g) mesh_server \<Rightarrow> ('c, 'g) mesh_server" where
  "server_run lib ops s = fold (server_step lib) ops s"

definition open_sockets :: "'g grpc_lib \<Rightarrow> ('c, 'g) mesh_server \<Rightarrow> socket set" where
  "open_sockets lib s =
     me_open (sv_metrics s) \<union> sv_tunnelOpen s \<union> gl_listening lib (sv_grpc s) \<union> set (sv_grpcPending s)"

text \<open>No component holds a socket it has lost track of.\<close>

definition no_leak :: "('c, 'g) mesh_server \<Rightarrow> bool" where
  "no_leak s \<longleftrightarrow>
     me_open (sv_metrics s) = set_option (me_server (sv_metrics s)) \<and>
     sv_tunnelOpen s \<subseteq> set_option (sv_tunnelListener s) \<and>
     (me_server (sv_metrics s) = None \<longrightarrow> sv_tunnelOpen s = {})"

lemma no_leak_New:
  "server_New lib build g l order yerr cfg lg = (Inr s, lg') \<Longrightarrow>
   no_leak s \<and> sv_grpc s = gl_NewServer lib \<and> sv_grpcPending s = []"
  by (auto simp: server_New_def Let_def no_leak_def NewExporter_def split: prod.splits option.splits sum.splits)

lemma no_leak_Start: "no_leak s \<Longrightarrow> no_leak (snd (server_Start bd s))"
  by (auto simp: server_Start_def Exporter_Start_def tunnel_start_def tunnel_Listen_def no_leak_def
      split: prod.splits option.splits sum.splits)

lemma no_leak_Stop: "no_leak s \<Longrightarrow> no_leak (server_Stop lib closing s)"
  by (auto simp: server_Stop_def tunnel_stop_def Exporter_Stop_def no_leak_def Let_def split: option.splits)

lemma no_leak_step: "no_leak s \<Longrightarrow> no_leak (server_step lib c s)"
proof (cases c)
  case (DoServe lis)
  then show "no_leak s \<Longrightarrow> ?thesis" by (simp add: grpc_serve_def no_leak_def)
qed (simp_all add: no_leak_Start no_leak_Stop)

lemma no_leak_run: "no_leak s \<Longrightarrow> no_leak (server_run lib ops s)"
  by (induction ops arbitrary: s) (simp_all add: server_run_def no_leak_step)

lemma Stop_closes:
  assumes "no_leak s" and "grpc_documented lib"
  shows "open_sockets lib (server_Stop lib closing s) = set (sv_grpcPending s) \<and>
    sv_grpcPending (server_Stop lib closing s) = sv_grpcPending s \<and>
    gl_stopped lib (sv_grpc (server_Stop lib closing s))"
  using assms
  by (auto simp: open_sockets_def server_Stop_def tunnel_stop_def Exporter_Stop_def no_leak_def grpc_documented_def
      Let_def split: option.splits)

text \<open>Once stopped, the gRPC server never listens again, and the two contexts stay cancelled.\<close>

definition retired :: "'g grpc_lib \<Rightarrow> ('c, 'g) mesh_server \<Rightarrow> bool" where
  "retired lib s \<longleftrightarrow> gl_stopped lib (sv_grpc s) \<and> gl_listening lib (sv_grpc s) = {} \<and>
     sv_cancelled s \<and> sv_tunnelCancelled s"

lemma retired_Stop: "grpc_documented lib \<Longrightarrow> retired lib (server_Stop lib closing s)"
  by (simp add: retired_def server_Stop_def tunnel_stop_def grpc_documented_def Let_def)

lemma server_Start_frame:
  "sv_grpc (snd (server_Start bd s)) = sv_grpc s" "sv_cancelled (snd (server_Start bd s)) = sv_cancelled s"
  "sv_tunnelCancelled (snd (server_Start bd s)) = sv_tunnelCancelled s"
  by (auto simp: server_Start_def tunnel_start_def split: prod.splits option.splits sum.splits)

lemma retired_step: "grpc_documented lib \<Longrightarrow> retired lib s \<Longrightarrow> retired lib (server_step lib c s)"
proof (cases c)
  case (DoServe lis)
  then show "grpc_documented lib \<Longrightarrow> retired lib s \<Longrightarrow> ?thesis"
    by (simp add: retired_def grpc_serve_def grpc_documented_def)
qed (simp_all add: retired_def server_Start_frame retired_Stop [unfolded retired_def])

lemma retired_run: "grpc_documented lib \<Longrightarrow> retired lib s \<Longrightarrow> retired lib (server_run lib ops s)"
  by (induction ops arbitrary: s) (simp_all add: server_run_def retired_step)

text \<open>Serving every pending socket of a stopped server closes them all.\<close>

lemma pending_drained:
  assumes "grpc_documented lib" and "retired lib s"
  shows "sv_grpcPending (server_run lib (map DoServe (sv_grpcPending s)) s) = [] \<and>
    me_open (sv_metrics (server_run lib (map DoServe (sv_grpcPending s)) s)) = me_open (sv_metrics s) \<and>
    sv_tunnelOpen (server_run lib (map DoServe (sv_grpcPending s)) s) = sv_tunnelOpen s"
  using assms
proof (induction "sv_grpcPending s" arbitrary: s)
  case (Cons l ls)
  let ?s1 = "grpc_serve lib l s"
  have s1: "sv_grpcPending ?s1 = ls" "server_step lib (DoServe l) s = ?s1"
    using Cons.hyps(2) [symmetric] by (simp_all add: grpc_serve_def)
  have "retired lib ?s1" using retired_step [OF Cons.prems, of "DoServe l"] s1(2) by simp
  from Cons.hyps(1) [OF s1(1) [symmetric] Cons.prems(1) this] s1 Cons.hyps(2) [symmetric]
  show ?case by (simp add: server_run_def grpc_serve_def)
qed (simp add: server_run_def)

subsection \<open>Properties\<close>

text \<open>
  C20. A stop takes everything down: whatever starts, stops and failures came before, after
  \<^verbatim>\<open>Stop\<close> no socket of the exporter, the tunnel or the gRPC server is open, but for those whose
  goroutine has not entered \<^verbatim>\<open>Serve\<close> yet, and once these have run, none is. At no time does a
  component hold more than one socket that it listens on or lose track of one.
\<close>

theorem Stop_closes_every_socket:
  assumes "grpc_documented lib"
    and "server_New lib build generated loaded order yerr cfg lg = (Inr s0, lg')"
    and "s = server_run lib ops s0" and "s1 = server_Stop lib closing s"
  shows "open_sockets lib s1 = set (sv_grpcPending s) \<and>
    open_sockets lib (server_run lib (map DoServe (sv_grpcPending s1)) s1) = {} \<and>
    card (me_open (sv_metrics s)) \<le> 1 \<and> card (sv_tunnelOpen s) \<le> 1 \<and>
    me_open (sv_metrics s) = set_option (me_server (sv_metrics s)) \<and>
    sv_tunnelOpen s \<subseteq> set_option (sv_tunnelListener s)"
proof -
  have nl: "no_leak s" using no_leak_run no_leak_New [OF assms(2)] assms(3) by blast
  have r: "retired lib s1" using retired_Stop [OF assms(1)] assms(4) by simp
  have s1: "open_sockets lib s1 = set (sv_grpcPending s)" "sv_grpcPending s1 = sv_grpcPending s"
    using Stop_closes [OF nl assms(1)] assms(4) by simp_all
  have "no_leak s1" using no_leak_Stop [OF nl] assms(4) by simp
  moreover have "me_server (sv_metrics s1) = None"
    by (auto simp: assms(4) server_Stop_def Exporter_Stop_def Let_def split: option.split)
  ultimately have closed: "me_open (sv_metrics s1) = {}" "sv_tunnelOpen s1 = {}" by (auto simp: no_leak_def)
  let ?s2 = "server_run lib (map DoServe (sv_grpcPending s1)) s1"
  have "open_sockets lib ?s2 = {}"
    using pending_drained [OF assms(1) r] closed retired_run [OF assms(1) r]
    by (simp add: open_sockets_def retired_def)
  moreover have "card A \<le> 1" if "A \<subseteq> set_option x" for A and x :: "socket option"
    using that card_mono [of "set_option x" A] by (cases x) simp_all
  then have "card (me_open (sv_metrics s)) \<le> 1" "card (sv_tunnelOpen s) \<le> 1"
    using nl by (auto simp: no_leak_def)
  ultimately show ?thesis using s1(1) nl by (simp add: no_leak_def)
qed

text \<open>A gRPC library that does what it documents: a pair of its sockets and whether it was stopped.\<close>

definition plain_grpc :: "(socket set \<times> bool) grpc_lib" where
  "plain_grpc =
     \<lparr>gl_NewServer = ({}, False), gl_Serve = (\<lambda>l (ls, st). if st then (ls, st) else (insert l ls, st)),
      gl_GracefulStop = (\<lambda>_. ({}, True)), gl_listening = fst, gl_stopped = snd\<rparr>"

lemma plain_grpc_documented: "grpc_documented plain_grpc"
  by (auto simp: grpc_documented_def plain_grpc_def)

definition demo_config :: mesh_config where
  "demo_config =
     \<lparr>mc_Server = \<lparr>sc_GRPCAddress = '':50051'', sc_MetricsAddress = '':9090''\<rparr>,
      mc_Listener = \<lparr>lc_Address = '':8443'', lc_CertFile = '''', lc_KeyFile = '''', lc_CAFile = ''''\<rparr>,
      mc_Logging = \<lparr>gc_Level = ''''\<rparr>,
      mc_Auth = \<lparr>ac_Enabled = False, ac_AllowedTokens = [], ac_NodeTokens = Map.empty\<rparr>\<rparr>"

definition demo_New :: "(nat, socket set \<times> bool) mesh_server result \<times> unit option" where
  "demo_New = server_New plain_grpc (\<lambda>_. Inr ()) (Inr 7) (Inl (Foreign ''no file'')) [] (\<lambda>_. None) demo_config None"

lemma demo_New_ok: "\<exists>s. demo_New = (Inr s, Some ())"
  by (simp add: demo_New_def server_New_def demo_config_def log_Init_def parseLevel_def tunnel_New_def
      loadTLSConfig_def Let_def)

definition demo_bindings :: bindings where
  "demo_bindings = \<lparr>bd_metrics = Inr 1, bd_tunnel = Inr 2, bd_grpc = Inr 3\<rparr>"

theorem Stop_closes_every_socket_witness:
  "\<exists>s. demo_New = (Inr s, Some ()) \<and>
     open_sockets plain_grpc
       (server_Stop plain_grpc None (server_run plain_grpc [DoStart demo_bindings, DoServe 3] s)) = {}"
proof -
  obtain s where s: "demo_New = (Inr s, Some ())" using demo_New_ok by blast
  have p: "sv_grpcPending s = []" "me_server (sv_metrics s) = None"
    using s by (auto simp: demo_New_def server_New_def NewExporter_def Let_def
        split: prod.splits option.splits sum.splits)
  then have "sv_grpcPending (server_run plain_grpc [DoStart demo_bindings, DoServe 3] s) = []"
    by (simp add: server_run_def server_Start_def Exporter_Start_def tunnel_start_def tunnel_Listen_def demo_bindings_def
        grpc_serve_def)
  with Stop_closes_every_socket [OF plain_grpc_documented s [unfolded demo_New_def] refl refl,
      of None "[DoStart demo_bindings, DoServe 3]"] s
  show ?thesis by auto
qed

text \<open>
  C21. A server cannot be restarted, but a restart reports success: after any \<^verbatim>\<open>Stop\<close>, a \<^verbatim>\<open>Start\<close>
  that returns no error has bound all three addresses, but the gRPC server never listens again,
  whatever follows; the tunnel accepts connections under a context that is done, and the
  cleanup of stale sessions stays cancelled.
\<close>

theorem restart_succeeds_without_service:
  assumes "grpc_documented lib"
    and "server_New lib build generated loaded order yerr cfg lg = (Inr s0, lg')"
    and "s = server_run lib ops' (server_Stop lib closing (server_run lib ops s0))"
    and "server_Start bd s = (None, s2)"
  shows "(\<exists>m t g. bd_metrics bd = Inr m \<and> bd_tunnel bd = Inr t \<and> bd_grpc bd = Inr g \<and>
      t \<in> sv_tunnelOpen s2 \<and> sv_tunnelCancelled s2 \<and> g \<in> set (sv_grpcPending s2)) \<and>
    gl_listening lib (sv_grpc (server_run lib ops'' s2)) = {} \<and> sv_cancelled (server_run lib ops'' s2)"
proof -
  have "retired lib s" unfolding assms(3) by (intro retired_run retired_Stop assms(1))
  then have r: "retired lib s2" using retired_step [OF assms(1), of s "DoStart bd"] assms(4) by simp
  have "\<exists>m t g. bd_metrics bd = Inr m \<and> bd_tunnel bd = Inr t \<and> bd_grpc bd = Inr g \<and>
      t \<in> sv_tunnelOpen s2 \<and> g \<in> set (sv_grpcPending s2)"
    using assms(4)
    by (auto simp: server_Start_def Exporter_Start_def tunnel_start_def tunnel_Listen_def
        split: prod.splits option.splits sum.splits if_splits)
  with r retired_run [OF assms(1) r, of ops''] show ?thesis by (auto simp: retired_def)
qed

theorem restart_succeeds_without_service_witness:
  "\<exists>s s2. demo_New = (Inr s, Some ()) \<and>
     server_Start demo_bindings (server_Stop plain_grpc None (server_run plain_grpc [DoStart demo_bindings] s)) = (None, s2) \<and>
     gl_listening plain_grpc (sv_grpc (server_run plain_grpc [DoServe 3] s2)) = {}"
proof -
  obtain s where s: "demo_New = (Inr s, Some ())" using demo_New_ok by blast
  let ?s = "server_run plain_grpc [] (server_Stop plain_grpc None (server_run plain_grpc [DoStart demo_bindings] s))"
  have "me_server (sv_metrics ?s) = None"
    by (simp add: server_run_def server_Stop_def Exporter_Stop_def Let_def split: option.split)
  then obtain s2 where s2: "server_Start demo_bindings ?s = (None, s2)"
    by (simp add: server_Start_def Exporter_Start_def tunnel_start_def demo_bindings_def)
  from restart_succeeds_without_service [OF plain_grpc_documented s [unfolded demo_New_def] refl s2,
      of "[DoServe 3]"]
  have "gl_listening plain_grpc (sv_grpc (server_run plain_grpc [DoServe 3] s2)) = {}" by blast
  with s s2 show ?thesis by (intro exI [of _ s] exI [of _ s2] conjI) (simp_all only: server_run_def fold_simps id_apply)
qed


definition demo_viper :: "unit viper_lib" where
  "demo_viper =
     \<lparr>vl_ReadInConfig = (\<lambda>_. Inl (ConfigFileNotFound (Foreign ''not found''))), vl_ReadConfig = (\<lambda>_ _. Inr ()),
      vl_Unmarshal = (\<lambda>_ _. Inr demo_config)\<rparr>"


end
