(* ===== verification/Tunnel_Shutdown.thy ===== *)
theory Tunnel_Shutdown
  imports Tunnel_Properties
begin

section \<open>How the tunnel comes to rest (pkg/tunnel/tunnel.go)\<close>

text \<open>
  When \<^verbatim>\<open>Stop\<close> of the tunnel can return. A handler that is not stuck can be brought to its return by
  steps that move no other handler, so handlers can be brought there one after the other.
\<close>

text \<open>The steps other than the call of \<^verbatim>\<open>Stop\<close>.\<close>

definition work_step :: "'v tunnel_env \<Rightarrow> tunnel \<Rightarrow> tunnel \<Rightarrow> bool" where
  "work_step env s s' \<longleftrightarrow> tunnel_step env s s' \<and> tn_cancelled s' = tn_cancelled s"

abbreviation work_steps :: "'v tunnel_env \<Rightarrow> tunnel \<Rightarrow> tunnel \<Rightarrow> bool" where
  "work_steps env \<equiv> (work_step env)\<^sup>*\<^sup>*"

lemma work_steps_tunnel: "work_steps env s s' \<Longrightarrow> tunnel_steps env s s' \<and> tn_cancelled s' = tn_cancelled s"
  by (induction rule: rtranclp_induct) (auto simp: work_step_def intro: rtranclp.rtrancl_into_rtrancl)

lemma readers_ok_steps: "tunnel_steps env s s' \<Longrightarrow> readers_ok s \<Longrightarrow> readers_ok s'"
  by (induction rule: rtranclp_induct) (blast intro: readers_ok_step)+

lemma cancelled_simps [simp]:
  "tn_cancelled (goto c ph s) = tn_cancelled s" "tn_cancelled (leave c ph s) = tn_cancelled s"
  "tn_cancelled (session_Close y s) = tn_cancelled s"
  by (simp_all add: goto_def leave_simps session_Close_def)

subsection \<open>One handler\<close>

definition can_exit :: "'v tunnel_env \<Rightarrow> conn \<Rightarrow> tunnel \<Rightarrow> bool" where
  "can_exit env c s \<longleftrightarrow>
     (\<exists>s' cs. work_steps env s s' \<and> tn_conns s' = (tn_conns s)(c \<mapsto> Exited cs))"

lemma can_exit_now: "work_step env s s' \<Longrightarrow> tn_conns s' = (tn_conns s)(c \<mapsto> Exited cs) \<Longrightarrow> can_exit env c s"
  unfolding can_exit_def by blast

lemma can_exit_later:
  assumes "work_step env s s1" and "tn_conns s1 = (tn_conns s)(c \<mapsto> ph)" and "can_exit env c s1"
  shows "can_exit env c s"
proof -
  obtain s' cs where "work_steps env s1 s'" "tn_conns s' = (tn_conns s1)(c \<mapsto> Exited cs)"
    using assms(3) by (auto simp: can_exit_def)
  with assms(1,2) show ?thesis
    unfolding can_exit_def by (intro exI [of _ s'] exI [of _ cs]) (auto intro: converse_rtranclp_into_rtranclp)
qed

lemma draining_exits:
  assumes inv: "tunnel_inv env s" and c: "tn_conns s c = Some (Draining sv)" and "sv_readDone sv \<noteq> []"
  shows "can_exit env c s"
proof -
  obtain e st where r: "RemoveIfCurrent (sv_peerID sv) (sv_state sv) (tn_registry s) = Return (e, st)"
    using dir.remove_law [OF tunnel_invD(2) [OF inv]] by metis
  show ?thesis
  proof (rule can_exit_now)
    show "work_step env s (absorb s (deregister c sv s))"
      using tunnel_step.Leave [OF c assms(3)] by (simp add: work_step_def deregister_def r)
    show "tn_conns (absorb s (deregister c sv s)) = (tn_conns s)(c \<mapsto> Exited (Some (cs_Close (sv_stream sv))))"
      by (simp add: deregister_def r)
  qed
qed

lemma closing_exits:
  assumes inv: "tunnel_inv env s" and c: "tn_conns s c = Some (Draining sv)"
    and "shut (sv_stream sv)" and "\<not> stuck (Draining sv)"
  shows "can_exit env c s"
proof (cases "sv_reading sv")
  case True
  let ?s1 = "reader_abort io_EOF c Draining sv s"
  have step: "tunnel_step env s ?s1" using tunnel_step.Abort [of Draining s c sv] c True assms(3) by simp
  have c1: "tn_conns ?s1 c = Some (Draining (reader_stops io_EOF (sv_stream sv) sv))" by (simp add: reader_abort_def)
  have "can_exit env c ?s1"
    by (rule draining_exits [OF tunnel_step_inv [OF step inv] c1]) (simp add: reader_stops_def)
  then show ?thesis
  proof (rule can_exit_later [rotated 2])
    show "work_step env s ?s1" using step by (simp add: work_step_def reader_abort_def)
    show "tn_conns ?s1 = (tn_conns s)(c \<mapsto> Draining (reader_stops io_EOF (sv_stream sv) sv))"
      by (simp add: reader_abort_def)
  qed
next
  case False
  with assms(4) show ?thesis by (intro draining_exits [OF inv c]) simp
qed

lemma serving_exits:
  assumes inv: "tunnel_inv env s" and c: "tn_conns s c = Some (Serving sv)" and "reader_ok (Serving sv)"
    and "tn_cancelled s"
  shows "can_exit env c s"
proof -
  let ?s1 = "wake ContextDone c sv s" and ?sv = "sv\<lparr>sv_stream := cs_Close (sv_stream sv)\<rparr>"
  have step: "tunnel_step env s ?s1" by (rule tunnel_step.Wake [OF c]) (simp add: assms(4))
  have "can_exit env c ?s1"
  proof (rule closing_exits [OF tunnel_step_inv [OF step inv]])
    show "tn_conns ?s1 c = Some (Draining ?sv)" by (simp add: wake_def)
    show "shut (sv_stream ?sv)" by (simp add: cs_Close_def stream_Close_def)
    show "\<not> stuck (Draining ?sv)" using assms(3) by (auto split: if_splits)
  qed
  then show ?thesis
  proof (rule can_exit_later [rotated 2])
    show "work_step env s ?s1" using step by (simp add: work_step_def wake_def)
    show "tn_conns ?s1 = (tn_conns s)(c \<mapsto> Draining ?sv)" by (simp add: wake_def)
  qed
qed

lemma authorized_exits:
  assumes inv: "tunnel_inv env s" and ok: "readers_ok s" and c: "tn_conns s c = Some (Authorized y cs h)"
    and "tn_cancelled s"
  shows "can_exit env c s"
proof -
  obtain r st where r: "RegisterSession 0 (hs_NodeID h) (Some h) (Some y) (tn_registry s) = Return (Inr r, st)"
    using dir.register_law [OF tunnel_invD(2) [OF inv]] by metis
  obtain sv where sv: "enroll 0 c y cs h s = Return (goto c (Serving sv) (s\<lparr>tn_registry := st\<rparr>))"
    by (simp add: enroll_def r)
  let ?s1 = "goto c (Serving sv) (s\<lparr>tn_registry := st\<rparr>)"
  have step: "tunnel_step env s ?s1" using tunnel_step.Enroll [OF c, of env 0] sv by simp
  have "can_exit env c ?s1"
  proof (rule serving_exits [OF tunnel_step_inv [OF step inv]])
    show c1: "tn_conns ?s1 c = Some (Serving sv)" by simp
    show "reader_ok (Serving sv)" by (rule readers_okD [OF readers_ok_step [OF step ok] c1])
  qed (simp add: assms(4))
  moreover have "work_step env s ?s1" using step by (simp add: work_step_def)
  moreover have "tn_conns ?s1 = (tn_conns s)(c \<mapsto> Serving sv)" by simp
  ultimately show ?thesis using can_exit_later by blast
qed

lemma streaming_exits:
  assumes inv: "tunnel_inv env s" and ok: "readers_ok s" and c: "tn_conns s c = Some (Streaming y cs)"
    and "tn_cancelled s"
  shows "can_exit env c s"
proof -
  let ?s1 = "admit env 0 0 c y cs s"
  have step: "tunnel_step env s ?s1" by (rule tunnel_step.Admit [OF c])
  have work: "work_step env s ?s1"
    using step by (auto simp: work_step_def admit_def split: prod.split sum.split option.split)
  consider (Refused) cs' where "tn_conns ?s1 = (tn_conns s)(c \<mapsto> Exited cs')"
    | (Authorised) cs' h where "tn_conns ?s1 = (tn_conns s)(c \<mapsto> Authorized y cs' h)"
  proof (cases "ReceiveHandshake (te_handshake_json env) 0 0 cs")
    case (Pair r cs1)
    show ?thesis
    proof (cases r)
      case (Inl e)
      with Pair show ?thesis by (intro that(1)) (simp add: admit_def)
    next
      case (Inr h)
      with Pair that show ?thesis
        by (cases "AuthorizeNode (te_policy env) (hs_NodeID h) (hs_Token h)") (simp_all add: admit_def)
    qed
  qed
  then show ?thesis
  proof cases
    case Refused
    with work show ?thesis by (rule can_exit_now)
  next
    case Authorised
    have "can_exit env c ?s1"
      by (rule authorized_exits [OF tunnel_step_inv [OF step inv] readers_ok_step [OF step ok]])
        (use Authorised work assms(4) in \<open>simp_all add: work_step_def\<close>)
    with work Authorised show ?thesis using can_exit_later by blast
  qed
qed

lemma handler_can_exit:
  assumes inv: "tunnel_inv env s" and ok: "readers_ok s" and c: "tn_conns s c = Some ph"
    and "live ph" and "\<not> stuck ph" and "tn_cancelled s"
  shows "can_exit env c s"
proof (cases ph)
  case Accepted
  with c have "work_step env s (tls_handshake (Some io_EOF) c s)"
    using tunnel_step.TLS [of s c env "Some io_EOF"] by (simp add: work_step_def tls_handshake_def)
  then show ?thesis by (rule can_exit_now) (simp add: tls_handshake_def)
next
  case TLSDone
  with c have "work_step env s (yamux_Server (Some io_EOF) c s)"
    using tunnel_step.Mux [of s c env "Some io_EOF"] by (simp add: work_step_def yamux_Server_def)
  then show ?thesis by (rule can_exit_now) (simp add: yamux_Server_def)
next
  case (Multiplexed y)
  with c have "work_step env s (accept_control (Inl io_EOF) c y s)"
    using tunnel_step.Control [of s c y env "Inl io_EOF"] by (simp add: work_step_def accept_control_def)
  then show ?thesis by (rule can_exit_now) (simp add: accept_control_def)
next
  case (Streaming y cs)
  with assms show ?thesis by (intro streaming_exits) simp_all
next
  case (Authorized y cs h)
  with assms show ?thesis by (intro authorized_exits) simp_all
next
  case (Serving sv)
  with c assms(6) readers_okD [OF ok c] show ?thesis by (intro serving_exits [OF inv]) simp_all
next
  case (Draining sv)
  with c assms(5) readers_okD [OF ok c] show ?thesis by (intro closing_exits [OF inv]) simp_all
next
  case (Exited cs)
  with assms(4) show ?thesis by simp
qed

subsection \<open>All of them\<close>

lemma live_conns_exited: "live_conns s' = live_conns s - {c}" if "tn_conns s' = (tn_conns s)(c \<mapsto> Exited cs)"
  using that by (auto simp: live_conns_def)

lemma all_can_exit:
  assumes "tunnel_inv env s" and "readers_ok s" and "tn_cancelled s" and "\<And>c. \<not> parked c s"
  shows "\<exists>s'. work_steps env s s' \<and> live_conns s' = {}"
  using assms
proof (induction "card (live_conns s)" arbitrary: s)
  case 0
  then show ?case using finite_live_conns [OF tunnel_invD(6) [OF 0(2)]] by auto
next
  case (Suc n)
  have fin: "finite (live_conns s)" using finite_live_conns tunnel_invD(6) [OF Suc.prems(1)] .
  obtain c where c: "c \<in> live_conns s" using Suc.hyps(2) by fastforce
  then obtain ph where ph: "tn_conns s c = Some ph" "live ph" by (auto simp: live_conns_def)
  have "\<not> stuck ph" using Suc.prems(4) [of c] ph(1) by (simp add: parked_def)
  then obtain s1 cs where s1: "work_steps env s s1" "tn_conns s1 = (tn_conns s)(c \<mapsto> Exited cs)"
    using handler_can_exit [OF Suc.prems(1,2) ph _ Suc.prems(3)] by (auto simp: can_exit_def)
  note tun = work_steps_tunnel [OF s1(1)]
  have "\<exists>s'. work_steps env s1 s' \<and> live_conns s' = {}"
  proof (rule Suc.hyps(1))
    show "n = card (live_conns s1)"
      using Suc.hyps(2) c fin live_conns_exited [OF s1(2)] by (simp add: card_Diff_singleton)
    show "\<not> parked d s1" for d using Suc.prems(4) [of d] s1(2) by (auto simp: parked_def split: if_splits)
  qed (use tun Suc.prems tunnel_steps_inv readers_ok_steps in blast)+
  with s1(1) show ?case by (meson rtranclp_trans)
qed

text \<open>With all handlers gone the accept loop ends, and the registry is empty.\<close>

lemma at_rest:
  assumes "tunnel_inv env s" and "stop_returns s"
  shows "live_conns s = {} \<and> \<not> tn_accepting s \<and> reg_sessions (tn_registry s) = Map.empty"
proof -
  have wg: "int (card (live_conns s)) + (if tn_accepting s then 1 else 0) = 0"
    using tunnel_invD(6) [OF assms(1)] assms(2) by (simp add: counted_def stop_returns_def)
  then have "card (live_conns s) = 0" and acc: "\<not> tn_accepting s" by (auto split: if_splits)
  then have live: "live_conns s = {}" using finite_live_conns [OF tunnel_invD(6) [OF assms(1)]] by simp
  have "reg_sessions (tn_registry s) p = None" for p
  proof (rule ccontr)
    assume "reg_sessions (tn_registry s) p \<noteq> None"
    then obtain a where "reg_sessions (tn_registry s) p = Some a" by blast
    then obtain c ph sv where "tn_conns s c = Some ph" "serves ph = Some sv"
      by (rule attendedE [OF tunnel_invD(5) [OF assms(1)]])
    then have "c \<in> live_conns s" by (auto simp: live_conns_def dest: serves_live)
    with live show False by simp
  qed
  with live acc show ?thesis by auto
qed

lemma Stop_can_return:
  assumes "tunnel_inv env s" and "readers_ok s" and "tn_cancelled s" and "\<And>c. \<not> parked c s"
  shows "\<exists>s'. work_steps env s s' \<and> stop_returns s'"
proof -
  obtain s1 where s1: "work_steps env s s1" "live_conns s1 = {}" using all_can_exit [OF assms] by blast
  then have inv: "tunnel_inv env s1" and can: "tn_cancelled s1"
    using work_steps_tunnel [OF s1(1)] tunnel_steps_inv assms(1,3) by blast+
  have wg: "tn_wg s1 = (if tn_accepting s1 then 1 else 0)"
    using tunnel_invD(6) [OF inv] s1(2) by (simp add: counted_def)
  show ?thesis
  proof (cases "tn_accepting s1")
    case True
    have "tn_cancelled (accept_failed s1) = tn_cancelled s1" by (simp add: accept_failed_def)
    then have "work_step env s1 (accept_failed s1)"
      using tunnel_step.AcceptFails [OF True] by (simp add: work_step_def)
    moreover have "stop_returns (accept_failed s1)"
      using wg True can by (simp add: accept_failed_def stop_returns_def)
    ultimately show ?thesis using s1(1) by (meson rtranclp.rtrancl_into_rtrancl)
  next
    case False
    with wg can s1(1) show ?thesis by (auto simp: stop_returns_def)
  qed
qed

subsection \<open>The listener, and the state of rest\<close>

lemma listener_simps [simp]:
  "tn_listening (goto c ph s) = tn_listening s" "tn_accepting (goto c ph s) = tn_accepting s"
  "tn_listening (leave c ph s) = tn_listening s"  "tn_accepting (leave c ph s) = tn_accepting s"
  "tn_listening (session_Close y s) = tn_listening s" "tn_accepting (session_Close y s) = tn_accepting s"
  by (auto simp: goto_def leave_def session_Close_def Let_def split: option.split)

definition same_listener :: "tunnel \<Rightarrow> tunnel \<Rightarrow> bool" where
  "same_listener s s' \<longleftrightarrow> tn_cancelled s' = tn_cancelled s \<and> tn_listening s' = tn_listening s \<and> tn_accepting s' = tn_accepting s"

lemma same_absorb: "(\<And>s'. r = Return s' \<Longrightarrow> same_listener s s') \<Longrightarrow> same_listener s (absorb s r)"
  by (cases r) (simp_all add: same_listener_def)

lemma enroll_listener: "enroll now c y cs h s = Return s' \<Longrightarrow> same_listener s s'"
proof -
  assume a: "enroll now c y cs h s = Return s'"
  obtain r st where "RegisterSession now (hs_NodeID h) (Some h) (Some y) (tn_registry s) = Return (r, st)"
    using a by (auto simp: enroll_def outcome_simps)
  with a show ?thesis by (cases r) (auto simp: enroll_def same_listener_def)
qed

lemma tunnel_step_listener:
  "tunnel_step env s s' \<Longrightarrow> same_listener s s' \<or> s' = accept_failed s \<or> s' = stop_signal s"
proof (induction rule: tunnel_step.induct)
  case (Turn ph s c sv now)
  then show ?case by (intro disjI1 same_absorb) (auto simp: reader_turn_def outcome_simps same_listener_def)
next
  case (Enroll s c y cs h now)
  then show ?case by (intro disjI1 same_absorb) (rule enroll_listener)
next
  case (Leave s c sv)
  then show ?case by (intro disjI1 same_absorb) (auto simp: deregister_def outcome_simps same_listener_def)
next
  case (Elsewhere f s now)
  then show ?case by (intro disjI1 same_absorb) (auto simp: outcome_simps same_listener_def)
qed (auto simp: same_listener_def accept_conn_def tls_handshake_def yamux_Server_def accept_control_def admit_def
      reader_abort_def wake_def split: option.split sum.split prod.split)

lemma rest_stays: "tunnel_step env s s' \<Longrightarrow> tunnel_inv env s \<Longrightarrow> stop_returns s \<Longrightarrow> stop_returns s'"
proof -
  assume step: "tunnel_step env s s'" and inv: "tunnel_inv env s" and rest: "stop_returns s"
  have live: "\<not> live ph" if "tn_conns s c = Some ph" for c ph
    using at_rest [OF inv rest] that by (auto simp: live_conns_def)
  have acc: "\<not> tn_accepting s" using at_rest [OF inv rest] by simp
  from step show ?thesis
  proof (cases rule: tunnel_step.cases)
    case (Elsewhere f now)
    then show ?thesis using rest
      by (cases "reg_step now f (tn_registry s)") (simp_all add: stop_returns_def)
  qed (use acc rest in \<open>auto simp: stop_returns_def session_Close_def stop_signal_def dest!: live\<close>)
qed

lemma work_step_listener:
  assumes "work_step env s s'"
  shows "\<not> tn_cancelled s \<Longrightarrow> same_listener s s'" and "\<not> tn_listening s \<Longrightarrow> \<not> tn_listening s'"
  using tunnel_step_listener [of env s s'] assms
  by (auto simp: work_step_def same_listener_def accept_failed_def stop_signal_def)

text \<open>A run that ends before the call of \<^verbatim>\<open>Stop\<close> does not contain it.\<close>

lemma cancelled_mono: "tunnel_step env s s' \<Longrightarrow> \<not> tn_cancelled s' \<Longrightarrow> \<not> tn_cancelled s"
  by (drule tunnel_step_listener) (auto simp: same_listener_def accept_failed_def stop_signal_def split: if_splits)

lemma tunnel_steps_work: "tunnel_steps env s s' \<Longrightarrow> \<not> tn_cancelled s' \<Longrightarrow> work_steps env s s'"
proof (induction rule: rtranclp_induct)
  case (step s1 s2)
  then have "\<not> tn_cancelled s1" by (blast dest: cancelled_mono)
  with step.hyps(2) step.prems have "work_step env s1 s2" by (simp add: work_step_def)
  with step.IH \<open>\<not> tn_cancelled s1\<close> show ?case by (meson rtranclp.rtrancl_into_rtrancl)
qed simp

end
