(* ===== verification/Server_Shutdown.thy ===== *)
theory Server_Shutdown
  imports Mesh_System Server_Lifecycle Tunnel_Shutdown
begin

section \<open>The shutdown of a running server (pkg/server/server.go)\<close>

text \<open>
  \<^verbatim>\<open>Server.Stop\<close> step by step, while nodes and clients go on: it cancels the server's context, waits
  in \<^verbatim>\<open>GracefulStop\<close> for the calls that are in flight, then in the tunnel's \<^verbatim>\<open>Stop\<close> for its goroutines,
  and stops the exporter last. \<open>Server_Lifecycle\<close> has the same function as one step, for the sockets.

  Of gRPC the steps say what it documents: after \<^verbatim>\<open>GracefulStop\<close> was called no new call is accepted, and
  it returns when all pending calls have returned. A client's stream is such a call from its
  opening to its end; its messages are answered one after the other, by \<^verbatim>\<open>InvokeStream\<close>, and still come in
  during the shutdown. Streams that wait for a message are counted in \<open>sd_idle\<close>; the requests that
  streams are busy with are those in \<open>sd_busy\<close>, among all requests in flight.
\<close>

datatype stop_pc = Up | InGracefulStop | InTunnelStop | StopReturned

record service =
  sd_mesh :: mesh
  sd_idle :: nat
  sd_busy :: "invoke_request multiset"
  sd_cancelled :: bool            \<comment> \<open>the server's context, on which the cleanup loop runs\<close>
  sd_exporter :: exporter
  sd_pc :: stop_pc                \<comment> \<open>where the call of \<^verbatim>\<open>Stop\<close> is\<close>

definition service_start :: "(yamux \<Rightarrow> go_error option) \<Rightarrow> string \<Rightarrow> socket \<Rightarrow> service" where
  "service_start yerr addr lsn =
     \<lparr>sd_mesh = mesh_start yerr None None, sd_idle = 0, sd_busy = {#}, sd_cancelled = False,
      sd_exporter = snd (Exporter_Start (Inr lsn) (NewExporter addr)), sd_pc = Up\<rparr>"

abbreviation sd_tunnel :: "service \<Rightarrow> tunnel" where
  "sd_tunnel s \<equiv> ms_tunnel (sd_mesh s)"

subsection \<open>The steps of Stop\<close>

definition stop_called :: "service \<Rightarrow> service" where
  "stop_called s = s\<lparr>sd_cancelled := True, sd_pc := InGracefulStop\<rparr>"

definition calls_done :: "service \<Rightarrow> bool" where
  "calls_done s \<longleftrightarrow> ms_inflight (sd_mesh s) = {#} \<and> sd_idle s = 0"

definition tunnel_stop_called :: "service \<Rightarrow> service" where
  "tunnel_stop_called s =
     s\<lparr>sd_mesh := (sd_mesh s)\<lparr>ms_tunnel := stop_signal (sd_tunnel s)\<rparr>, sd_pc := InTunnelStop\<rparr>"

definition exporter_stopped :: "go_error option \<Rightarrow> service \<Rightarrow> service" where
  "exporter_stopped closing s =
     s\<lparr>sd_exporter := snd (Exporter_Stop closing (sd_exporter s)), sd_pc := StopReturned\<rparr>"

subsection \<open>Interleaving\<close>

definition admitted_call :: "invoke_request \<Rightarrow> proxy \<Rightarrow> mesh \<Rightarrow> mesh" where
  "admitted_call req px m = (put_proxy px m)\<lparr>ms_inflight := add_mset req (ms_inflight m)\<rparr>"

inductive service_step :: "'v tunnel_env \<Rightarrow> (f64 \<Rightarrow> int) \<Rightarrow> service \<Rightarrow> service \<Rightarrow> bool" for env unrep where
  Tunnel: "work_step env (sd_tunnel s) t \<Longrightarrow>
    service_step env unrep s (s\<lparr>sd_mesh := (sd_mesh s)\<lparr>ms_tunnel := t\<rparr>\<rparr>)"
| UnaryRefused: "sd_pc s = Up \<Longrightarrow> proxy_begin unrep t req (the_proxy (sd_mesh s)) = (Some e, px) \<Longrightarrow>
    service_step env unrep s (s\<lparr>sd_mesh := put_proxy px (sd_mesh s)\<rparr>)"
| UnaryAdmitted: "sd_pc s = Up \<Longrightarrow> proxy_begin unrep t req (the_proxy (sd_mesh s)) = (None, px) \<Longrightarrow>
    service_step env unrep s (s\<lparr>sd_mesh := admitted_call req px (sd_mesh s)\<rparr>)"
| UnaryFinished: "req \<in># ms_inflight (sd_mesh s) - sd_busy s \<Longrightarrow>
    m = proxy_returned (sd_mesh s) req (proxy_finish error_text started now req answer (the_proxy (sd_mesh s))) \<Longrightarrow>
    service_step env unrep s (s\<lparr>sd_mesh := m\<rparr>)"
| StreamOpened: "sd_pc s = Up \<Longrightarrow> service_step env unrep s (s\<lparr>sd_idle := Suc (sd_idle s)\<rparr>)"
| StreamRefused: "0 < sd_idle s \<Longrightarrow> proxy_begin unrep t req (the_proxy (sd_mesh s)) = (Some e, px) \<Longrightarrow>
    service_step env unrep s (s\<lparr>sd_mesh := put_proxy px (sd_mesh s)\<rparr>)"
| StreamAdmitted: "0 < sd_idle s \<Longrightarrow> proxy_begin unrep t req (the_proxy (sd_mesh s)) = (None, px) \<Longrightarrow>
    service_step env unrep s (s\<lparr>sd_mesh := admitted_call req px (sd_mesh s), sd_idle := sd_idle s - 1,
                                sd_busy := add_mset req (sd_busy s)\<rparr>)"
| StreamAnswered: "req \<in># sd_busy s \<Longrightarrow>
    m = proxy_returned (sd_mesh s) req (proxy_finish error_text started now req answer (the_proxy (sd_mesh s))) \<Longrightarrow>
    service_step env unrep s (s\<lparr>sd_mesh := m, sd_idle := Suc (sd_idle s), sd_busy := sd_busy s - {#req#}\<rparr>)"
| StreamEnded: "0 < sd_idle s \<Longrightarrow> service_step env unrep s (s\<lparr>sd_idle := sd_idle s - 1\<rparr>)"
| StopCalled: "sd_pc s = Up \<Longrightarrow> service_step env unrep s (stop_called s)"
| CallsDone: "sd_pc s = InGracefulStop \<Longrightarrow> calls_done s \<Longrightarrow> service_step env unrep s (tunnel_stop_called s)"
| TunnelDone: "sd_pc s = InTunnelStop \<Longrightarrow> stop_returns (sd_tunnel s) \<Longrightarrow>
    service_step env unrep s (exporter_stopped closing s)"

abbreviation service_steps :: "'v tunnel_env \<Rightarrow> (f64 \<Rightarrow> int) \<Rightarrow> service \<Rightarrow> service \<Rightarrow> bool" where
  "service_steps env unrep \<equiv> (service_step env unrep)\<^sup>*\<^sup>*"

inductive_cases service_stepE: "service_step env unrep s s'"

lemmas service_defs = stop_called_def tunnel_stop_called_def exporter_stopped_def admitted_call_def

subsection \<open>What the steps do to the mesh and the tunnel\<close>

lemma returned_mesh:
  assumes "mesh_inv env acl m"
  obtains st where "ms_tunnel (proxy_returned m req (proxy_finish error_text started now req answer (the_proxy m))) =
      (ms_tunnel m)\<lparr>tn_registry := st\<rparr>"
    "ms_inflight (proxy_returned m req (proxy_finish error_text started now req answer (the_proxy m))) =
      ms_inflight m - {#req#}"
proof -
  have "tunnel_inv env (ms_tunnel m)" using assms by (simp add: mesh_inv_def)
  moreover have "tn_registry (ms_tunnel m) = px_registry (the_proxy m)" by (simp add: the_registry_def)
  ultimately obtain r st where "proxy_finish error_text started now req answer (the_proxy m) =
      Return (r, release req ((the_proxy m)\<lparr>px_registry := st\<rparr>))"
    by (rule finish_tunnel_inv)
  then show ?thesis by (intro that [of st]) simp_all
qed

lemma begun_tunnel:
  "proxy_begin unrep t req (the_proxy m) = (r, px) \<Longrightarrow> ms_tunnel (put_proxy px m) = ms_tunnel m"
  by (auto simp: proxy_begin_def Let_def the_registry_def split: if_splits prod.splits bool.splits option.splits)

lemma service_mesh_step:
  assumes "service_step env unrep s s'" and "sd_busy s \<subseteq># ms_inflight (sd_mesh s)"
  shows "sd_mesh s' = sd_mesh s \<or> mesh_step env unrep (sd_mesh s) (sd_mesh s')"
  using assms
proof (cases rule: service_step.cases)
  case (Tunnel t)
  then show ?thesis by (auto simp: work_step_def intro: mesh_step.Node)
next
  case (CallsDone)
  then show ?thesis by (auto simp: tunnel_stop_called_def intro!: mesh_step.Node tunnel_step.Stop)
next
  case (StreamAnswered req m error_text started now answer)
  then have "req \<in># ms_inflight (sd_mesh s)" using assms(2) by (meson mset_subset_eqD)
  with StreamAnswered show ?thesis by (auto intro: mesh_step.Finish)
qed (auto simp: service_defs intro: mesh_step.intros dest: in_diffD)

lemma service_step_tunnel:
  assumes "service_step env unrep s s'" and "mesh_inv env acl (sd_mesh s)"
  obtains (Quiet) st where "sd_tunnel s' = (sd_tunnel s)\<lparr>tn_registry := st\<rparr>"
  | (Work) "work_step env (sd_tunnel s) (sd_tunnel s')" "sd_pc s' = sd_pc s"
  | (Shut) "sd_tunnel s' = stop_signal (sd_tunnel s)" "sd_pc s = InGracefulStop" "sd_pc s' = InTunnelStop"
proof -
  have same: thesis if "sd_tunnel s' = sd_tunnel s"
    using that by (intro Quiet [of "tn_registry (sd_tunnel s)"]) simp
  from assms(1) show thesis
  proof (cases rule: service_step.cases)
    case (Tunnel t)
    then show thesis by (intro Work) simp_all
  next
    case (UnaryFinished req m error_text started now answer)
    obtain st where "ms_tunnel m = (sd_tunnel s)\<lparr>tn_registry := st\<rparr>"
      unfolding UnaryFinished(3) by (rule returned_mesh [OF assms(2)])
    then show thesis by (intro Quiet [of st]) (simp add: UnaryFinished(1))
  next
    case (StreamAnswered req m error_text started now answer)
    obtain st where "ms_tunnel m = (sd_tunnel s)\<lparr>tn_registry := st\<rparr>"
      unfolding StreamAnswered(3) by (rule returned_mesh [OF assms(2)])
    then show thesis by (intro Quiet [of st]) (simp add: StreamAnswered(1))
  next
    case CallsDone
    then show thesis by (intro Shut) (simp_all add: tunnel_stop_called_def)
  qed (use same begun_tunnel in \<open>auto simp: service_defs\<close>)
qed

subsection \<open>The invariant\<close>

text \<open>Until the calls are done the tunnel is up; from then on it is closed, and no call is left.\<close>

definition still_up :: "service \<Rightarrow> bool" where
  "still_up s \<longleftrightarrow> \<not> tn_cancelled (sd_tunnel s) \<and> tn_listening (sd_tunnel s) \<and> tn_accepting (sd_tunnel s) \<and>
     me_server (sd_exporter s) \<noteq> None"

definition going_down :: "service \<Rightarrow> bool" where
  "going_down s \<longleftrightarrow> tn_cancelled (sd_tunnel s) \<and> \<not> tn_listening (sd_tunnel s) \<and> calls_done s"

fun pc_inv :: "stop_pc \<Rightarrow> service \<Rightarrow> bool" where
  "pc_inv InTunnelStop s \<longleftrightarrow> going_down s"
| "pc_inv StopReturned s \<longleftrightarrow> going_down s \<and> stop_returns (sd_tunnel s) \<and> me_server (sd_exporter s) = None"
| "pc_inv _ s \<longleftrightarrow> still_up s"

definition service_inv :: "'v tunnel_env \<Rightarrow> service \<Rightarrow> bool" where
  "service_inv env s \<longleftrightarrow>
     mesh_inv env PermissiveACL (sd_mesh s) \<and> readers_ok (sd_tunnel s) \<and> released (sd_tunnel s) \<and>
     sd_busy s \<subseteq># ms_inflight (sd_mesh s) \<and> me_open (sd_exporter s) = set_option (me_server (sd_exporter s)) \<and>
     pc_inv (sd_pc s) s"

lemma service_invD:
  assumes "service_inv env s"
  shows "mesh_inv env PermissiveACL (sd_mesh s)" "tunnel_inv env (sd_tunnel s)" "readers_ok (sd_tunnel s)"
    "released (sd_tunnel s)" "sd_busy s \<subseteq># ms_inflight (sd_mesh s)" "pc_inv (sd_pc s) s"
    "me_open (sd_exporter s) = set_option (me_server (sd_exporter s))"
  using assms by (auto simp: service_inv_def mesh_inv_def)

lemma service_start_inv: "service_inv env (service_start yerr addr lsn)"
proof -
  have "readers_ok (tunnel_Start (NewRegistry yerr))" using reachable_readers_ok by blast
  moreover have "released (tunnel_Start (NewRegistry yerr))" by (simp add: released_def tunnel_Start_def)
  moreover have "mesh_inv env PermissiveACL (mesh_start yerr None None)"
    using mesh_start_inv [of None env yerr None] by (simp add: mesh_start_def NewInvokeProxy_def Let_def)
  ultimately show ?thesis
    by (simp add: service_inv_def service_start_def still_up_def mesh_start_def tunnel_Start_def NewInvokeProxy_def
        Exporter_Start_def NewExporter_def Let_def)
qed

lemma tunnel_side:
  assumes "service_step env unrep s s'" and "service_inv env s"
  shows "readers_ok (sd_tunnel s') \<and> released (sd_tunnel s')"
  using assms(1) service_invD(1) [OF assms(2)]
proof (cases rule: service_step_tunnel)
  case (Quiet st)
  with service_invD(3,4) [OF assms(2)] show ?thesis by (simp add: readers_ok_def released_def)
next
  case Work
  with service_invD(3,4) [OF assms(2)] show ?thesis
    by (auto simp: work_step_def intro: readers_ok_step released_step)
next
  case Shut
  with service_invD(3,4) [OF assms(2)] show ?thesis by (simp add: readers_ok_def released_def stop_signal_def)
qed

text \<open>What the state of \<^verbatim>\<open>Stop\<close> says survives a registry that changes and steps of the tunnel.\<close>

lemma pc_inv_Tunnel:
  assumes "work_step env (sd_tunnel s) t" and "tunnel_inv env (sd_tunnel s)" and "pc_inv pc s"
  shows "pc_inv pc (s\<lparr>sd_mesh := (sd_mesh s)\<lparr>ms_tunnel := t\<rparr>\<rparr>)"
  using assms(3) work_step_listener [OF assms(1)] rest_stays [of env "sd_tunnel s" t] assms(1,2)
  by (cases pc) (auto simp: still_up_def going_down_def calls_done_def same_listener_def work_step_def)

text \<open>A call begins, is refused or returns while the server is up.\<close>

lemma pc_inv_calls:
  assumes "pc_inv (sd_pc s) s" and "sd_pc s = Up \<or> \<not> calls_done s"
    and "ms_tunnel m = (sd_tunnel s)\<lparr>tn_registry := st\<rparr>"
  shows "pc_inv (sd_pc s) (s\<lparr>sd_mesh := m, sd_idle := n, sd_busy := b\<rparr>)"
  using assms by (cases "sd_pc s") (auto simp: still_up_def going_down_def)

lemma other_call: "b \<subseteq># a \<Longrightarrow> x \<in># a - b \<Longrightarrow> b \<subseteq># a - {#x#}"
  unfolding subseteq_mset_def by (auto simp: in_diff_count dest: spec [of _ x])

lemma subseteq_diff_both: "b \<subseteq># a \<Longrightarrow> b - {#x#} \<subseteq># a - {#x#}"
  by (simp add: subseteq_mset_def diff_le_mono)

lemma begun_tunnel_registry:
  "proxy_begin unrep t req (the_proxy m) = (r, px) \<Longrightarrow>
     ms_tunnel (put_proxy px m) = (ms_tunnel m)\<lparr>tn_registry := tn_registry (ms_tunnel m)\<rparr>"
  using begun_tunnel [of unrep t req m r px] by simp

lemma stop_side:
  assumes "service_step env unrep s s'" and "service_inv env s"
  shows "sd_busy s' \<subseteq># ms_inflight (sd_mesh s') \<and> me_open (sd_exporter s') = set_option (me_server (sd_exporter s')) \<and>
    pc_inv (sd_pc s') s'"
proof -
  note I = service_invD [OF assms(2)]
  from assms(1) show ?thesis
  proof (cases rule: service_step.cases)
    case (Tunnel t)
    with I pc_inv_Tunnel [OF Tunnel(2) I(2,6)] show ?thesis by simp
  next
    case (UnaryRefused t req e px)
    with I pc_inv_calls [where n = "sd_idle s" and b = "sd_busy s", OF I(6) _ begun_tunnel_registry [OF UnaryRefused(3)]]
    show ?thesis by simp
  next
    case (UnaryAdmitted t req px)
    have "ms_tunnel (admitted_call req px (sd_mesh s)) = (sd_tunnel s)\<lparr>tn_registry := tn_registry (sd_tunnel s)\<rparr>"
      using begun_tunnel_registry [OF UnaryAdmitted(3)] by (simp add: admitted_call_def)
    from UnaryAdmitted I pc_inv_calls [where n = "sd_idle s" and b = "sd_busy s", OF I(6) _ this]
    show ?thesis by (simp add: admitted_call_def subset_mset.trans [OF I(5)])
  next
    case (UnaryFinished req m error_text started now answer)
    obtain st where m: "ms_tunnel m = (sd_tunnel s)\<lparr>tn_registry := st\<rparr>" "ms_inflight m = ms_inflight (sd_mesh s) - {#req#}"
      unfolding UnaryFinished(3) by (rule returned_mesh [OF I(1)])
    have "\<not> calls_done s" using UnaryFinished(2) by (auto simp: calls_done_def)
    moreover have "sd_busy s \<subseteq># ms_inflight (sd_mesh s) - {#req#}"
      by (rule other_call [OF I(5) UnaryFinished(2)])
    ultimately show ?thesis
      using UnaryFinished(1) m(2) I pc_inv_calls [where n = "sd_idle s" and b = "sd_busy s", OF I(6) _ m(1)] by simp
  next
    case StreamOpened
    with I show ?thesis by (simp add: still_up_def)
  next
    case (StreamRefused t req e px)
    have "\<not> calls_done s" using StreamRefused(2) by (auto simp: calls_done_def)
    with StreamRefused I pc_inv_calls [where n = "sd_idle s" and b = "sd_busy s", OF I(6) _ begun_tunnel_registry [OF StreamRefused(3)]]
    show ?thesis by simp
  next
    case (StreamAdmitted t req px)
    have busy: "sd_pc s = Up \<or> \<not> calls_done s" using StreamAdmitted(2) by (auto simp: calls_done_def)
    have "ms_tunnel (admitted_call req px (sd_mesh s)) = (sd_tunnel s)\<lparr>tn_registry := tn_registry (sd_tunnel s)\<rparr>"
      using begun_tunnel_registry [OF StreamAdmitted(3)] by (simp add: admitted_call_def)
    from pc_inv_calls [OF I(6) busy this, where n = "sd_idle s - 1" and b = "add_mset req (sd_busy s)"]
    show ?thesis using I(5,7) by (simp add: StreamAdmitted(1) admitted_call_def)
  next
    case (StreamAnswered req m error_text started now answer)
    obtain st where m: "ms_tunnel m = (sd_tunnel s)\<lparr>tn_registry := st\<rparr>" "ms_inflight m = ms_inflight (sd_mesh s) - {#req#}"
      unfolding StreamAnswered(3) by (rule returned_mesh [OF I(1)])
    have "\<not> calls_done s" using StreamAnswered(2) I(5) by (auto simp: calls_done_def)
    then show ?thesis
      using StreamAnswered(1) m(2) I subseteq_diff_both [OF I(5)]
        pc_inv_calls [where n = "Suc (sd_idle s)" and b = "sd_busy s - {#req#}", OF I(6) _ m(1)]
      by simp
  next
    case StreamEnded
    have "\<not> calls_done s" using StreamEnded(2) by (auto simp: calls_done_def)
    with StreamEnded I show ?thesis by (cases "sd_pc s") (auto simp: still_up_def going_down_def)
  next
    case StopCalled
    with I show ?thesis by (simp add: stop_called_def still_up_def)
  next
    case CallsDone
    with I show ?thesis by (simp add: tunnel_stop_called_def going_down_def calls_done_def stop_signal_def)
  next
    case (TunnelDone closing)
    with I show ?thesis
      by (auto simp: exporter_stopped_def going_down_def calls_done_def Exporter_Stop_def split: option.split)
  qed
qed

lemma service_inv_step: "service_step env unrep s s' \<Longrightarrow> service_inv env s \<Longrightarrow> service_inv env s'"
proof -
  assume step: "service_step env unrep s s'" and inv: "service_inv env s"
  have "mesh_inv env PermissiveACL (sd_mesh s')"
    using service_mesh_step [OF step] service_invD(1,5) [OF inv] mesh_step_inv by metis
  then show ?thesis using tunnel_side [OF step inv] stop_side [OF step inv] by (simp add: service_inv_def)
qed

lemma service_inv_steps: "service_steps env unrep s s' \<Longrightarrow> service_inv env s \<Longrightarrow> service_inv env s'"
  by (induction rule: rtranclp_induct) (blast intro: service_inv_step)+

lemma reachable_service_inv: "service_steps env unrep (service_start yerr addr lsn) s \<Longrightarrow> service_inv env s"
  using service_inv_steps service_start_inv by blast

subsection \<open>Finishing the calls\<close>

text \<open>During the graceful stop every call can return and every stream can end, one at a time.\<close>

definition to_do :: "service \<Rightarrow> nat" where
  "to_do s = 2 * size (ms_inflight (sd_mesh s)) + sd_idle s"

lemma one_call_less:
  assumes "service_inv env s" and "sd_pc s = InGracefulStop" and "\<not> calls_done s"
  shows "\<exists>s'. service_step env unrep s s' \<and> to_do s' < to_do s \<and> sd_pc s' = InGracefulStop \<and>
    tn_conns (sd_tunnel s') = tn_conns (sd_tunnel s)"
proof (cases "sd_idle s")
  case (Suc n)
  then have "service_step env unrep s (s\<lparr>sd_idle := sd_idle s - 1\<rparr>)" by (intro service_step.StreamEnded) simp
  with Suc assms(2) show ?thesis by (intro exI [of _ "s\<lparr>sd_idle := sd_idle s - 1\<rparr>"]) (simp add: to_do_def)
next
  case 0
  with assms(3) obtain req where req: "req \<in># ms_inflight (sd_mesh s)" by (auto simp: calls_done_def)
  let ?m = "proxy_returned (sd_mesh s) req (proxy_finish (\<lambda>_. []) 0 0 req (Inl io_EOF) (the_proxy (sd_mesh s)))"
  obtain st where m: "ms_tunnel ?m = (sd_tunnel s)\<lparr>tn_registry := st\<rparr>" "ms_inflight ?m = ms_inflight (sd_mesh s) - {#req#}"
    by (rule returned_mesh [OF service_invD(1) [OF assms(1)]])
  have less: "size (ms_inflight ?m) + 1 = size (ms_inflight (sd_mesh s))"
    unfolding m(2) using req by (metis Suc_eq_plus1 size_Suc_Diff1)
  show ?thesis
  proof (cases "req \<in># sd_busy s")
    case True
    let ?s = "s\<lparr>sd_mesh := ?m, sd_idle := Suc (sd_idle s), sd_busy := sd_busy s - {#req#}\<rparr>"
    have "service_step env unrep s ?s" by (rule service_step.StreamAnswered [OF True refl])
    with less m(1) assms(2) show ?thesis by (intro exI [of _ ?s]) (simp add: to_do_def)
  next
    case False
    then have "req \<in># ms_inflight (sd_mesh s) - sd_busy s" using req by (simp add: in_diff_count not_in_iff)
    then have "service_step env unrep s (s\<lparr>sd_mesh := ?m\<rparr>)" by (rule service_step.UnaryFinished [OF _ refl])
    with less m(1) assms(2) show ?thesis by (intro exI [of _ "s\<lparr>sd_mesh := ?m\<rparr>"]) (simp add: to_do_def)
  qed
qed

lemma calls_can_finish:
  assumes "service_inv env s" and "sd_pc s = InGracefulStop"
  shows "\<exists>s'. service_steps env unrep s s' \<and> calls_done s' \<and> sd_pc s' = InGracefulStop \<and>
    tn_conns (sd_tunnel s') = tn_conns (sd_tunnel s)"
  using assms
proof (induction "to_do s" arbitrary: s rule: less_induct)
  case less
  show ?case
  proof (cases "calls_done s")
    case False
    obtain s1 where s1: "service_step env unrep s s1" "to_do s1 < to_do s" "sd_pc s1 = InGracefulStop"
        "tn_conns (sd_tunnel s1) = tn_conns (sd_tunnel s)"
      using one_call_less [OF less.prems False] by blast
    from less.hyps [OF s1(2) service_inv_step [OF s1(1) less.prems(1)] s1(3)] s1(1,4) show ?thesis
      by (metis converse_rtranclp_into_rtranclp)
  qed (use less.prems(2) in blast)
qed

lemma tunnel_work_lifts:
  "work_steps env (sd_tunnel s) t \<Longrightarrow> service_steps env unrep s (s\<lparr>sd_mesh := (sd_mesh s)\<lparr>ms_tunnel := t\<rparr>\<rparr>)"
proof (induction rule: rtranclp_induct)
  case (step t1 t2)
  let ?s1 = "s\<lparr>sd_mesh := (sd_mesh s)\<lparr>ms_tunnel := t1\<rparr>\<rparr>"
  have "service_step env unrep ?s1 (?s1\<lparr>sd_mesh := (sd_mesh ?s1)\<lparr>ms_tunnel := t2\<rparr>\<rparr>)"
    by (rule service_step.Tunnel) (simp add: step.hyps)
  with step.IH show ?case by simp
qed simp

text \<open>From the tunnel's stop on.\<close>

lemma tunnel_stop_finishes:
  assumes "service_inv env s" and "sd_pc s = InTunnelStop" and "\<And>c. \<not> parked c (sd_tunnel s)"
  shows "\<exists>s'. service_steps env unrep s s' \<and> sd_pc s' = StopReturned"
proof -
  have "tn_cancelled (sd_tunnel s)" using service_invD(6) [OF assms(1)] assms(2) by (simp add: going_down_def)
  with Stop_can_return [OF service_invD(2,3) [OF assms(1)]] assms(3)
  obtain t where t: "work_steps env (sd_tunnel s) t" "stop_returns t" by blast
  let ?s1 = "s\<lparr>sd_mesh := (sd_mesh s)\<lparr>ms_tunnel := t\<rparr>\<rparr>"
  have "service_steps env unrep s ?s1" by (rule tunnel_work_lifts [OF t(1)])
  moreover have "service_step env unrep ?s1 (exporter_stopped None ?s1)"
    by (rule service_step.TunnelDone) (simp_all add: assms(2) t(2))
  ultimately show ?thesis
    by (intro exI [of _ "exporter_stopped None ?s1"]) (simp add: exporter_stopped_def rtranclp.rtrancl_into_rtrancl)
qed

lemma stop_finishes:
  assumes "service_inv env s" and "sd_pc s \<noteq> Up" and "\<And>c. \<not> parked c (sd_tunnel s)"
  shows "\<exists>s'. service_steps env unrep s s' \<and> sd_pc s' = StopReturned"
proof (cases "sd_pc s")
  case InGracefulStop
  obtain s1 where s1: "service_steps env unrep s s1" "calls_done s1" "sd_pc s1 = InGracefulStop"
      "tn_conns (sd_tunnel s1) = tn_conns (sd_tunnel s)"
    using calls_can_finish [OF assms(1) InGracefulStop] by blast
  have step: "service_step env unrep s1 (tunnel_stop_called s1)" by (rule service_step.CallsDone [OF s1(3,2)])
  have "service_inv env (tunnel_stop_called s1)"
    by (rule service_inv_step [OF step service_inv_steps [OF s1(1) assms(1)]])
  moreover have "\<not> parked c (sd_tunnel (tunnel_stop_called s1))" for c
    using assms(3) [of c] s1(4) by (simp add: tunnel_stop_called_def parked_def stop_signal_def)
  moreover have "sd_pc (tunnel_stop_called s1) = InTunnelStop" by (simp add: tunnel_stop_called_def)
  ultimately obtain s' where "service_steps env unrep (tunnel_stop_called s1) s'" "sd_pc s' = StopReturned"
    using tunnel_stop_finishes by blast
  with s1(1) step show ?thesis by (meson rtranclp.rtrancl_into_rtrancl rtranclp_trans)
next
  case InTunnelStop
  then show ?thesis using tunnel_stop_finishes assms(1,3) by blast
qed (use assms(2) in auto)

text \<open>A handler that is stuck stays stuck.\<close>

lemma parked_service_step:
  assumes "service_step env unrep s s'" and "service_inv env s" and "parked c (sd_tunnel s)"
  shows "parked c (sd_tunnel s')"
  using assms(1) service_invD(1) [OF assms(2)]
proof (cases rule: service_step_tunnel)
  case (Quiet st)
  with assms(3) show ?thesis by (simp add: parked_def)
next
  case Work
  then have "tunnel_step env (sd_tunnel s) (sd_tunnel s')" by (simp add: work_step_def)
  then show ?thesis by (rule parked_step [OF _ tunnel_invD(6) [OF service_invD(2) [OF assms(2)]] assms(3)])
next
  case Shut
  with assms(3) show ?thesis by (simp add: parked_def stop_signal_def)
qed

lemma parked_service_steps:
  "service_steps env unrep s s' \<Longrightarrow> service_inv env s \<Longrightarrow> parked c (sd_tunnel s) \<Longrightarrow>
     service_inv env s' \<and> parked c (sd_tunnel s')"
  by (induction rule: rtranclp_induct) (blast intro: service_inv_step parked_service_step)+

subsection \<open>Properties\<close>

text \<open>
  C7. What \<^verbatim>\<open>Server.Stop\<close> leaves behind when it returns, whatever nodes, clients and the rest of the
  program did before and meanwhile: nothing. No call is in flight and no stream open; the tunnel does
  not listen, every handler has returned and closed its connection; no session is registered; the
  exporter has no socket; and nothing has panicked.
\<close>

theorem Stop_leaves_nothing_behind:
  assumes "service_steps env unrep (service_start yerr addr lsn) s" and "sd_pc s = StopReturned"
  shows "ms_inflight (sd_mesh s) = {#} \<and> sd_idle s = 0 \<and> sd_busy s = {#} \<and>
    \<not> tn_listening (sd_tunnel s) \<and> tn_wg (sd_tunnel s) = 0 \<and>
    (\<forall>c ph. tn_conns (sd_tunnel s) c = Some ph \<longrightarrow> (\<exists>cs. ph = Exited cs) \<and> c \<in> tn_closed_conns (sd_tunnel s)) \<and>
    reg_sessions (tn_registry (sd_tunnel s)) = Map.empty \<and> me_open (sd_exporter s) = {} \<and> \<not> tn_crashed (sd_tunnel s)"
proof -
  note I = service_invD [OF reachable_service_inv [OF assms(1)]]
  have down: "going_down s" "stop_returns (sd_tunnel s)" "me_server (sd_exporter s) = None"
    using I(6) assms(2) by simp_all
  note rest = at_rest [OF I(2) down(2)]
  have "(\<exists>cs. ph = Exited cs) \<and> c \<in> tn_closed_conns (sd_tunnel s)" if c: "tn_conns (sd_tunnel s) c = Some ph" for c ph
  proof -
    have dead: "\<not> live ph" using rest c by (auto simp: live_conns_def)
    then have "c \<in> tn_closed_conns (sd_tunnel s)" using I(4) c by (simp add: released_def)
    with dead show ?thesis by (cases ph) simp_all
  qed
  then show ?thesis
    using down rest I(5,7) tunnel_invD(1) [OF I(2)] by (auto simp: going_down_def calls_done_def stop_returns_def)
qed

text \<open>
  C8. When \<^verbatim>\<open>Server.Stop\<close> can return. From any moment of a shutdown, whatever came before, it can
  still return, by clients and nodes ending what they began, exactly if no handler is stuck: none has
  taken the result of its read loop in the \<^verbatim>\<open>select\<close> and waits for a second one. One node whose control
  stream ended before is enough to make every later \<^verbatim>\<open>Stop\<close> hang for ever.
\<close>

theorem Stop_returns_unless_a_handler_is_stuck:
  assumes "service_steps env unrep (service_start yerr addr lsn) s" and "sd_pc s \<noteq> Up"
  shows "(\<exists>s'. service_steps env unrep s s' \<and> sd_pc s' = StopReturned) \<longleftrightarrow>
    \<not> (\<exists>c sv. tn_conns (sd_tunnel s) c = Some (Draining sv) \<and> \<not> sv_reading sv \<and> sv_readDone sv = [])"
proof -
  have inv: "service_inv env s" by (rule reachable_service_inv [OF assms(1)])
  have parked: "(\<exists>c. parked c (sd_tunnel s)) \<longleftrightarrow>
      (\<exists>c sv. tn_conns (sd_tunnel s) c = Some (Draining sv) \<and> \<not> sv_reading sv \<and> sv_readDone sv = [])"
    by (auto simp: parked_def dest!: stuck_cases) (metis stuck.simps(1))
  have "\<not> parked c (sd_tunnel s)" if "service_steps env unrep s s'" "sd_pc s' = StopReturned" for c s'
  proof
    assume "parked c (sd_tunnel s)"
    from parked_service_steps [OF that(1) inv this] have "service_inv env s'" "parked c (sd_tunnel s')" by simp_all
    then show False using parked_blocks_Stop service_invD(2,6) that(2) by (metis pc_inv.simps(2))
  qed
  with stop_finishes [OF inv assms(2)] show ?thesis unfolding parked [symmetric] by blast
qed

text \<open>Streams that are open, and runs in which none of them ends.\<close>

definition open_streams :: "service \<Rightarrow> nat" where
  "open_streams s = sd_idle s + size (sd_busy s)"

definition streaming_step :: "'v tunnel_env \<Rightarrow> (f64 \<Rightarrow> int) \<Rightarrow> service \<Rightarrow> service \<Rightarrow> bool" where
  "streaming_step env unrep s s' \<longleftrightarrow> service_step env unrep s s' \<and> open_streams s \<le> open_streams s'"

lemma streaming_stays:
  assumes "service_step env unrep s s'" and "service_inv env s" and "0 < open_streams s"
    and "sd_pc s \<in> {Up, InGracefulStop}"
  shows "sd_pc s' \<in> {Up, InGracefulStop}"
  using assms(1)
proof (cases rule: service_step.cases)
  case CallsDone
  then show ?thesis
    using service_invD(5) [OF assms(2)] assms(3) by (simp add: calls_done_def open_streams_def)
qed (use assms(4) in \<open>simp_all add: stop_called_def\<close>)

lemma streaming_steps_stay:
  assumes "(streaming_step env unrep)\<^sup>*\<^sup>* s s'" and "service_inv env s" and "0 < open_streams s"
    and "sd_pc s \<in> {Up, InGracefulStop}"
  shows "service_inv env s' \<and> 0 < open_streams s' \<and> sd_pc s' \<in> {Up, InGracefulStop}"
  using assms(1)
proof (induction rule: rtranclp_induct)
  case base
  with assms(2-4) show ?case by simp
next
  case (step s1 s2)
  then have "service_step env unrep s1 s2" "open_streams s1 \<le> open_streams s2" by (simp_all add: streaming_step_def)
  with step.IH show ?case using service_inv_step streaming_stays by (metis less_le_trans)
qed

text \<open>
  C9. One client that keeps a stream open holds up the shutdown for as long as it likes: \<^verbatim>\<open>Stop\<close> stays
  in \<^verbatim>\<open>GracefulStop\<close>, which has no time limit, and meanwhile the tunnel has not been told: it listens, its
  context is not cancelled, it can accept new connections at any moment, and the exporter runs.
\<close>

theorem open_stream_holds_up_Stop:
  assumes "service_steps env unrep (service_start yerr addr lsn) s" and "sd_pc s \<in> {Up, InGracefulStop}"
    and "0 < open_streams s" and "(streaming_step env unrep)\<^sup>*\<^sup>* s s'"
  shows "sd_pc s' \<in> {Up, InGracefulStop} \<and> tn_listening (sd_tunnel s') \<and> \<not> tn_cancelled (sd_tunnel s') \<and>
    me_server (sd_exporter s') \<noteq> None \<and>
    (\<exists>s''. streaming_step env unrep s' s'' \<and> sd_tunnel s'' = accept_conn (sd_tunnel s'))"
proof -
  have inv: "service_inv env s'" and pc: "sd_pc s' \<in> {Up, InGracefulStop}"
    using streaming_steps_stay [OF assms(4) reachable_service_inv [OF assms(1)] assms(3,2)] by simp_all
  then have up: "still_up s'" using service_invD(6) [OF inv] by auto
  let ?s'' = "s'\<lparr>sd_mesh := (sd_mesh s')\<lparr>ms_tunnel := accept_conn (sd_tunnel s')\<rparr>\<rparr>"
  have "work_step env (sd_tunnel s') (accept_conn (sd_tunnel s'))"
    using up tunnel_step.Accept [of "sd_tunnel s'" env] by (simp add: work_step_def still_up_def accept_conn_def)
  then have "streaming_step env unrep s' ?s''"
    by (simp add: streaming_step_def service_step.Tunnel open_streams_def)
  moreover have "sd_tunnel ?s'' = accept_conn (sd_tunnel s')" by simp
  ultimately show ?thesis using up pc unfolding still_up_def by blast
qed

subsection \<open>Runs\<close>

text \<open>A server with one node, as in the runs of the tunnel.\<close>

abbreviation demo_service :: service where
  "demo_service \<equiv> service_start (\<lambda>_. None) '':9090'' 1"

definition demo_with :: "tunnel \<Rightarrow> service" where
  "demo_with t = demo_service\<lparr>sd_mesh := (sd_mesh demo_service)\<lparr>ms_tunnel := t\<rparr>\<rparr>"

lemma demo_with_simps [simp]:
  "sd_tunnel (demo_with t) = t" "sd_pc (demo_with t) = Up" "sd_idle (demo_with t) = 0" "sd_busy (demo_with t) = {#}"
  by (simp_all add: demo_with_def service_start_def)

lemma demo_service_up:
  assumes "tunnel_steps demo_env demo_start t" and "\<not> tn_cancelled t"
  shows "service_steps demo_env unrep demo_service (demo_with t)"
proof -
  have "sd_tunnel demo_service = demo_start" by (simp add: service_start_def mesh_start_def NewInvokeProxy_def Let_def)
  then show ?thesis unfolding demo_with_def
    using tunnel_work_lifts [of demo_env demo_service t unrep] tunnel_steps_work [OF assms] by simp
qed

lemma demo_stop:
  "service_steps demo_env unrep demo_service s \<Longrightarrow> sd_pc s = Up \<Longrightarrow>
     service_steps demo_env unrep demo_service (stop_called s)"
  by (blast intro: rtranclp.rtrancl_into_rtrancl service_step.StopCalled)

theorem Stop_returns_unless_a_handler_is_stuck_witness:
  "(\<exists>s. service_steps demo_env (\<lambda>_. 0) (stop_called (demo_with (demo_tunnel (Serving demo_sv) demo_reg))) s \<and>
      sd_pc s = StopReturned) \<and>
   \<not> (\<exists>s. service_steps demo_env (\<lambda>_. 0)
        (stop_called (demo_with (wake ReadDone 0 demo_eof (demo_tunnel (Serving demo_eof) demo_reg)))) s \<and>
      sd_pc s = StopReturned)"
proof -
  let ?up = "demo_tunnel (Serving demo_sv) demo_reg"
    and ?stuck = "wake ReadDone 0 demo_eof (demo_tunnel (Serving demo_eof) demo_reg)"
  have "tunnel_step demo_env (demo_tunnel (Serving demo_eof) demo_reg) ?stuck"
    by (rule tunnel_step.Wake) (simp_all add: demo_eof_def)
  with demo_eof_reached have "tunnel_steps demo_env demo_start ?stuck" by (rule rtranclp.rtrancl_into_rtrancl)
  moreover have "\<not> tn_cancelled ?up" "\<not> tn_cancelled ?stuck" by (simp_all add: demo_tunnel_def wake_def)
  ultimately have "service_steps demo_env (\<lambda>_. 0) demo_service (stop_called (demo_with ?up))"
      "service_steps demo_env (\<lambda>_. 0) demo_service (stop_called (demo_with ?stuck))"
    using demo_stop demo_service_up demo_up by simp_all
  from this [THEN Stop_returns_unless_a_handler_is_stuck] show ?thesis
    by (simp add: stop_called_def wake_def demo_eof_def)
qed

theorem Stop_leaves_nothing_behind_witness:
  "\<exists>s. service_steps demo_env (\<lambda>_. 0) (stop_called (demo_with (demo_tunnel (Serving demo_sv) demo_reg))) s \<and>
     sd_pc s = StopReturned \<and> reg_sessions (tn_registry (sd_tunnel s)) = Map.empty \<and> me_open (sd_exporter s) = {}"
proof -
  let ?s = "stop_called (demo_with (demo_tunnel (Serving demo_sv) demo_reg))"
  have r: "service_steps demo_env (\<lambda>_. 0) demo_service ?s"
    by (rule demo_stop [OF demo_service_up [OF demo_up]]) (simp_all add: demo_tunnel_def)
  have "\<not> parked c (sd_tunnel ?s)" for c by (simp add: parked_def stop_called_def)
  with stop_finishes [OF reachable_service_inv [OF r]] obtain s where
    s: "service_steps demo_env (\<lambda>_. 0) ?s s" "sd_pc s = StopReturned" by (auto simp: stop_called_def)
  from Stop_leaves_nothing_behind [OF rtranclp_trans [OF r s(1)] s(2)] s show ?thesis by blast
qed

text \<open>A stream is opened, \<^verbatim>\<open>Stop\<close> is called, and a node can still connect.\<close>

theorem open_stream_holds_up_Stop_witness:
  "service_steps demo_env (\<lambda>_. 0) demo_service (stop_called (demo_service\<lparr>sd_idle := 1\<rparr>)) \<and>
   tn_listening (sd_tunnel (stop_called (demo_service\<lparr>sd_idle := 1\<rparr>)))"
proof -
  have "service_step demo_env (\<lambda>_. 0) demo_service (demo_service\<lparr>sd_idle := Suc (sd_idle demo_service)\<rparr>)"
    by (rule service_step.StreamOpened) (simp add: service_start_def)
  then have r: "service_steps demo_env (\<lambda>_. 0) demo_service (stop_called (demo_service\<lparr>sd_idle := 1\<rparr>))"
    by (intro demo_stop r_into_rtranclp) (simp_all add: service_start_def)
  have pc: "sd_pc (stop_called (demo_service\<lparr>sd_idle := 1\<rparr>)) \<in> {Up, InGracefulStop}"
    and open_: "0 < open_streams (stop_called (demo_service\<lparr>sd_idle := 1\<rparr>))"
    by (simp_all add: stop_called_def open_streams_def)
  from open_stream_holds_up_Stop [OF r pc open_ rtranclp.rtrancl_refl] r show ?thesis by blast
qed

end
