(* ===== verification/Registry_Refinement.thy ===== *)
theory Registry_Refinement
  imports Registry_Properties
begin

section \<open>The session registry as a directory\<close>

text \<open>
  What the registry promises, without pointers, channels and yamux sessions: a table of sessions by
  peer id and the number of sessions ever registered, which numbers the next one. Sessions are values
  here; the registry implements them by shared objects, so that what is written through one pointer
  could show under another name. The refinement below says that it never does.
\<close>

subsection \<open>The specification\<close>

record directory =
  dr_entries :: "peer_id \<rightharpoonup> session_state"
  dr_count :: nat

definition no_sessions :: directory where
  "no_sessions = \<lparr>dr_entries = Map.empty, dr_count = 0\<rparr>"

definition update_entry :: "peer_id \<Rightarrow> (session_state \<Rightarrow> session_state) \<Rightarrow> directory \<Rightarrow> directory" where
  "update_entry p f d =
     (case dr_entries d p of None \<Rightarrow> d | Some s \<Rightarrow> d\<lparr>dr_entries := (dr_entries d)(p \<mapsto> f s)\<rparr>)"

definition drop_entry :: "peer_id \<Rightarrow> directory \<Rightarrow> directory" where
  "drop_entry p d = d\<lparr>dr_entries := (dr_entries d)(p := None)\<rparr>"

definition known :: "peer_id \<Rightarrow> directory \<Rightarrow> go_error option" where
  "known p d = (case dr_entries d p of None \<Rightarrow> Some ErrSessionNotFound | Some s \<Rightarrow> None)"

fun dir_call :: "instant \<Rightarrow> reg_op \<Rightarrow> directory \<Rightarrow> go_error option \<times> directory" where
  "dir_call now (OpRegisterSession p h y) d =
     (case h of
        None \<Rightarrow> (Some ErrInvalidHandshake, d)
      | Some hs \<Rightarrow>
          (None, \<lparr>dr_entries = (dr_entries d)(p \<mapsto> new_session now p hs y (dr_count d)), dr_count = Suc (dr_count d)\<rparr>))"
| "dir_call now (OpRemove p) d = (known p d, drop_entry p d)"
| "dir_call now (OpRemoveIfCurrent p a) d =
     (known p d,
      if map_option ss_ControlChan (dr_entries d p) = Some (Some a) then drop_entry p d else d)"
| "dir_call now (OpHeartbeat p) d = (known p d, update_entry p (\<lambda>s. s\<lparr>ss_LastHeartbeat := now\<rparr>) d)"
| "dir_call now (OpMarkDisconnected p) d = (None, update_entry p (\<lambda>s. s\<lparr>ss_Connected := False\<rparr>) d)"
| "dir_call now (OpCleanup maxAge ps) d =
     (None, d\<lparr>dr_entries := (\<lambda>p. case dr_entries d p of
                                None \<Rightarrow> None
                              | Some s \<Rightarrow> if p \<in> set ps \<and> is_stale now maxAge s then None else Some s)\<rparr>)"

fun dir_calls :: "(instant \<times> reg_op) list \<Rightarrow> directory \<Rightarrow> go_error option list \<times> directory" where
  "dir_calls [] d = ([], d)"
| "dir_calls ((now, c) # cs) d =
     (case dir_call now c d of (e, d1) \<Rightarrow> (case dir_calls cs d1 of (es, d2) \<Rightarrow> (e # es, d2)))"

subsection \<open>The calls of the registry with their answers\<close>

fun reg_call :: "instant \<Rightarrow> reg_op \<Rightarrow> registry \<Rightarrow> (go_error option \<times> registry) outcome" where
  "reg_call now (OpRegisterSession p h y) st =
     bind_outcome (RegisterSession now p h y st)
       (\<lambda>(r, st1). Return (case r of Inl e \<Rightarrow> Some e | Inr a \<Rightarrow> None, st1))"
| "reg_call now (OpRemove p) st = Remove p st"
| "reg_call now (OpRemoveIfCurrent p a) st = RemoveIfCurrent p a st"
| "reg_call now (OpHeartbeat p) st = Heartbeat now p st"
| "reg_call now (OpMarkDisconnected p) st = bind_outcome (MarkDisconnected p st) (\<lambda>st1. Return (None, st1))"
| "reg_call now (OpCleanup d ps) st = bind_outcome (Cleanup now d ps st) (\<lambda>(n, st1). Return (None, st1))"

fun reg_calls :: "(instant \<times> reg_op) list \<Rightarrow> registry \<Rightarrow> (go_error option list \<times> registry) outcome" where
  "reg_calls [] st = Return ([], st)"
| "reg_calls ((now, c) # cs) st =
     bind_outcome (reg_call now c st) (\<lambda>(e, st1).
       bind_outcome (reg_calls cs st1) (\<lambda>(es, st2). Return (e # es, st2)))"

lemma reg_step_call: "reg_step now c st = bind_outcome (reg_call now c st) (\<lambda>(e, st1). Return st1)"
proof (cases c)
  case (OpRegisterSession p h y)
  then show ?thesis by (cases "RegisterSession now p h y st") auto
next
  case (OpMarkDisconnected p)
  then show ?thesis by (cases "MarkDisconnected p st") auto
next
  case (OpCleanup d ps)
  then show ?thesis by (cases "Cleanup now d ps st") auto
qed (simp_all add: case_prod_unfold)

subsection \<open>The abstraction\<close>

definition directory_of :: "registry \<Rightarrow> directory" where
  "directory_of st =
     \<lparr>dr_entries = (\<lambda>p. case reg_sessions st p of None \<Rightarrow> None | Some a \<Rightarrow> reg_heap st a), dr_count = reg_next st\<rparr>"

lemma directory_of_New: "directory_of (NewRegistry yerr) = no_sessions"
  by (simp add: directory_of_def no_sessions_def NewRegistry_def)

text \<open>No two peer ids share an object, so a write to one entry is a write to that entry only.\<close>

lemma lookup_write:
  assumes "m p = Some a" and "\<And>q. m q = Some a \<Longrightarrow> q = p"
  shows "(\<lambda>q. case m q of None \<Rightarrow> None | Some b \<Rightarrow> (h(a \<mapsto> v)) b) = (\<lambda>q. case m q of None \<Rightarrow> None | Some b \<Rightarrow> h b)(p \<mapsto> v)"
    and "(\<lambda>q. case (m(p := None)) q of None \<Rightarrow> None | Some b \<Rightarrow> (h(a \<mapsto> v)) b) =
      (\<lambda>q. case m q of None \<Rightarrow> None | Some b \<Rightarrow> h b)(p := None)"
proof -
  have "q = p \<or> m q \<noteq> Some a" for q using assms(2) by blast
  with assms(1) show "(\<lambda>q. case m q of None \<Rightarrow> None | Some b \<Rightarrow> (h(a \<mapsto> v)) b) =
      (\<lambda>q. case m q of None \<Rightarrow> None | Some b \<Rightarrow> h b)(p \<mapsto> v)"
    "(\<lambda>q. case (m(p := None)) q of None \<Rightarrow> None | Some b \<Rightarrow> (h(a \<mapsto> v)) b) =
      (\<lambda>q. case m q of None \<Rightarrow> None | Some b \<Rightarrow> h b)(p := None)"
    by (auto simp: fun_eq_iff split: option.split)
qed

lemma sole_name: "reg_wf st \<Longrightarrow> reg_sessions st p = Some a \<Longrightarrow> reg_sessions st q = Some a \<Longrightarrow> q = p"
  by (rule reg_wf_inj)

lemma directory_of_store:
  assumes "reg_wf st" and "reg_sessions st p = Some a" and "reg_heap st a = Some s"
  shows "directory_of (store a (f s) st) = update_entry p f (directory_of st)"
  using lookup_write(1) [of "reg_sessions st" p a "reg_heap st" "f s", OF assms(2) sole_name [OF assms(1,2)]] assms(2,3)
  by (simp add: directory_of_def update_entry_def cong: option.case_cong)

lemma directory_of_drop:
  assumes "reg_wf st" and "reg_sessions st p = Some a"
  shows "directory_of (drop_closed p a s st) = drop_entry p (directory_of st)"
  using lookup_write(2) [of "reg_sessions st" p a "reg_heap st" "s\<lparr>ss_Connected := False\<rparr>", OF assms(2) sole_name [OF assms(1,2)]]
  by (simp add: directory_of_def drop_entry_def drop_closed_def close_effect_def cong: option.case_cong)

lemma directory_of_registered:
  assumes "reg_wf st"
  shows "directory_of (registered now p h y st) =
    \<lparr>dr_entries = (dr_entries (directory_of st))(p \<mapsto> new_session now p h y (dr_count (directory_of st))),
     dr_count = Suc (dr_count (directory_of st))\<rparr>"
proof -
  have "(case ((reg_sessions st)(p \<mapsto> reg_next st)) q of None \<Rightarrow> None | Some a \<Rightarrow> reg_heap (registered now p h y st) a) =
      ((\<lambda>p. case reg_sessions st p of None \<Rightarrow> None | Some a \<Rightarrow> reg_heap st a)(p \<mapsto> new_session now p h y (reg_next st))) q"
    for q
  proof (cases "q = p")
    case True
    then show ?thesis by (simp add: registered_new [OF assms])
  next
    case False
    have "reg_heap (registered now p h y st) a = reg_heap st a" if "reg_sessions st q = Some a" for a
      using registered_other [of a st p] reg_wf_next_unused(3) [OF assms, of q] reg_wf_inj [OF assms that, of p] that False
      by auto
    with False show ?thesis by (auto split: option.splits)
  qed
  then show ?thesis by (simp add: directory_of_def fun_eq_iff)
qed

lemma Cleanup_loop_next:
  assumes "reg_wf st" and "Cleanup_loop now maxAge ps n st = Return (k, st')"
  shows "reg_next st' = reg_next st"
  by (rule Cleanup_loop_keeps [where P = "\<lambda>s. reg_next s = reg_next st", OF assms])
     (simp_all add: drop_closed_def close_effect_def)

lemma directory_of_cleaned:
  assumes "reg_wf st" and "cleaned now maxAge P st st'" and "reg_next st' = reg_next st"
  shows "directory_of st' = (directory_of st)\<lparr>dr_entries := (\<lambda>p. case dr_entries (directory_of st) p of
      None \<Rightarrow> None | Some s \<Rightarrow> if p \<in> P \<and> is_stale now maxAge s then None else Some s)\<rparr>"
proof -
  have "(case reg_sessions st' p of None \<Rightarrow> None | Some a \<Rightarrow> reg_heap st' a) =
      (case (case reg_sessions st p of None \<Rightarrow> None | Some a \<Rightarrow> reg_heap st a) of
         None \<Rightarrow> None | Some s \<Rightarrow> if p \<in> P \<and> is_stale now maxAge s then None else Some s)" for p
  proof (cases "reg_sessions st p")
    case None
    then show ?thesis using assms(2) by (simp add: cleaned_def)
  next
    case (Some a)
    obtain s where s: "reg_heap st a = Some s" using reg_wf_entry [OF assms(1) Some] by metis
    have st': "reg_sessions st' p = (if p \<in> P \<inter> stale_peers now maxAge st then None else Some a)"
      using assms(2) Some by (simp add: cleaned_def)
    have stale: "p \<in> stale_peers now maxAge st \<longleftrightarrow> is_stale now maxAge s" using Some s by (simp add: stale_peers_def)
    show ?thesis
    proof (cases "p \<in> P \<and> is_stale now maxAge s")
      case True
      with st' stale Some s show ?thesis by simp
    next
      case False
      with st' stale have "reg_sessions st' p = Some a" by auto
      then have "reg_heap st' a = Some s" using assms(2) s unfolding cleaned_def by metis
      with False Some s st' stale show ?thesis by auto
    qed
  qed
  then show ?thesis using assms(3) by (simp add: directory_of_def fun_eq_iff)
qed

subsection \<open>The simulation\<close>

definition call_refines :: "instant \<Rightarrow> reg_op \<Rightarrow> registry \<Rightarrow> bool" where
  "call_refines now c st \<longleftrightarrow>
     (\<exists>st'. reg_call now c st = Return (fst (dir_call now c (directory_of st)), st') \<and> reg_wf st' \<and>
        directory_of st' = snd (dir_call now c (directory_of st)))"

lemma directory_lookup:
  assumes "reg_wf st"
  obtains (Missing) "reg_sessions st p = None" "dr_entries (directory_of st) p = None"
      "known p (directory_of st) = Some ErrSessionNotFound"
  | (Found) a s where "reg_sessions st p = Some a" "reg_heap st a = Some s" "dr_entries (directory_of st) p = Some s"
      "ss_ControlChan s = Some a" "known p (directory_of st) = None"
proof (cases "reg_sessions st p")
  case None
  with that(1) show ?thesis by (simp add: directory_of_def known_def)
next
  case (Some a)
  obtain s where "reg_heap st a = Some s" "ss_ControlChan s = Some a" using reg_wf_entry [OF assms Some] by metis
  with Some that(2) show ?thesis by (simp add: directory_of_def known_def)
qed

lemma remove_refines:
  assumes "reg_wf st"
  shows "call_refines now (OpRemove p) st" and "call_refines now (OpRemoveIfCurrent p a) st"
proof -
  show "call_refines now (OpRemove p) st"
    using assms
  proof (cases rule: directory_lookup [of st p])
    case Missing
    then have "drop_entry p (directory_of st) = directory_of st" by (simp add: drop_entry_def fun_upd_idem)
    with Missing assms show ?thesis by (simp add: call_refines_def Remove_def)
  next
    case (Found a s)
    with Remove_registered [OF assms Found(1,2)] wf_drop [OF assms Found(1,2)] directory_of_drop [OF assms Found(1)]
    show ?thesis by (simp add: call_refines_def)
  qed
  show "call_refines now (OpRemoveIfCurrent p a) st"
    using assms
  proof (cases rule: directory_lookup [of st p])
    case Missing
    with assms show ?thesis by (simp add: call_refines_def RemoveIfCurrent_def)
  next
    case (Found b s)
    show ?thesis
    proof (cases "b = a")
      case True
      with Found RemoveIfCurrent_registered [OF assms Found(1,2)] wf_drop [OF assms Found(1,2)]
        directory_of_drop [OF assms Found(1)] show ?thesis by (simp add: call_refines_def)
    next
      case False
      with Found assms show ?thesis by (simp add: call_refines_def RemoveIfCurrent_def)
    qed
  qed
qed

lemma write_refines:
  assumes "reg_wf st"
  shows "call_refines now (OpHeartbeat p) st" and "call_refines now (OpMarkDisconnected p) st"
proof -
  show "call_refines now (OpHeartbeat p) st"
    using assms
  proof (cases rule: directory_lookup [of st p])
    case Missing
    with assms show ?thesis by (simp add: call_refines_def Heartbeat_def Get_def update_entry_def)
  next
    case (Found a s)
    with Heartbeat_registered [OF Found(1,2)] wf_store [OF assms Found(2)]
      directory_of_store [OF assms Found(1,2), of "\<lambda>s. s\<lparr>ss_LastHeartbeat := now\<rparr>"]
    show ?thesis by (simp add: call_refines_def)
  qed
  show "call_refines now (OpMarkDisconnected p) st"
    using assms
  proof (cases rule: directory_lookup [of st p])
    case Missing
    with assms show ?thesis by (simp add: call_refines_def MarkDisconnected_def update_entry_def)
  next
    case (Found a s)
    with MarkDisconnected_registered [OF Found(1,2)] wf_store [OF assms Found(2)]
      directory_of_store [OF assms Found(1,2), of "\<lambda>s. s\<lparr>ss_Connected := False\<rparr>"]
    show ?thesis by (simp add: call_refines_def)
  qed
qed

lemma reg_call_refines:
  assumes "reg_wf st"
  shows "call_refines now c st"
proof (cases c)
  case (OpRegisterSession p h y)
  with RegisterSession_ok [OF assms] wf_registered [OF assms] directory_of_registered [OF assms] assms
  show ?thesis by (cases h) (simp_all add: call_refines_def RegisterSession_def)
next
  case (OpCleanup d ps)
  obtain n st' where st': "Cleanup now d ps st = Return (n, st')" "reg_wf st'" "cleaned now d (set ps) st st'"
    using Cleanup_spec [OF assms] by metis
  have "reg_next st' = reg_next st" using Cleanup_loop_next [OF assms] st'(1) unfolding Cleanup_def by blast
  with OpCleanup st' directory_of_cleaned [OF assms st'(3)] show ?thesis by (simp add: call_refines_def)
qed (simp_all add: remove_refines write_refines assms)

lemma reg_calls_refine:
  "reg_wf st \<Longrightarrow> \<exists>st'. reg_calls cs st = Return (fst (dir_calls cs (directory_of st)), st') \<and> reg_wf st' \<and>
     directory_of st' = snd (dir_calls cs (directory_of st))"
proof (induction cs arbitrary: st)
  case (Cons x cs)
  obtain now c where x: "x = (now, c)" by (cases x)
  obtain st1 where st1: "reg_call now c st = Return (fst (dir_call now c (directory_of st)), st1)" "reg_wf st1"
      "directory_of st1 = snd (dir_call now c (directory_of st))"
    using reg_call_refines [OF Cons.prems] unfolding call_refines_def by metis
  from Cons.IH [OF st1(2)] st1 show ?case by (auto simp: x split: prod.splits)
qed simp

subsection \<open>What callers see\<close>

definition open_entry :: "'str stream_race \<Rightarrow> peer_id \<Rightarrow> directory \<Rightarrow> 'str result" where
  "open_entry race p d =
     (case dr_entries d p of
        None \<Rightarrow> Inl ErrSessionNotFound
      | Some s \<Rightarrow>
          if \<not> ss_Connected s \<or> ss_Session s = None then Inl (Errorf ''peer not connected: %s'' [ArgStr p])
          else (case race of StreamDone r \<Rightarrow> r | stream_race.ContextDone e \<Rightarrow> Inl e))"

lemma OpenStream_directory: "reg_wf st \<Longrightarrow> OpenStream race p st = Return (open_entry race p (directory_of st))"
  by (cases "reg_sessions st p") (auto simp: OpenStream_def open_entry_def directory_of_def elim: reg_wf_entry)

lemma Size_directory: "reg_wf st \<Longrightarrow> Size st = card (dom (dr_entries (directory_of st)))"
proof -
  assume wf: "reg_wf st"
  have "dom (dr_entries (directory_of st)) = dom (reg_sessions st)"
    by (auto simp: directory_of_def split: option.splits) (metis reg_wf_entry [OF wf])
  then show ?thesis by (simp add: Size_def map_len_def)
qed


end
