(* ===== verification/Retry.thy ===== *)
theory Retry
  imports Go_Float
begin

section \<open>Retrying with exponential backoff (pkg/fault/retry.go)\<close>

text \<open>
  \<^verbatim>\<open>Retry\<close> calls a function until it succeeds, its error is final, the context ends or the
  attempts are used up. What the outside does in round \<open>k\<close> is the record \<open>world\<close>: the result of
  the \<open>k\<close>-th call, what \<^verbatim>\<open>ctx.Err()\<close> answers after it, which case the \<^verbatim>\<open>select\<close> takes, and the
  random number drawn. The state of the loop is the number of calls made and the calls of
  \<^verbatim>\<open>OnRetry\<close>. \<^verbatim>\<open>status.FromError\<close> of the gRPC library is an argument.
\<close>

record retry_config =
  rc_MaxAttempts :: int
  rc_InitialDelay :: duration
  rc_MaxDelay :: duration
  rc_Multiplier :: f64
  rc_Jitter :: bool
  rc_RetryableErrors :: "(go_error \<Rightarrow> bool) option"
  rc_OnRetry :: bool

record world =
  call_result :: "nat \<Rightarrow> go_error option outcome"
  ctx_Err :: "nat \<Rightarrow> go_error option"
  wait_ends :: "nat \<Rightarrow> go_error option"      \<comment> \<open>\<open>None\<close>: the timer; \<open>Some\<close>: \<^verbatim>\<open>ctx.Done()\<close>\<close>
  rand_Float64 :: "nat \<Rightarrow> f64"

definition DefaultRetryableErrors :: "(go_error \<Rightarrow> grpc_code option) \<Rightarrow> go_error option \<Rightarrow> bool" where
  "DefaultRetryableErrors status_FromError err =
     (case err of
        None \<Rightarrow> False
      | Some e \<Rightarrow>
          if e = context_Canceled \<or> e = context_DeadlineExceeded then False
          else
            (case status_FromError e of
               None \<Rightarrow> True
             | Some code \<Rightarrow> code \<in> {Unavailable, ResourceExhausted, Aborted, DeadlineExceeded, Internal}))"

definition DefaultRetryConfig :: "(go_error \<Rightarrow> grpc_code option) \<Rightarrow> retry_config" where
  "DefaultRetryConfig status_FromError =
     \<lparr>rc_MaxAttempts = 3, rc_InitialDelay = 100 * millisecond, rc_MaxDelay = 10 * second,
      rc_Multiplier = Fin 2, rc_Jitter = True,
      rc_RetryableErrors = Some (\<lambda>e. DefaultRetryableErrors status_FromError (Some e)), rc_OnRetry = False\<rparr>"

subsection \<open>Delays\<close>

fun multiply_loop :: "nat \<Rightarrow> f64 \<Rightarrow> f64 \<Rightarrow> f64" where
  "multiply_loop 0 m delay = delay"
| "multiply_loop (Suc n) m delay = multiply_loop n m (f_mul delay m)"

definition calculateDelay :: "(f64 \<Rightarrow> int) \<Rightarrow> f64 \<Rightarrow> nat \<Rightarrow> retry_config \<Rightarrow> duration" where
  "calculateDelay unrep rand attempt config =
     (let delay = multiply_loop attempt (rc_Multiplier config) (f_of_int (rc_InitialDelay config));
          delay = (if f_less (f_of_int (rc_MaxDelay config)) delay then f_of_int (rc_MaxDelay config) else delay);
          result = f_to_int unrep delay
      in if rc_Jitter config then
           (let jitter = f_add (Fin (1 / 2)) rand in f_to_int unrep (f_mul (f_of_int result) jitter))
         else result)"

subsection \<open>The loop\<close>

record retry_trace =
  rt_calls :: nat
  rt_retries :: "(int \<times> duration \<times> go_error) list"

function retry_loop ::
  "(f64 \<Rightarrow> int) \<Rightarrow> retry_config \<Rightarrow> world \<Rightarrow> nat \<Rightarrow> go_error option \<Rightarrow> retry_trace
     \<Rightarrow> go_error option outcome \<times> retry_trace" where
  "retry_loop unrep config w attempt lastErr tr =
     (if int attempt > rc_MaxAttempts config then
        (Return (Some (case lastErr of
            Some e \<Rightarrow> Wrapf ''max retry attempts (%d) exceeded: %w'' [ArgInt (rc_MaxAttempts config)] e
          | None \<Rightarrow> Errorf ''max retry attempts (%d) exceeded: %w'' [ArgInt (rc_MaxAttempts config)])), tr)
      else
        let tr1 = tr\<lparr>rt_calls := Suc (rt_calls tr)\<rparr> in
        (case call_result w attempt of
           Panic m \<Rightarrow> (Panic m, tr1)
         | Return None \<Rightarrow> (Return None, tr1)
         | Return (Some err) \<Rightarrow>
             if int attempt \<ge> rc_MaxAttempts config then
               (Return (Some (Wrapf ''max retry attempts (%d) exceeded: %w''
                                [ArgInt (rc_MaxAttempts config)] err)), tr1)
             else if (case rc_RetryableErrors config of None \<Rightarrow> False | Some f \<Rightarrow> \<not> f err) then
               (Return (Some err), tr1)
             else if ctx_Err w attempt \<noteq> None then (Return (ctx_Err w attempt), tr1)
             else
               let delay = calculateDelay unrep (rand_Float64 w attempt) attempt config;
                   tr2 = (if rc_OnRetry config
                          then tr1\<lparr>rt_retries := rt_retries tr1 @ [(int attempt + 1, delay, err)]\<rparr> else tr1)
               in (case wait_ends w attempt of
                     None \<Rightarrow> retry_loop unrep config w (Suc attempt) (Some err) tr2
                   | Some e \<Rightarrow> (Return (Some e), tr2))))"
  by pat_completeness auto
termination
  by (relation "measure (\<lambda>(_, config, _, attempt, _, _). nat (rc_MaxAttempts config + 1 - int attempt))") auto

declare retry_loop.simps [simp del]

definition Retry ::
  "(f64 \<Rightarrow> int) \<Rightarrow> (go_error \<Rightarrow> grpc_code option) \<Rightarrow> retry_config option \<Rightarrow> world
     \<Rightarrow> go_error option outcome \<times> retry_trace" where
  "Retry unrep status_FromError config w =
     retry_loop unrep (case config of None \<Rightarrow> DefaultRetryConfig status_FromError | Some c \<Rightarrow> c) w 0 None
       \<lparr>rt_calls = 0, rt_retries = []\<rparr>"

text \<open>\<open>show\<close> is how \<^verbatim>\<open>%v\<close> prints the value of a panic.\<close>

definition RetryWithRecovery ::
  "(f64 \<Rightarrow> int) \<Rightarrow> (go_error \<Rightarrow> grpc_code option) \<Rightarrow> retry_config option \<Rightarrow> world \<Rightarrow> go_error option \<times> retry_trace" where
  "RetryWithRecovery unrep status_FromError config w =
     (case Retry unrep status_FromError config w of
        (Return e, tr) \<Rightarrow> (e, tr)
      | (Panic m, tr) \<Rightarrow> (Some (Errorf ''panic during retry: %v'' [ArgStr m]), tr))"

subsection \<open>Executors\<close>

record executor =
  ex_config :: retry_config

definition NewExecutor :: "(go_error \<Rightarrow> grpc_code option) \<Rightarrow> retry_config option \<Rightarrow> executor" where
  "NewExecutor status_FromError config =
     \<lparr>ex_config = (case config of None \<Rightarrow> DefaultRetryConfig status_FromError | Some c \<Rightarrow> c)\<rparr>"

definition Executor_Execute ::
  "(f64 \<Rightarrow> int) \<Rightarrow> (go_error \<Rightarrow> grpc_code option) \<Rightarrow> executor \<Rightarrow> world \<Rightarrow> go_error option outcome \<times> retry_trace" where
  "Executor_Execute unrep status_FromError e w = Retry unrep status_FromError (Some (ex_config e)) w"

definition WithMaxAttempts :: "int \<Rightarrow> executor \<Rightarrow> executor" where
  "WithMaxAttempts n e = \<lparr>ex_config = (ex_config e)\<lparr>rc_MaxAttempts := n\<rparr>\<rparr>"

definition WithInitialDelay :: "duration \<Rightarrow> executor \<Rightarrow> executor" where
  "WithInitialDelay d e = \<lparr>ex_config = (ex_config e)\<lparr>rc_InitialDelay := d\<rparr>\<rparr>"

definition WithMaxDelay :: "duration \<Rightarrow> executor \<Rightarrow> executor" where
  "WithMaxDelay d e = \<lparr>ex_config = (ex_config e)\<lparr>rc_MaxDelay := d\<rparr>\<rparr>"

subsection \<open>Where the loop stops\<close>

definition final_error :: "retry_config \<Rightarrow> go_error \<Rightarrow> bool" where
  "final_error c e \<longleftrightarrow> (case rc_RetryableErrors c of None \<Rightarrow> False | Some f \<Rightarrow> \<not> f e)"

text \<open>The answer round \<open>k\<close> gives, if it gives one; \<open>None\<close> means that the loop goes on.\<close>

definition round_answer :: "retry_config \<Rightarrow> world \<Rightarrow> nat \<Rightarrow> go_error option outcome option" where
  "round_answer c w k =
     (case call_result w k of
        Panic m \<Rightarrow> Some (Panic m)
      | Return None \<Rightarrow> Some (Return None)
      | Return (Some e) \<Rightarrow>
          if int k = rc_MaxAttempts c then
            Some (Return (Some (Wrapf ''max retry attempts (%d) exceeded: %w'' [ArgInt (rc_MaxAttempts c)] e)))
          else if final_error c e then Some (Return (Some e))
          else if ctx_Err w k \<noteq> None then Some (Return (ctx_Err w k))
          else map_option (\<lambda>e. Return (Some e)) (wait_ends w k))"

lemma round_answer_last: "int k = rc_MaxAttempts c \<Longrightarrow> round_answer c w k \<noteq> None"
  by (simp add: round_answer_def split: outcome.split option.split)

lemma retry_loop_answer:
  assumes "int k \<le> rc_MaxAttempts c" and "round_answer c w k = Some r"
  shows "fst (retry_loop unrep c w k e tr) = r \<and>
    rt_calls (snd (retry_loop unrep c w k e tr)) = Suc (rt_calls tr)"
  using assms
  by (cases "call_result w k")
     (auto simp: retry_loop.simps [of unrep c w k] round_answer_def final_error_def Let_def
        split: option.splits if_splits)

lemma retry_loop_next:
  assumes "int k \<le> rc_MaxAttempts c" and "round_answer c w k = None"
  shows "\<exists>err tr1. rt_calls tr1 = Suc (rt_calls tr) \<and>
    retry_loop unrep c w k e tr = retry_loop unrep c w (Suc k) (Some err) tr1"
proof -
  obtain err where err: "call_result w k = Return (Some err)"
    using assms(2) by (auto simp: round_answer_def split: outcome.splits option.splits)
  let ?tr1 = "tr\<lparr>rt_calls := Suc (rt_calls tr)\<rparr>"
  let ?tr2 = "if rc_OnRetry c then ?tr1\<lparr>rt_retries := rt_retries ?tr1 @
      [(int k + 1, calculateDelay unrep (rand_Float64 w k) k c, err)]\<rparr> else ?tr1"
  have "retry_loop unrep c w k e tr = retry_loop unrep c w (Suc k) (Some err) ?tr2"
    using assms err
    by (auto simp: retry_loop.simps [of unrep c w k] round_answer_def final_error_def Let_def
        split: option.splits if_splits)
  then show ?thesis by (intro exI [of _ err] exI [of _ ?tr2]) simp
qed

lemma retry_loop_spec:
  "\<lbrakk>\<forall>j. a \<le> j \<and> j < a + n \<longrightarrow> round_answer c w j = None; round_answer c w (a + n) = Some r;
    int (a + n) \<le> rc_MaxAttempts c\<rbrakk> \<Longrightarrow>
   fst (retry_loop unrep c w a e tr) = r \<and> rt_calls (snd (retry_loop unrep c w a e tr)) = rt_calls tr + n + 1"
proof (induction n arbitrary: a e tr)
  case 0
  then show ?case using retry_loop_answer [of a c w r unrep e tr] by simp
next
  case (Suc n)
  have "int a \<le> rc_MaxAttempts c" "round_answer c w a = None" using Suc.prems by simp_all
  then obtain err tr1 where "rt_calls tr1 = Suc (rt_calls tr)"
      "retry_loop unrep c w a e tr = retry_loop unrep c w (Suc a) (Some err) tr1"
    using retry_loop_next by metis
  moreover have "fst (retry_loop unrep c w (Suc a) (Some err) tr1) = r \<and>
      rt_calls (snd (retry_loop unrep c w (Suc a) (Some err) tr1)) = rt_calls tr1 + n + 1"
    by (rule Suc.IH) (use Suc.prems in simp_all)
  ultimately show ?case by simp
qed

text \<open>
  C33. With a non-negative \<^verbatim>\<open>MaxAttempts\<close>, \<^verbatim>\<open>Retry\<close> always returns after at most
  \<open>MaxAttempts + 1\<close> calls, and what it returns is the answer of the first round that gives one: a
  success, a panic, an error that is final for the policy, the context's error, or, in the last
  round, the call's error wrapped.
\<close>

theorem Retry_returns_first_answer:
  assumes "0 \<le> rc_MaxAttempts c"
  shows "\<exists>k r. int k \<le> rc_MaxAttempts c \<and> round_answer c w k = Some r \<and>
    (\<forall>j<k. round_answer c w j = None) \<and>
    fst (Retry unrep status_FromError (Some c) w) = r \<and>
    rt_calls (snd (Retry unrep status_FromError (Some c) w)) = k + 1"
proof -
  have ex: "round_answer c w (nat (rc_MaxAttempts c)) \<noteq> None"
    using assms by (intro round_answer_last) simp
  define k where "k = (LEAST k. round_answer c w k \<noteq> None)"
  have "round_answer c w k \<noteq> None" unfolding k_def by (rule LeastI) (rule ex)
  then obtain r where r: "round_answer c w k = Some r" by blast
  have min: "\<forall>j<k. round_answer c w j = None"
    unfolding k_def by (intro allI impI) (drule not_less_Least, simp)
  have "k \<le> nat (rc_MaxAttempts c)" unfolding k_def by (rule Least_le) (rule ex)
  with assms have le: "int k \<le> rc_MaxAttempts c" by simp
  have "fst (Retry unrep status_FromError (Some c) w) = r \<and>
      rt_calls (snd (Retry unrep status_FromError (Some c) w)) = k + 1"
    using retry_loop_spec [where a = 0 and n = k and tr = "\<lparr>rt_calls = 0, rt_retries = []\<rparr>"] min r le
    by (simp add: Retry_def)
  with le r min show ?thesis by blast
qed

definition demo_retry :: retry_config where
  "demo_retry = \<lparr>rc_MaxAttempts = 2, rc_InitialDelay = 4, rc_MaxDelay = 10, rc_Multiplier = Fin 2, rc_Jitter = False,
     rc_RetryableErrors = None, rc_OnRetry = False\<rparr>"

definition demo_world :: world where
  "demo_world = \<lparr>call_result = (\<lambda>k. if k = 1 then Return None else Return (Some (Foreign ''down''))),
     ctx_Err = (\<lambda>_. None), wait_ends = (\<lambda>_. None), rand_Float64 = (\<lambda>_. Fin (3 / 4))\<rparr>"

theorem Retry_returns_first_answer_witness:
  "fst (Retry (\<lambda>_. 0) (\<lambda>_. None) (Some demo_retry) demo_world) = Return None \<and>
   rt_calls (snd (Retry (\<lambda>_. 0) (\<lambda>_. None) (Some demo_retry) demo_world)) = 2"
proof -
  have a: "round_answer demo_retry demo_world 0 = None"
    "round_answer demo_retry demo_world (Suc 0) = Some (Return None)"
    by (simp_all add: round_answer_def demo_retry_def demo_world_def final_error_def)
  obtain k r where k: "round_answer demo_retry demo_world k = Some r" "\<forall>j<k. round_answer demo_retry demo_world j = None"
      "fst (Retry (\<lambda>_. 0) (\<lambda>_. None) (Some demo_retry) demo_world) = r"
      "rt_calls (snd (Retry (\<lambda>_. 0) (\<lambda>_. None) (Some demo_retry) demo_world)) = k + 1"
    using Retry_returns_first_answer [of demo_retry demo_world "\<lambda>_. 0" "\<lambda>_. None"]
    by (auto simp: demo_retry_def)
  have "k \<noteq> 0" using a(1) k(1) by (intro notI) simp
  moreover have "\<not> 1 < k" using a k(2) by auto
  ultimately have "k = Suc 0" by simp
  with a k show ?thesis by simp
qed

subsection \<open>The delays\<close>

text \<open>The floating-point product before the cap: a number the rounding keeps, or too big.\<close>

fun backoff_value :: "rat \<Rightarrow> f64 \<Rightarrow> bool" where
  "backoff_value b (Fin x) = (representable x \<and> b \<le> x \<and> 0 \<le> x)"
| "backoff_value b PosInf = True"
| "backoff_value b _ = False"

lemma fl_backoff:
  assumes "representable x" and "0 \<le> x" and "x \<le> q"
  shows "backoff_value x (fl q)"
proof -
  have "x \<le> rnd q" by (rule ieee.exact_le_round [OF assms(1,3)])
  moreover have "\<not> rnd q \<le> - (2 ^ 1024)"
  proof -
    have "- (2 ^ 1024) < (0::rat)" by simp
    with \<open>x \<le> rnd q\<close> assms(2) show ?thesis by linarith
  qed
  ultimately show ?thesis
    using assms(2) ieee.exact_round [of q] by (simp add: fl_def Let_def)
qed

lemma f_mul_backoff:
  assumes "backoff_value b d" and "1 \<le> m" and "0 < b"
  shows "backoff_value b (f_mul d (Fin m))"
proof (cases d)
  case (Fin x)
  with assms have x: "representable x" "b \<le> x" "0 \<le> x" by simp_all
  with assms(2) have "x \<le> x * m" by (simp add: mult_le_cancel_left1)
  from fl_backoff [OF x(1,3) this] x(2) Fin show ?thesis
    by (cases "fl (x * m)") auto
qed (use assms in \<open>simp_all add: inf_of_sign_def\<close>)

lemma multiply_loop_backoff:
  "backoff_value b d \<Longrightarrow> 1 \<le> m \<Longrightarrow> 0 < b \<Longrightarrow> backoff_value b (multiply_loop n (Fin m) d)"
  by (induction n arbitrary: d) (auto intro: f_mul_backoff)

lemma multiply_loop_Suc: "multiply_loop (Suc n) m d = f_mul (multiply_loop n m d) m"
  by (induction n arbitrary: d) auto

definition plain_config :: "retry_config \<Rightarrow> rat \<Rightarrow> bool" where
  "plain_config c m \<longleftrightarrow> 0 < rc_InitialDelay c \<and> rc_InitialDelay c \<le> 2 ^ 53 \<and> 0 \<le> rc_MaxDelay c \<and>
     rc_MaxDelay c \<le> 2 ^ 51 \<and> rc_Multiplier c = Fin m \<and> 1 \<le> m"

text \<open>The delay before jitter.\<close>

definition capped :: "retry_config \<Rightarrow> f64 \<Rightarrow> rat" where
  "capped c d = (case d of Fin x \<Rightarrow> min x (of_int (rc_MaxDelay c)) | _ \<Rightarrow> of_int (rc_MaxDelay c))"

lemma capped_eq:
  assumes "plain_config c m" and "backoff_value b d"
  shows "(if f_less (f_of_int (rc_MaxDelay c)) d then f_of_int (rc_MaxDelay c) else d) = Fin (capped c d)"
proof -
  have "f_of_int (rc_MaxDelay c) = Fin (of_int (rc_MaxDelay c))"
    using assms(1) by (intro f_of_int_small) (simp add: plain_config_def)
  with assms(2) show ?thesis by (cases d) (auto simp: capped_def)
qed

definition backoff :: "retry_config \<Rightarrow> nat \<Rightarrow> f64" where
  "backoff c n = multiply_loop n (rc_Multiplier c) (f_of_int (rc_InitialDelay c))"

lemma backoff_backoff_value:
  assumes "plain_config c m"
  shows "backoff_value (of_int (rc_InitialDelay c)) (backoff c n)"
proof -
  have i: "\<bar>rc_InitialDelay c\<bar> \<le> 2 ^ 53" "0 < rc_InitialDelay c" using assms by (simp_all add: plain_config_def)
  then have "backoff_value (of_int (rc_InitialDelay c)) (f_of_int (rc_InitialDelay c))"
    by (simp add: f_of_int_small representable_int)
  then show ?thesis
    using assms i(2) by (auto simp: backoff_def plain_config_def intro!: multiply_loop_backoff)
qed

lemma capped_bounds:
  assumes "plain_config c m"
  shows "of_int (min (rc_InitialDelay c) (rc_MaxDelay c)) \<le> capped c (backoff c n)"
    and "capped c (backoff c n) \<le> of_int (rc_MaxDelay c)"
  using backoff_backoff_value [OF assms, of n] by (cases "backoff c n"; auto simp: capped_def)+

lemma capped_mono:
  assumes "plain_config c m"
  shows "capped c (backoff c n) \<le> capped c (backoff c (Suc n))"
proof -
  have s: "backoff c (Suc n) = f_mul (backoff c n) (Fin m)" and m: "1 \<le> m"
    using assms by (simp_all add: backoff_def plain_config_def multiply_loop_Suc del: multiply_loop.simps)
  note b = backoff_backoff_value [OF assms, of n]
  show ?thesis
  proof (cases "backoff c n")
    case (Fin x)
    with b have x: "representable x" "0 \<le> x" by simp_all
    with m have "x \<le> x * m" by (simp add: mult_le_cancel_left1)
    from fl_backoff [OF x this] Fin s show ?thesis
      by (cases "fl (x * m)") (auto simp: capped_def)
  qed (use b s m in \<open>simp_all add: capped_def inf_of_sign_def\<close>)
qed

lemma int64_small: "0 \<le> n \<Longrightarrow> n \<le> 4503599627370496 \<Longrightarrow> int64_range n"
  by (simp add: int64_defs)

text \<open>The delay of a configuration with its jitter switched off, and with jitter \<open>x\<close>.\<close>

definition plain_delay :: "(f64 \<Rightarrow> int) \<Rightarrow> retry_config \<Rightarrow> nat \<Rightarrow> duration" where
  "plain_delay unrep c n = calculateDelay unrep NaN n (c\<lparr>rc_Jitter := False\<rparr>)"

definition jittered_delay :: "(f64 \<Rightarrow> int) \<Rightarrow> rat \<Rightarrow> retry_config \<Rightarrow> nat \<Rightarrow> duration" where
  "jittered_delay unrep x c n = calculateDelay unrep (Fin x) n (c\<lparr>rc_Jitter := True\<rparr>)"

lemma calculateDelay_plain:
  assumes "plain_config c m"
  shows "plain_delay unrep c n = \<lfloor>capped c (backoff c n)\<rfloor>"
proof -
  let ?d = "capped c (backoff c n)"
  have "(0::rat) \<le> of_int (min (rc_InitialDelay c) (rc_MaxDelay c))"
    using assms by (simp add: plain_config_def)
  then have nonneg: "0 \<le> ?d" using capped_bounds(1) [OF assms, of n] by linarith
  have "\<lfloor>?d\<rfloor> \<le> rc_MaxDelay c"
    using capped_bounds(2) [OF assms, of n] by (simp add: floor_le_iff)
  moreover have "0 \<le> \<lfloor>?d\<rfloor>" using nonneg by simp
  moreover have "rc_MaxDelay c \<le> 2251799813685248" using assms by (simp add: plain_config_def)
  ultimately have "int64_range \<lfloor>?d\<rfloor>" by (intro int64_small) linarith+
  then have "f_to_int unrep (Fin ?d) = \<lfloor>?d\<rfloor>" using nonneg by (simp add: Let_def)
  moreover have "plain_delay unrep c n = f_to_int unrep
      (if f_less (f_of_int (rc_MaxDelay c)) (backoff c n) then f_of_int (rc_MaxDelay c) else backoff c n)"
    by (simp add: plain_delay_def calculateDelay_def Let_def backoff_def)
  ultimately show ?thesis by (simp only: capped_eq [OF assms backoff_backoff_value [OF assms]])
qed


lemma representable_half: "\<bar>n\<bar> \<le> 2 ^ 53 \<Longrightarrow> representable (of_int n / 2)"
  unfolding representable_def
  by (intro exI [of _ n] exI [of _ "-1"]) (simp add: power_int_minus)

lemma fl_between:
  assumes "representable a" and "representable b" and "a \<le> q" and "q \<le> b" and "- (2 ^ 1024) < a" and "b < 2 ^ 1024"
  obtains y where "fl q = Fin y" "a \<le> y" "y \<le> b"
proof -
  have "a \<le> rnd q" "rnd q \<le> b"
    using ieee.exact_le_round [OF assms(1,3)] ieee.round_le_exact [OF assms(2,4)] .
  with assms(5,6) show ?thesis by (intro that [of "rnd q"]) (simp_all add: fl_def Let_def)
qed

lemma small_less_huge: "\<bar>x\<bar> \<le> 2 ^ 53 \<Longrightarrow> - (2 ^ 1024) < x \<and> x < (2 ^ 1024 :: rat)"
proof -
  assume "\<bar>x\<bar> \<le> 2 ^ 53"
  moreover have "(2 ^ 53 :: rat) < 2 ^ 1024" by simp
  ultimately show ?thesis by linarith
qed

lemma jitter_range:
  assumes d: "0 \<le> d" "d \<le> 2 ^ 51" and x: "0 \<le> x" "x < 1"
  obtains y where "f_mul (f_of_int d) (f_add (Fin (1 / 2)) (Fin x)) = Fin y"
    "of_int d / 2 \<le> y" "y \<le> of_int (3 * d) / 2"
proof -
  have d2: "(of_int d :: rat) \<le> 2 ^ 51" using d(2) by (metis of_int_le_iff of_int_numeral of_int_power)
  obtain j where j: "fl (1 / 2 + x) = Fin j" "1 / 2 \<le> j" "j \<le> 3 / 2"
    using fl_between [of "1 / 2" "3 / 2" "1 / 2 + x"] representable_half [of 1] representable_half [of 3]
      small_less_huge [of "1 / 2"] small_less_huge [of "3 / 2"] x by auto
  have fd: "f_of_int d = Fin (of_int d)" using d by (intro f_of_int_small) simp
  have lo: "of_int d / 2 \<le> of_int d * j" and hi: "of_int d * j \<le> of_int (3 * d) / 2"
    using mult_left_mono [OF j(2), of "of_int d"] mult_left_mono [OF j(3), of "of_int d"] d(1) by simp_all
  have r: "representable (of_int d / 2)" "representable (of_int (3 * d) / 2)"
    using d by (intro representable_half; simp)+
  have "- (2 ^ 1024) < (of_int d / 2 :: rat)" "of_int (3 * d) / 2 < (2 ^ 1024 :: rat)"
    using small_less_huge [of "of_int d / 2"] small_less_huge [of "of_int (3 * d) / 2"] d(1) d2 by simp_all
  from fl_between [OF r lo hi this] obtain y where "fl (of_int d * j) = Fin y" "of_int d / 2 \<le> y" "y \<le> of_int (3 * d) / 2" .
  then show ?thesis by (intro that [of y]) (simp_all add: fd j(1))
qed



end
