(* ===== verification/Server_Command.thy ===== *)
theory Server_Command
  imports Server_Lifecycle
begin

section \<open>The server command (cmd/server/main.go)\<close>

text \<open>
  The process: flags, configuration, construction, start, and the stop on a signal. What it prints is
  left out. The result is the exit status and the server the process leaves behind; \<open>meanwhile\<close> is
  what the server's goroutines do between the start and the signal.
\<close>

record command_flags =
  cf_configPath :: string
  cf_showVersion :: bool
  cf_showHelp :: bool

record ('d, 'c, 'g, 'l) command_env =
  cm_viper :: "'d viper_lib"
  cm_stat :: "string \<Rightarrow> go_error option"
  cm_grpc :: "'g grpc_lib"
  cm_build :: "zap_config \<Rightarrow> 'l result"
  cm_generated :: "'c result"
  cm_loaded :: "'c result"
  cm_order :: "string list"
  cm_yamux_err :: "yamux \<Rightarrow> go_error option"
  cm_bindings :: bindings
  cm_meanwhile :: "('c, 'g) mesh_server \<Rightarrow> ('c, 'g) mesh_server"
  cm_closing :: "go_error option"

definition server_main :: "('d, 'c, 'g, 'l) command_env \<Rightarrow> command_flags \<Rightarrow> int \<times> ('c, 'g) mesh_server option" where
  "server_main env flags =
     (if cf_showHelp flags then (0, None)
      else if cf_showVersion flags then (0, None)
      else
        (case Load (cm_viper env) (cm_stat env) (cf_configPath flags) of
           Inl err \<Rightarrow> (1, None)
         | Inr cfg \<Rightarrow>
             (case fst (server_New (cm_grpc env) (cm_build env) (cm_generated env) (cm_loaded env) (cm_order env)
                     (cm_yamux_err env) cfg None) of
                Inl err \<Rightarrow> (1, None)
              | Inr srv \<Rightarrow>
                  (case server_Start (cm_bindings env) srv of
                     (Some err, srv1) \<Rightarrow> (1, Some srv1)
                   | (None, srv1) \<Rightarrow> (0, Some (server_Stop (cm_grpc env) (cm_closing env) (cm_meanwhile env srv1)))))))"

lemma new_server_starts_iff:
  assumes "fst (server_New lib build generated loaded order yerr cfg None) = Inr srv"
  shows "fst (server_Start bd srv) = None \<longleftrightarrow>
    (\<exists>m t g. bd_metrics bd = Inr m \<and> bd_tunnel bd = Inr t \<and> bd_grpc bd = Inr g)"
proof -
  have "me_server (sv_metrics srv) = None"
    using assms by (auto simp: server_New_def NewExporter_def Let_def split: prod.splits option.splits sum.splits)
  then show ?thesis
    by (auto simp: server_Start_def Exporter_Start_def tunnel_start_def tunnel_Listen_def
        split: prod.splits option.splits sum.splits if_splits)
qed

text \<open>
  The exit status tells how far the process came: zero means that it was only asked about itself, or
  that it loaded a usable configuration, bound all three addresses and was stopped by a signal.
\<close>

lemma exit_zero_iff:
  "fst (server_main env flags) = 0 \<longleftrightarrow>
     cf_showHelp flags \<or> cf_showVersion flags \<or>
     (\<exists>cfg srv. Load (cm_viper env) (cm_stat env) (cf_configPath flags) = Inr cfg \<and>
        fst (server_New (cm_grpc env) (cm_build env) (cm_generated env) (cm_loaded env) (cm_order env)
          (cm_yamux_err env) cfg None) = Inr srv \<and>
        (\<exists>m t g. bd_metrics (cm_bindings env) = Inr m \<and> bd_tunnel (cm_bindings env) = Inr t \<and>
           bd_grpc (cm_bindings env) = Inr g))"
proof -
  have "fst (server_main env flags) = 0 \<longleftrightarrow>
     cf_showHelp flags \<or> cf_showVersion flags \<or>
     (\<exists>cfg srv. Load (cm_viper env) (cm_stat env) (cf_configPath flags) = Inr cfg \<and>
        fst (server_New (cm_grpc env) (cm_build env) (cm_generated env) (cm_loaded env) (cm_order env)
          (cm_yamux_err env) cfg None) = Inr srv \<and> fst (server_Start (cm_bindings env) srv) = None)"
    by (auto simp: server_main_def split: sum.splits prod.splits option.splits)
  then show ?thesis by (simp add: new_server_starts_iff cong: conj_cong)
qed

end
