(* ===== verification/Method_Registry.thy ===== *)
theory Method_Registry
  imports Session_Registry Acl Go_Float
begin

section \<open>The method registry (pkg/registry/method_registry.go)\<close>

text \<open>
  Which peer offers which methods: a catalog per peer, and a reverse index from a method's name to
  the peers that offer it, which every update has to keep in step. Slices are values, since no
  slice of the registry's own is handed out; the slice an update is called with is taken over, on
  the understanding that the caller does not write to it afterwards. A slice element is a pointer:
  \<open>None\<close> is \<^verbatim>\<open>nil\<close>, whose \<^verbatim>\<open>Name\<close> cannot be read.
\<close>

record method_descriptor =
  md_Name :: string
  md_Description :: string
  md_Tags :: "string list"
  md_Extra :: "string \<rightharpoonup> string"

type_synonym methods = "method_descriptor option list"

record catalog =
  pc_PeerID :: peer_id
  pc_Methods :: methods
  pc_Version :: "64 word"
  pc_UpdatedAt :: instant

type_synonym reverse_index = "string \<rightharpoonup> peer_id list"

record method_registry =
  mr_peerMethods :: "peer_id \<rightharpoonup> catalog"
  mr_methodPeers :: reverse_index

record method_stats =
  ms_TotalPeers :: int
  ms_TotalMethods :: int
  ms_AverageMethods :: f64
  ms_LastUpdate :: "instant option"

definition NewMethodRegistry :: method_registry where
  "NewMethodRegistry = \<lparr>mr_peerMethods = Map.empty, mr_methodPeers = Map.empty\<rparr>"

subsection \<open>The reverse index\<close>

definition addToIndex :: "string \<Rightarrow> peer_id \<Rightarrow> reverse_index \<Rightarrow> reverse_index" where
  "addToIndex methodName peerID ix =
     (let peers = map_get [] ix methodName in
      if \<exists>p \<in> set peers. p = peerID then ix else ix(methodName \<mapsto> peers @ [peerID]))"

fun cut_first :: "peer_id \<Rightarrow> peer_id list \<Rightarrow> peer_id list option" where
  "cut_first peerID [] = None"
| "cut_first peerID (p # ps) = (if p = peerID then Some ps else map_option (Cons p) (cut_first peerID ps))"

definition removeFromIndex :: "string \<Rightarrow> peer_id \<Rightarrow> reverse_index \<Rightarrow> reverse_index" where
  "removeFromIndex methodName peerID ix =
     (let ix1 = (case cut_first peerID (map_get [] ix methodName) of
                   None \<Rightarrow> ix
                 | Some peers \<Rightarrow> ix(methodName \<mapsto> peers))
      in if length (map_get [] ix1 methodName) = 0 then ix1(methodName := None) else ix1)"

definition nil_panic :: string where
  "nil_panic = ''invalid memory address or nil pointer dereference''"

text \<open>The loops of an update over the old and the new descriptors.\<close>

fun each_name ::
  "(string \<Rightarrow> reverse_index \<Rightarrow> reverse_index) \<Rightarrow> methods \<Rightarrow> reverse_index \<Rightarrow> reverse_index outcome" where
  "each_name f [] ix = Return ix"
| "each_name f (None # ms) ix = Panic nil_panic"
| "each_name f (Some d # ms) ix = each_name f ms (f (md_Name d) ix)"

subsection \<open>Operations\<close>

text \<open>\<open>unix\<close> is the wall clock in seconds, \<open>now\<close> the clock in nanoseconds.\<close>

definition UpdateMethods ::
  "instant \<Rightarrow> int \<Rightarrow> peer_id \<Rightarrow> methods \<Rightarrow> method_registry \<Rightarrow> (64 word \<times> method_registry) outcome" where
  "UpdateMethods now unix peerID methods mr =
     bind_outcome
       (case mr_peerMethods mr peerID of
          None \<Rightarrow> Return (mr_methodPeers mr)
        | Some old \<Rightarrow> each_name (\<lambda>m. removeFromIndex m peerID) (pc_Methods old) (mr_methodPeers mr))
       (\<lambda>ix.
          let version = word_of_int unix;
              cat = \<lparr>pc_PeerID = peerID, pc_Methods = methods, pc_Version = version, pc_UpdatedAt = now\<rparr>
          in bind_outcome (each_name (\<lambda>m. addToIndex m peerID) methods ix) (\<lambda>ix1.
               Return (version,
                 \<lparr>mr_peerMethods = (mr_peerMethods mr)(peerID \<mapsto> cat), mr_methodPeers = ix1\<rparr>)))"

definition GetPeerMethods :: "peer_id \<Rightarrow> method_registry \<Rightarrow> methods option" where
  "GetPeerMethods peerID mr = map_option pc_Methods (mr_peerMethods mr peerID)"

fun method_loop :: "string \<Rightarrow> methods \<Rightarrow> method_descriptor option outcome" where
  "method_loop name [] = Return None"
| "method_loop name (None # ms) = Panic nil_panic"
| "method_loop name (Some d # ms) = (if md_Name d = name then Return (Some d) else method_loop name ms)"

definition GetMethod :: "peer_id \<Rightarrow> string \<Rightarrow> method_registry \<Rightarrow> method_descriptor option outcome" where
  "GetMethod peerID methodName mr =
     (case GetPeerMethods peerID mr of None \<Rightarrow> Return None | Some methods \<Rightarrow> method_loop methodName methods)"

definition FindPeersWithMethod :: "string \<Rightarrow> method_registry \<Rightarrow> peer_id list option" where
  "FindPeersWithMethod methodName mr = mr_methodPeers mr methodName"

definition mr_matchPattern :: "string \<Rightarrow> string \<Rightarrow> bool" where
  "mr_matchPattern name pattern =
     (if pattern = ''*'' then True
      else if \<not> Contains pattern ''*'' then name = pattern
      else if HasPrefix pattern ''*'' \<and> HasSuffix pattern ''*'' then
        (let substr = Trim pattern CHR ''*'' in Contains name substr)
      else if HasPrefix pattern ''*'' then
        (let suffix = TrimPrefix pattern ''*'' in HasSuffix name suffix)
      else if HasSuffix pattern ''*'' then
        (let prefix = TrimSuffix pattern ''*'' in HasPrefix name prefix)
      else False)"

fun matching :: "string \<Rightarrow> methods \<Rightarrow> methods outcome" where
  "matching pattern [] = Return []"
| "matching pattern (None # ms) = Panic nil_panic"
| "matching pattern (Some d # ms) =
     bind_outcome (matching pattern ms) (\<lambda>rest.
       Return (if mr_matchPattern (md_Name d) pattern then Some d # rest else rest))"

text \<open>\<open>order\<close> is the order of the range loop over the catalogs.\<close>

fun FindMethods_loop ::
  "string \<Rightarrow> peer_id list \<Rightarrow> method_registry \<Rightarrow> (peer_id \<rightharpoonup> methods) \<Rightarrow> (peer_id \<rightharpoonup> methods) outcome" where
  "FindMethods_loop pattern [] mr result = Return result"
| "FindMethods_loop pattern (p # ps) mr result =
     (case mr_peerMethods mr p of
        None \<Rightarrow> FindMethods_loop pattern ps mr result
      | Some cat \<Rightarrow>
          bind_outcome (matching pattern (pc_Methods cat)) (\<lambda>matched.
            FindMethods_loop pattern ps mr
              (if length matched > 0 then result(p \<mapsto> matched) else result)))"

definition FindMethods ::
  "string \<Rightarrow> peer_id list \<Rightarrow> method_registry \<Rightarrow> (peer_id \<rightharpoonup> methods) outcome" where
  "FindMethods pattern order mr = FindMethods_loop pattern order mr Map.empty"

fun GetCatalog_loop :: "peer_id list \<Rightarrow> method_registry \<Rightarrow> (peer_id \<rightharpoonup> methods) \<Rightarrow> (peer_id \<rightharpoonup> methods)" where
  "GetCatalog_loop [] mr result = result"
| "GetCatalog_loop (p # ps) mr result =
     (case mr_peerMethods mr p of
        None \<Rightarrow> GetCatalog_loop ps mr result
      | Some cat \<Rightarrow> GetCatalog_loop ps mr (result(p \<mapsto> pc_Methods cat)))"

definition GetCatalog :: "peer_id list \<Rightarrow> method_registry \<Rightarrow> (peer_id \<rightharpoonup> methods)" where
  "GetCatalog order mr = GetCatalog_loop order mr Map.empty"

definition RemovePeer :: "peer_id \<Rightarrow> method_registry \<Rightarrow> method_registry outcome" where
  "RemovePeer peerID mr =
     (case mr_peerMethods mr peerID of
        None \<Rightarrow> Return mr
      | Some cat \<Rightarrow>
          bind_outcome (each_name (\<lambda>m. removeFromIndex m peerID) (pc_Methods cat) (mr_methodPeers mr)) (\<lambda>ix.
            Return \<lparr>mr_peerMethods = (mr_peerMethods mr)(peerID := None), mr_methodPeers = ix\<rparr>))"

text \<open>The zero \<^verbatim>\<open>time.Time\<close>, before every reading of a clock, is \<open>None\<close>.\<close>

fun MethodStats_loop :: "peer_id list \<Rightarrow> method_registry \<Rightarrow> int \<times> instant option \<Rightarrow> int \<times> instant option" where
  "MethodStats_loop [] mr acc = acc"
| "MethodStats_loop (p # ps) mr (totalMethods, lastUpdate) =
     (case mr_peerMethods mr p of
        None \<Rightarrow> MethodStats_loop ps mr (totalMethods, lastUpdate)
      | Some cat \<Rightarrow>
          MethodStats_loop ps mr
            (totalMethods + int (length (pc_Methods cat)),
             case lastUpdate of
               None \<Rightarrow> Some (pc_UpdatedAt cat)
             | Some t \<Rightarrow> if pc_UpdatedAt cat > t then Some (pc_UpdatedAt cat) else lastUpdate))"

definition MethodRegistry_Stats :: "peer_id list \<Rightarrow> method_registry \<Rightarrow> method_stats" where
  "MethodRegistry_Stats order mr =
     (let (totalMethods, lastUpdate) = MethodStats_loop order mr (0, None);
          n = int (map_len (mr_peerMethods mr));
          avg = (if n > 0 then f_div (f_of_int totalMethods) (f_of_int n) else Fin 0)
      in \<lparr>ms_TotalPeers = n, ms_TotalMethods = totalMethods, ms_AverageMethods = avg,
          ms_LastUpdate = lastUpdate\<rparr>)"

subsection \<open>Effects on the index\<close>

abbreviation providers :: "reverse_index \<Rightarrow> string \<Rightarrow> peer_id list" where
  "providers \<equiv> map_get []"

lemma cut_first_remove1: "cut_first p ps = (if p \<in> set ps then Some (remove1 p ps) else None)"
  by (induction ps) auto

lemma providers_add:
  "providers (addToIndex m p ix) m' =
     (if m' = m \<and> p \<notin> set (providers ix m) then providers ix m @ [p] else providers ix m')"
  by (auto simp: addToIndex_def map_get_def Let_def split: option.splits)

lemma providers_remove:
  "providers (removeFromIndex m p ix) m' = (if m' = m then remove1 p (providers ix m) else providers ix m')"
  by (auto simp: removeFromIndex_def cut_first_remove1 map_get_def Let_def remove1_idem split: option.splits)

definition index_tidy :: "reverse_index \<Rightarrow> bool" where
  "index_tidy ix \<longleftrightarrow> (\<forall>m. distinct (providers ix m) \<and> ix m \<noteq> Some [])"

lemma tidy_empty: "index_tidy Map.empty"
  by (simp add: index_tidy_def map_get_def)

lemma tidy_add [keeps]: "index_tidy ix \<Longrightarrow> index_tidy (addToIndex m p ix)"
  unfolding index_tidy_def providers_add by (auto simp: addToIndex_def Let_def)

lemma tidy_remove [keeps]: "index_tidy ix \<Longrightarrow> index_tidy (removeFromIndex m p ix)"
  unfolding index_tidy_def providers_remove
  by (auto simp: removeFromIndex_def map_get_def Let_def split: option.splits)

definition names_of :: "methods \<Rightarrow> string set" where
  "names_of ms = {md_Name d | d. Some d \<in> set ms}"

lemma names_of_simps [simp]:
  "names_of [] = {}" "names_of (Some d # ms) = insert (md_Name d) (names_of ms)"
  by (auto simp: names_of_def)

lemma each_name_returns_iff: "(\<exists>ix'. each_name f ms ix = Return ix') \<longleftrightarrow> None \<notin> set ms"
  by (induction f ms ix rule: each_name.induct) auto

lemma index_added:
  assumes "each_name (\<lambda>m. addToIndex m p) ms ix = Return ix'" and "index_tidy ix"
  shows "index_tidy ix' \<and>
    set (providers ix' m) = set (providers ix m) \<union> (if m \<in> names_of ms then {p} else {})"
  using assms
proof (induction "\<lambda>m. addToIndex m p" ms ix rule: each_name.induct)
  case (3 d ms ix)
  then show ?case using tidy_add by (auto simp: providers_add)
qed auto

lemma index_removed:
  assumes "each_name (\<lambda>m. removeFromIndex m p) ms ix = Return ix'" and "index_tidy ix"
  shows "index_tidy ix' \<and>
    set (providers ix' m) = set (providers ix m) - (if m \<in> names_of ms then {p} else {})"
  using assms
proof (induction "\<lambda>m. removeFromIndex m p" ms ix rule: each_name.induct)
  case (3 d ms ix)
  moreover have "distinct (providers ix m)" for m using 3(3) by (simp add: index_tidy_def)
  ultimately show ?case using tidy_remove by (auto simp: providers_remove)
qed auto

subsection \<open>The invariant\<close>

text \<open>
  The index says of every name exactly the peers in whose catalog it is; no catalog holds a
  \<^verbatim>\<open>nil\<close> descriptor, since the update that would have stored it panics.
\<close>

definition offers :: "method_registry \<Rightarrow> peer_id \<Rightarrow> string \<Rightarrow> bool" where
  "offers mr p m \<longleftrightarrow> (\<exists>cat. mr_peerMethods mr p = Some cat \<and> m \<in> names_of (pc_Methods cat))"

lemma offers_iff: "offers mr p m \<longleftrightarrow> (\<exists>ms. GetPeerMethods p mr = Some ms \<and> m \<in> names_of ms)"
  by (auto simp: offers_def GetPeerMethods_def)

definition mr_wf :: "method_registry \<Rightarrow> bool" where
  "mr_wf mr \<longleftrightarrow> index_tidy (mr_methodPeers mr) \<and>
     (\<forall>m. set (providers (mr_methodPeers mr) m) = {p. offers mr p m}) \<and>
     (\<forall>p cat. mr_peerMethods mr p = Some cat \<longrightarrow> None \<notin> set (pc_Methods cat)) \<and>
     finite (dom (mr_peerMethods mr))"

lemma mr_wfD:
  assumes "mr_wf mr"
  shows "index_tidy (mr_methodPeers mr)"
    and "set (providers (mr_methodPeers mr) m) = {p. offers mr p m}"
    and "mr_peerMethods mr p = Some cat \<Longrightarrow> None \<notin> set (pc_Methods cat)"
    and "finite (dom (mr_peerMethods mr))"
  using assms by (auto simp: mr_wf_def)

lemma mr_wf_New [keeps]: "mr_wf NewMethodRegistry"
  by (simp add: mr_wf_def NewMethodRegistry_def tidy_empty offers_def map_get_def)

text \<open>Taking a peer's old catalog out of the index always works.\<close>

lemma unindexed:
  assumes "mr_wf mr" and "mr_peerMethods mr p = Some cat"
  obtains ix where "each_name (\<lambda>m. removeFromIndex m p) (pc_Methods cat) (mr_methodPeers mr) = Return ix"
    and "index_tidy ix" and "\<And>m. set (providers ix m) = {q. q \<noteq> p \<and> offers mr q m}"
proof -
  obtain ix where ix: "each_name (\<lambda>m. removeFromIndex m p) (pc_Methods cat) (mr_methodPeers mr) = Return ix"
    using each_name_returns_iff mr_wfD(3) [OF assms] by blast
  show ?thesis
  proof (rule that [OF ix])
    show "index_tidy ix" using index_removed [OF ix mr_wfD(1) [OF assms(1)]] by blast
    fix m
    have "p \<in> {q. offers mr q m} \<longleftrightarrow> m \<in> names_of (pc_Methods cat)"
      using assms(2) by (simp add: offers_def)
    then show "set (providers ix m) = {q. q \<noteq> p \<and> offers mr q m}"
      using index_removed [OF ix mr_wfD(1) [OF assms(1)], of m] mr_wfD(2) [OF assms(1), of m] by auto
  qed
qed

lemma RemovePeer_spec:
  assumes "mr_wf mr"
  obtains mr' where "RemovePeer p mr = Return mr'" and "mr_wf mr'"
    and "mr_peerMethods mr' = (mr_peerMethods mr)(p := None)"
proof (cases "mr_peerMethods mr p")
  case None
  then show ?thesis using assms by (intro that [of mr]) (auto simp: RemovePeer_def)
next
  case (Some cat)
  obtain ix where ix: "each_name (\<lambda>m. removeFromIndex m p) (pc_Methods cat) (mr_methodPeers mr) = Return ix"
    "index_tidy ix" "\<And>m. set (providers ix m) = {q. q \<noteq> p \<and> offers mr q m}"
    by (rule unindexed [OF assms Some]) blast
  let ?mr = "\<lparr>mr_peerMethods = (mr_peerMethods mr)(p := None), mr_methodPeers = ix\<rparr>"
  have "offers ?mr q m \<longleftrightarrow> q \<noteq> p \<and> offers mr q m" for q m by (simp add: offers_def)
  then have "mr_wf ?mr" using ix(2,3) mr_wfD(3,4) [OF assms] by (auto simp: mr_wf_def)
  then show ?thesis using ix(1) Some by (intro that [of ?mr]) (simp_all add: RemovePeer_def)
qed

lemma UpdateMethods_spec:
  assumes "mr_wf mr" and "None \<notin> set methods"
  obtains mr' where "UpdateMethods now unix p methods mr = Return (word_of_int unix, mr')" and "mr_wf mr'"
    and "mr_peerMethods mr' = (mr_peerMethods mr)
      (p \<mapsto> \<lparr>pc_PeerID = p, pc_Methods = methods, pc_Version = word_of_int unix, pc_UpdatedAt = now\<rparr>)"
proof -
  let ?cat = "\<lparr>pc_PeerID = p, pc_Methods = methods, pc_Version = word_of_int unix, pc_UpdatedAt = now\<rparr>"
  obtain ix where ix: "(case mr_peerMethods mr p of
          None \<Rightarrow> Return (mr_methodPeers mr)
        | Some old \<Rightarrow> each_name (\<lambda>m. removeFromIndex m p) (pc_Methods old) (mr_methodPeers mr)) = Return ix"
    "index_tidy ix" "\<And>m. set (providers ix m) = {q. q \<noteq> p \<and> offers mr q m}"
  proof (cases "mr_peerMethods mr p")
    case None
    then have "\<not> offers mr p m" for m by (simp add: offers_def)
    then show ?thesis
      using None mr_wfD(1,2) [OF assms(1)] by (intro that [of "mr_methodPeers mr"]) auto
  next
    case (Some cat)
    obtain ix where "each_name (\<lambda>m. removeFromIndex m p) (pc_Methods cat) (mr_methodPeers mr) = Return ix"
      "index_tidy ix" "\<And>m. set (providers ix m) = {q. q \<noteq> p \<and> offers mr q m}"
      by (rule unindexed [OF assms(1) Some]) blast
    then show ?thesis using Some by (intro that [of ix]) simp_all
  qed
  obtain ix1 where ix1: "each_name (\<lambda>m. addToIndex m p) methods ix = Return ix1"
    using each_name_returns_iff assms(2) by blast
  let ?mr = "\<lparr>mr_peerMethods = (mr_peerMethods mr)(p \<mapsto> ?cat), mr_methodPeers = ix1\<rparr>"
  have "offers ?mr q m \<longleftrightarrow> (if q = p then m \<in> names_of methods else offers mr q m)" for q m
    by (simp add: offers_def)
  then have "mr_wf ?mr"
    using index_added [OF ix1 ix(2)] ix(3) assms(2) mr_wfD(3,4) [OF assms(1)] by (auto simp: mr_wf_def)
  then show ?thesis
    using ix(1) ix1 by (intro that [of ?mr]) (simp_all add: UpdateMethods_def Let_def outcome_simps)
qed

lemma UpdateMethods_nil_panics:
  assumes "None \<in> set methods"
  shows "\<exists>m. UpdateMethods now unix p methods mr = Panic m"
proof -
  have "each_name f methods ix \<noteq> Return ix'" for f ix ix'
    using assms each_name_returns_iff [of f methods ix] by blast
  then show ?thesis
    by (cases "UpdateMethods now unix p methods mr") (auto simp: UpdateMethods_def Let_def outcome_simps)
qed

lemma Update_steps_wf [keeps]:
  assumes "mr_wf mr" and "UpdateMethods now unix p methods mr = Return (v, mr')"
  shows "mr_wf mr'"
proof (cases "None \<in> set methods")
  case True
  with UpdateMethods_nil_panics assms(2) show ?thesis by (metis outcome.distinct(1))
next
  case False
  from UpdateMethods_spec [OF assms(1) this] obtain mr'' where
    "UpdateMethods now unix p methods mr = Return (word_of_int unix, mr'')" "mr_wf mr''" by metis
  with assms(2) show ?thesis by simp
qed

lemma Remove_steps_wf [keeps]: "mr_wf mr \<Longrightarrow> RemovePeer p mr = Return mr' \<Longrightarrow> mr_wf mr'"
  by (metis RemovePeer_spec outcome.inject(1))

subsection \<open>Reading\<close>

lemma method_loop_finds:
  "None \<notin> set ms \<Longrightarrow> \<exists>r. method_loop m ms = Return r \<and> (r \<noteq> None \<longleftrightarrow> m \<in> names_of ms)"
  by (induction m ms rule: method_loop.induct) auto

lemma method_loop_result: "method_loop m ms = Return (Some d) \<Longrightarrow> md_Name d = m \<and> Some d \<in> set ms"
  by (induction m ms rule: method_loop.induct) (auto split: if_splits)

lemma GetMethod_finds:
  assumes "mr_wf mr"
  shows "\<exists>r. GetMethod p m mr = Return r \<and> (r \<noteq> None \<longleftrightarrow> offers mr p m)"
proof (cases "mr_peerMethods mr p")
  case None
  then show ?thesis by (simp add: GetMethod_def GetPeerMethods_def offers_def)
next
  case (Some cat)
  with mr_wfD(3) [OF assms] have "None \<notin> set (pc_Methods cat)" by blast
  from method_loop_finds [OF this, of m] Some show ?thesis
    by (auto simp: GetMethod_def GetPeerMethods_def offers_def)
qed

lemma matching_filter:
  "None \<notin> set ms \<Longrightarrow>
     matching pat ms = Return (filter (\<lambda>d. mr_matchPattern (md_Name (the d)) pat) ms)"
  by (induction pat ms rule: matching.induct) auto

lemma mr_matchPattern_eq: "mr_matchPattern = matchPattern"
  by (intro ext) (simp add: mr_matchPattern_def matchPattern_def)

lemma FindPeers_spec:
  assumes "mr_wf mr"
  shows "(case FindPeersWithMethod m mr of
            None \<Rightarrow> \<forall>p. \<not> offers mr p m
          | Some ps \<Rightarrow> ps \<noteq> [] \<and> distinct ps \<and> (\<forall>p. p \<in> set ps \<longleftrightarrow> offers mr p m))"
proof -
  have d: "distinct (providers (mr_methodPeers mr) m)" "mr_methodPeers mr m \<noteq> Some []"
    using mr_wfD(1) [OF assms] by (simp_all add: index_tidy_def)
  have o: "p \<in> set (providers (mr_methodPeers mr) m) \<longleftrightarrow> offers mr p m" for p
    using mr_wfD(2) [OF assms] by simp
  show ?thesis
    using d o by (cases "mr_methodPeers mr m") (auto simp: FindPeersWithMethod_def map_get_def)
qed

lemma FindMethods_loop_spec:
  assumes "mr_wf mr"
  shows "FindMethods_loop pat ps mr res = Return (\<lambda>p.
     if p \<in> set ps then
       (case mr_peerMethods mr p of
          None \<Rightarrow> res p
        | Some cat \<Rightarrow>
            let ms = filter (\<lambda>d. matchPattern (md_Name (the d)) pat) (pc_Methods cat)
            in if ms = [] then res p else Some ms)
     else res p)"
proof (induction ps arbitrary: res)
  case (Cons q ps)
  show ?case
  proof (cases "mr_peerMethods mr q")
    case None
    then show ?thesis using Cons by (auto simp: fun_eq_iff)
  next
    case (Some cat)
    with mr_wfD(3) [OF assms] have "None \<notin> set (pc_Methods cat)" by blast
    with Some Cons show ?thesis
      by (auto simp: matching_filter mr_matchPattern_eq Let_def fun_eq_iff split: option.splits)
  qed
qed simp

lemma FindMethods_spec:
  assumes "mr_wf mr" and "go_range order (mr_peerMethods mr)"
  shows "\<exists>res. FindMethods pat order mr = Return res \<and>
    (\<forall>p. res p =
      (case mr_peerMethods mr p of
         None \<Rightarrow> None
       | Some cat \<Rightarrow>
           let ms = filter (\<lambda>d. matchPattern (md_Name (the d)) pat) (pc_Methods cat)
           in if ms = [] then None else Some ms))"
  using assms(2) by (auto simp: FindMethods_def FindMethods_loop_spec [OF assms(1)] go_range_def Let_def split: option.splits)

lemma GetCatalog_loop_eq:
  "GetCatalog_loop ps mr res p =
     (if p \<in> set ps \<and> mr_peerMethods mr p \<noteq> None then map_option pc_Methods (mr_peerMethods mr p) else res p)"
  by (induction ps arbitrary: res) (auto split: option.splits)

lemma GetCatalog_spec:
  "go_range order (mr_peerMethods mr) \<Longrightarrow> GetCatalog order mr p = GetPeerMethods p mr"
  by (auto simp: GetCatalog_def GetCatalog_loop_eq GetPeerMethods_def go_range_def)

lemma MethodStats_total:
  "fst (MethodStats_loop ps mr (n, t)) =
     n + (\<Sum>p\<leftarrow>ps. case mr_peerMethods mr p of None \<Rightarrow> 0 | Some cat \<Rightarrow> int (length (pc_Methods cat)))"
  by (induction ps arbitrary: n t) (auto split: option.splits)

subsection \<open>The index as an interface\<close>

text \<open>
  What the users of the registry rely on: the index answers with exactly the peers that offer a
  method, each once, and an update or removal concerns one peer.
\<close>

locale method_directory =
  fixes offering :: "'s \<Rightarrow> peer_id \<Rightarrow> string \<Rightarrow> bool"
    and find_peers :: "string \<Rightarrow> 's \<Rightarrow> peer_id list option"
    and drop_peer :: "peer_id \<Rightarrow> 's \<Rightarrow> 's outcome"
    and inv :: "'s \<Rightarrow> bool"
  assumes find_law: "inv s \<Longrightarrow>
      (case find_peers m s of
         None \<Rightarrow> \<forall>p. \<not> offering s p m
       | Some ps \<Rightarrow> ps \<noteq> [] \<and> distinct ps \<and> (\<forall>p. p \<in> set ps \<longleftrightarrow> offering s p m))"
    and drop_law: "inv s \<Longrightarrow> \<exists>s'. drop_peer p s = Return s' \<and> inv s' \<and>
      (\<forall>q m. offering s' q m \<longleftrightarrow> q \<noteq> p \<and> offering s q m)"
begin

definition found :: "string \<Rightarrow> 's \<Rightarrow> peer_id list" where
  "found m s = (case find_peers m s of None \<Rightarrow> [] | Some ps \<Rightarrow> ps)"

lemma found_iff: "inv s \<Longrightarrow> p \<in> set (found m s) \<longleftrightarrow> offering s p m"
  using find_law [of s m] by (auto simp: found_def split: option.splits)

lemma found_distinct: "inv s \<Longrightarrow> distinct (found m s)"
  using find_law [of s m] by (auto simp: found_def split: option.splits)

lemma dropped_is_not_found:
  assumes "inv s" and "drop_peer p s = Return s'"
  shows "p \<notin> set (found m s') \<and> (\<forall>q. q \<noteq> p \<longrightarrow> (q \<in> set (found m s') \<longleftrightarrow> q \<in> set (found m s)))"
proof -
  obtain s'' where "drop_peer p s = Return s''" "inv s''"
    "\<forall>q m. offering s'' q m \<longleftrightarrow> q \<noteq> p \<and> offering s q m"
    using drop_law [OF assms(1)] by blast
  then show ?thesis using assms by (simp add: found_iff)
qed

end

interpretation methods: method_directory offers FindPeersWithMethod RemovePeer mr_wf
proof unfold_locales
  fix s :: method_registry and m p
  assume wf: "mr_wf s"
  show "case FindPeersWithMethod m s of None \<Rightarrow> \<forall>p. \<not> offers s p m
    | Some ps \<Rightarrow> ps \<noteq> [] \<and> distinct ps \<and> (\<forall>p. p \<in> set ps \<longleftrightarrow> offers s p m)"
    by (rule FindPeers_spec [OF wf])
  obtain s' where "RemovePeer p s = Return s'" "mr_wf s'" "mr_peerMethods s' = (mr_peerMethods s)(p := None)"
    by (rule RemovePeer_spec [OF wf])
  then show "\<exists>s'. RemovePeer p s = Return s' \<and> mr_wf s' \<and> (\<forall>q m. offers s' q m \<longleftrightarrow> q \<noteq> p \<and> offers s q m)"
    by (intro exI [of _ s']) (simp add: offers_def)
qed

subsection \<open>Any sequence of updates\<close>

datatype mr_op = Update instant int peer_id methods | Forget peer_id

fun mr_step :: "mr_op \<Rightarrow> method_registry \<Rightarrow> method_registry outcome" where
  "mr_step (Update now unix p methods) mr =
     bind_outcome (UpdateMethods now unix p methods mr) (\<lambda>(v, mr'). Return mr')"
| "mr_step (Forget p) mr = RemovePeer p mr"

fun mr_run :: "mr_op list \<Rightarrow> method_registry \<Rightarrow> method_registry outcome" where
  "mr_run [] mr = Return mr"
| "mr_run (c # cs) mr = bind_outcome (mr_step c mr) (mr_run cs)"

fun well_made :: "mr_op \<Rightarrow> bool" where
  "well_made (Update now unix p methods) = (None \<notin> set methods)"
| "well_made (Forget p) = True"

text \<open>What the sequence says a peer offers: what its last update listed, if it was not removed since.\<close>

fun last_word :: "mr_op list \<Rightarrow> peer_id \<Rightarrow> methods option \<Rightarrow> methods option" where
  "last_word [] p said = said"
| "last_word (Update now unix q methods # cs) p said = last_word cs p (if q = p then Some methods else said)"
| "last_word (Forget q # cs) p said = last_word cs p (if q = p then None else said)"

lemma mr_run_spec:
  assumes "mr_wf mr" and "list_all well_made cs"
  shows "\<exists>mr'. mr_run cs mr = Return mr' \<and> mr_wf mr' \<and>
    (\<forall>p. GetPeerMethods p mr' = last_word cs p (GetPeerMethods p mr))"
  using assms
proof (induction cs arbitrary: mr)
  case (Cons c cs)
  obtain mr1 where mr1: "mr_step c mr = Return mr1" "mr_wf mr1"
    "\<forall>p. GetPeerMethods p mr1 = last_word [c] p (GetPeerMethods p mr)"
  proof (cases c)
    case (Update now unix q ms)
    with Cons.prems have "None \<notin> set ms" by simp
    from UpdateMethods_spec [OF Cons.prems(1) this] obtain mr1 where
      "UpdateMethods now unix q ms mr = Return (word_of_int unix, mr1)" "mr_wf mr1"
      "mr_peerMethods mr1 = (mr_peerMethods mr)
        (q \<mapsto> \<lparr>pc_PeerID = q, pc_Methods = ms, pc_Version = word_of_int unix, pc_UpdatedAt = now\<rparr>)" by metis
    then show ?thesis by (intro that [of mr1]) (simp_all add: Update GetPeerMethods_def)
  next
    case (Forget q)
    from RemovePeer_spec [OF Cons.prems(1)] obtain mr1 where
      "RemovePeer q mr = Return mr1" "mr_wf mr1" "mr_peerMethods mr1 = (mr_peerMethods mr)(q := None)" by metis
    then show ?thesis by (intro that [of mr1]) (simp_all add: Forget GetPeerMethods_def)
  qed
  have "last_word (c # cs) p said = last_word cs p (last_word [c] p said)" for p said by (cases c) simp_all
  with Cons.IH [OF mr1(2)] Cons.prems(2) mr1(1,3) show ?case by auto
qed simp

subsection \<open>Properties\<close>

text \<open>
  C15. The reverse index never gets out of step with the catalogs: after any sequence of updates and
  removals, with lists that may repeat names, a look-up of a method returns, each once, exactly the
  peers whose last list, if they were not removed since, has the method; these are also the peers
  for which \<^verbatim>\<open>GetMethod\<close> finds it. There is no answer exactly when there is no such peer.
\<close>

theorem FindPeersWithMethod_agrees_with_catalogs:
  assumes "list_all well_made cs"
  shows "\<exists>mr. mr_run cs NewMethodRegistry = Return mr \<and>
    distinct (methods.found m mr) \<and>
    (\<forall>p. p \<in> set (methods.found m mr) \<longleftrightarrow>
       (\<exists>ms. last_word cs p None = Some ms \<and> m \<in> names_of ms)) \<and>
    (\<forall>p. p \<in> set (methods.found m mr) \<longleftrightarrow> (\<exists>d. GetMethod p m mr = Return (Some d))) \<and>
    (FindPeersWithMethod m mr = None \<longleftrightarrow> methods.found m mr = [])"
proof -
  obtain mr where mr: "mr_run cs NewMethodRegistry = Return mr" "mr_wf mr"
    "\<forall>p. GetPeerMethods p mr = last_word cs p None"
    using mr_run_spec [OF mr_wf_New assms] by (auto simp: GetPeerMethods_def NewMethodRegistry_def)
  have "offers mr p m \<longleftrightarrow> (\<exists>ms. last_word cs p None = Some ms \<and> m \<in> names_of ms)" for p
    using mr(3) by (simp add: offers_iff)
  moreover have "offers mr p m \<longleftrightarrow> (\<exists>d. GetMethod p m mr = Return (Some d))" for p
    using GetMethod_finds [OF mr(2), of p m] by auto
  moreover have "FindPeersWithMethod m mr = None \<longleftrightarrow> methods.found m mr = []"
    using methods.find_law [OF mr(2), of m] by (auto simp: methods.found_def split: option.splits)
  ultimately show ?thesis using mr(1) methods.found_distinct [OF mr(2)] methods.found_iff [OF mr(2)] by auto
qed

definition plain_method :: "string \<Rightarrow> method_descriptor option" where
  "plain_method name = Some \<lparr>md_Name = name, md_Description = '''', md_Tags = [], md_Extra = Map.empty\<rparr>"

theorem FindPeersWithMethod_agrees_with_catalogs_witness:
  "\<exists>mr. mr_run [Update 0 0 ''a'' [plain_method ''m'', plain_method ''m''], Update 1 0 ''b'' [plain_method ''m''],
       Update 2 0 ''a'' [plain_method ''n'']] NewMethodRegistry = Return mr \<and>
     set (methods.found ''m'' mr) = {''b''}"
proof -
  let ?cs = "[Update 0 0 ''a'' [plain_method ''m'', plain_method ''m''], Update 1 0 ''b'' [plain_method ''m''],
       Update 2 0 ''a'' [plain_method ''n'']]"
  have "list_all well_made ?cs" by (simp add: plain_method_def)
  from FindPeersWithMethod_agrees_with_catalogs [OF this, of "''m''"] obtain mr where
    mr: "mr_run ?cs NewMethodRegistry = Return mr"
    "\<forall>p. p \<in> set (methods.found ''m'' mr) \<longleftrightarrow> (\<exists>ms. last_word ?cs p None = Some ms \<and> ''m'' \<in> names_of ms)"
    by blast
  then have "p \<in> set (methods.found ''m'' mr) \<longleftrightarrow> p = ''b''" for p
    by (auto simp: plain_method_def)
  with mr(1) show ?thesis by auto
qed

text \<open>
  A search by pattern, in any order the runtime visits the catalogs, returns for every peer
  exactly the descriptors whose names the pattern matches, in the order the peer listed them,
  and leaves out the peers without one; the pattern means what it means to the access policies.
\<close>

lemma FindMethods_filters_every_catalog:
  assumes "list_all well_made cs" and "mr_run cs NewMethodRegistry = Return mr"
    and "go_range order (mr_peerMethods mr)"
  shows "\<exists>res. FindMethods pat order mr = Return res \<and>
    (\<forall>p. res p =
      (case last_word cs p None of
         None \<Rightarrow> None
       | Some ms \<Rightarrow>
           let matched = filter (\<lambda>d. matchPattern (md_Name (the d)) pat) ms
           in if matched = [] then None else Some matched))"
proof -
  have wf: "mr_wf mr" and cat: "GetPeerMethods p mr = last_word cs p None" for p
    using mr_run_spec [OF mr_wf_New assms(1)] assms(2)
    by (auto simp: GetPeerMethods_def NewMethodRegistry_def)
  obtain res where res: "FindMethods pat order mr = Return res" "\<And>p. res p =
      (case mr_peerMethods mr p of
         None \<Rightarrow> None
       | Some cat \<Rightarrow>
           let ms = filter (\<lambda>d. matchPattern (md_Name (the d)) pat) (pc_Methods cat)
           in if ms = [] then None else Some ms)"
    using FindMethods_spec [OF wf assms(3), of pat] by metis
  have "res p = (case last_word cs p None of
         None \<Rightarrow> None
       | Some ms \<Rightarrow>
           let matched = filter (\<lambda>d. matchPattern (md_Name (the d)) pat) ms
           in if matched = [] then None else Some matched)" for p
    using res(2) [of p] cat [of p, symmetric] by (cases "mr_peerMethods mr p") (simp_all add: GetPeerMethods_def)
  with res(1) show ?thesis by blast
qed

lemma FindMethods_filters_every_catalog_witness:
  "\<exists>mr res. mr_run [Update 0 0 ''a'' [plain_method ''calc.Add'', plain_method ''log.Put'']] NewMethodRegistry = Return mr \<and>
     FindMethods ''calc.*'' [''a''] mr = Return res \<and> res ''a'' = Some [plain_method ''calc.Add'']"
proof -
  let ?cs = "[Update 0 0 ''a'' [plain_method ''calc.Add'', plain_method ''log.Put'']]"
  have ok: "list_all well_made ?cs" by (simp add: plain_method_def)
  obtain mr where mr: "mr_run ?cs NewMethodRegistry = Return mr" "mr_wf mr"
    "\<forall>p. GetPeerMethods p mr = last_word ?cs p None"
    using mr_run_spec [OF mr_wf_New ok] by (auto simp: GetPeerMethods_def NewMethodRegistry_def)
  have "p \<in> dom (mr_peerMethods mr) \<longleftrightarrow> p = ''a''" for p
    using mr(3) [rule_format, of p] by (cases "mr_peerMethods mr p") (auto simp: GetPeerMethods_def split: if_splits)
  then have "go_range [''a''] (mr_peerMethods mr)" by (auto simp: go_range_def)
  from FindMethods_filters_every_catalog [OF ok mr(1) this, of "''calc.*''"] obtain res where
    res: "FindMethods ''calc.*'' [''a''] mr = Return res" "\<And>p. res p =
      (case last_word ?cs p None of
         None \<Rightarrow> None
       | Some ms \<Rightarrow>
           let matched = filter (\<lambda>d. matchPattern (md_Name (the d)) ''calc.*'') ms
           in if matched = [] then None else Some matched)" by metis
  have "matchPattern ''calc.Add'' ''calc.*''" "\<not> matchPattern ''log.Put'' ''calc.*''"
    by (simp_all add: matchPattern_def HasPrefix_def HasSuffix_def TrimSuffix_def Contains_single)
  with res(2) [of "''a''"] have "res ''a'' = Some [plain_method ''calc.Add'']" by (simp add: plain_method_def)
  with mr(1) res(1) show ?thesis by blast
qed

end
