(* ===== verification/Circuit_Breaker.thy ===== *)
theory Circuit_Breaker
  imports Go_Float
begin

section \<open>The circuit breaker (pkg/fault/circuit_breaker.go)\<close>

text \<open>
  A breaker counts the results of calls and refuses calls while it is open. Each method holds the
  breaker's lock, so it is one step; \<open>now\<close> is the clock when the method reads it first, \<open>later\<close>
  when \<^verbatim>\<open>setState\<close> reads it. A registered callback is started in a goroutine of its own: the
  model lists the notifications sent.
\<close>

datatype cb_state = StateClosed | StateOpen | StateHalfOpen

record cb_config =
  cfg_MaxFailures :: int
  cfg_Timeout :: duration
  cfg_FailureRatio :: f64
  cfg_HalfOpenMaxAttempts :: int

record breaker =
  cb_config :: cb_config
  cb_state :: cb_state
  cb_failures :: int
  cb_successes :: int
  cb_attempts :: int
  cb_lastFailureTime :: "instant option"
  cb_stateChanged :: instant
  cb_onStateChange :: bool
  cb_notified :: "(cb_state \<times> cb_state) list"

subsection \<open>Operations\<close>

definition NewCircuitBreaker :: "instant \<Rightarrow> cb_config \<Rightarrow> breaker" where
  "NewCircuitBreaker now config =
     \<lparr>cb_config = (if cfg_HalfOpenMaxAttempts config = 0 then config\<lparr>cfg_HalfOpenMaxAttempts := 1\<rparr> else config),
      cb_state = StateClosed, cb_failures = 0, cb_successes = 0, cb_attempts = 0,
      cb_lastFailureTime = None, cb_stateChanged = now, cb_onStateChange = False, cb_notified = []\<rparr>"

definition setState :: "instant \<Rightarrow> cb_state \<Rightarrow> breaker \<Rightarrow> breaker" where
  "setState now newState cb =
     (let cb1 = cb\<lparr>cb_state := newState, cb_stateChanged := now\<rparr> in
      if cb_onStateChange cb \<and> cb_state cb \<noteq> newState
      then cb1\<lparr>cb_notified := cb_notified cb @ [(cb_state cb, newState)]\<rparr>
      else cb1)"

definition cb_reset :: "breaker \<Rightarrow> breaker" where
  "cb_reset cb = cb\<lparr>cb_failures := 0, cb_successes := 0, cb_attempts := 0\<rparr>"

definition Allow :: "instant \<Rightarrow> instant \<Rightarrow> breaker \<Rightarrow> bool \<times> breaker" where
  "Allow now later cb =
     (case cb_state cb of
        StateClosed \<Rightarrow> (True, cb)
      | StateOpen \<Rightarrow>
          if time_Sub now (cb_stateChanged cb) > cfg_Timeout (cb_config cb)
          then (True, (setState later StateHalfOpen cb)\<lparr>cb_attempts := 0\<rparr>)
          else (False, cb)
      | StateHalfOpen \<Rightarrow> (cb_attempts cb < cfg_HalfOpenMaxAttempts (cb_config cb), cb))"

definition RecordSuccess :: "instant \<Rightarrow> breaker \<Rightarrow> breaker" where
  "RecordSuccess later cb =
     (if cb_state cb = StateHalfOpen then
        (let cb1 = cb\<lparr>cb_successes := wrap64 (cb_successes cb + 1)\<rparr> in
         if cb_successes cb1 \<ge> cfg_HalfOpenMaxAttempts (cb_config cb)
         then cb_reset (setState later StateClosed cb1) else cb1)
      else if cb_state cb = StateClosed then
        cb\<lparr>cb_attempts := wrap64 (cb_attempts cb + 1), cb_failures := 0\<rparr>
      else cb)"

definition shouldTrip :: "breaker \<Rightarrow> bool" where
  "shouldTrip cb =
     (if cb_failures cb \<ge> cfg_MaxFailures (cb_config cb) then True
      else if f_less (Fin 0) (cfg_FailureRatio (cb_config cb)) \<and> cb_attempts cb > 0 then
        f_le (cfg_FailureRatio (cb_config cb))
             (f_div (f_of_int (cb_failures cb)) (f_of_int (cb_attempts cb)))
      else False)"

definition RecordFailure :: "instant \<Rightarrow> instant \<Rightarrow> breaker \<Rightarrow> breaker" where
  "RecordFailure now later cb =
     (let cb1 = cb\<lparr>cb_failures := wrap64 (cb_failures cb + 1), cb_lastFailureTime := Some now,
                   cb_attempts := wrap64 (cb_attempts cb + 1)\<rparr> in
      if shouldTrip cb1 then setState later StateOpen cb1 else cb1)"

text \<open>
  \<^verbatim>\<open>Execute\<close> runs the call without the lock: \<open>call\<close> is its result and what other goroutines
  made of the breaker meanwhile. A panic of the call passes through unrecorded.
\<close>

definition Execute ::
  "instant \<times> instant \<Rightarrow> instant \<times> instant \<Rightarrow> (breaker \<Rightarrow> go_error option outcome \<times> breaker) \<Rightarrow> breaker
     \<Rightarrow> go_error option outcome \<times> breaker" where
  "Execute t1 t2 call cb =
     (case Allow (fst t1) (snd t1) cb of
        (False, cb1) \<Rightarrow> (Return (Some (ErrorsNew ''circuit breaker open'')), cb1)
      | (True, cb1) \<Rightarrow>
          (case call cb1 of
             (Panic m, cb2) \<Rightarrow> (Panic m, cb2)
           | (Return (Some err), cb2) \<Rightarrow> (Return (Some err), RecordFailure (fst t2) (snd t2) cb2)
           | (Return None, cb2) \<Rightarrow> (Return None, RecordSuccess (snd t2) cb2)))"

definition CB_State :: "breaker \<Rightarrow> cb_state" where
  "CB_State cb = cb_state cb"

definition Reset :: "instant \<Rightarrow> breaker \<Rightarrow> breaker" where
  "Reset now cb = cb_reset (setState now StateClosed cb)"

definition ForceOpen :: "instant \<Rightarrow> breaker \<Rightarrow> breaker" where
  "ForceOpen now cb = setState now StateOpen cb"

definition ForceClose :: "instant \<Rightarrow> breaker \<Rightarrow> breaker" where
  "ForceClose now cb = cb_reset (setState now StateClosed cb)"

definition OnStateChange :: "bool \<Rightarrow> breaker \<Rightarrow> breaker" where
  "OnStateChange fn cb = cb\<lparr>cb_onStateChange := fn\<rparr>"

subsection \<open>Sequences of calls\<close>

text \<open>What goroutines that use the breaker do to it; \<open>Ask\<close> is \<^verbatim>\<open>Allow\<close>.\<close>

datatype cb_call = Ask instant instant | Succeed instant | Fail instant instant

fun cb_step :: "cb_call \<Rightarrow> breaker \<Rightarrow> bool option \<times> breaker" where
  "cb_step (Ask now later) cb = (case Allow now later cb of (b, cb1) \<Rightarrow> (Some b, cb1))"
| "cb_step (Succeed later) cb = (None, RecordSuccess later cb)"
| "cb_step (Fail now later) cb = (None, RecordFailure now later cb)"

text \<open>The answers given to the calls, and the breaker at the end.\<close>

fun cb_run :: "cb_call list \<Rightarrow> breaker \<Rightarrow> bool list \<times> breaker" where
  "cb_run [] cb = ([], cb)"
| "cb_run (c # cs) cb =
     (case cb_step c cb of
        (a, cb1) \<Rightarrow>
          (case cb_run cs cb1 of
             (as, cb2) \<Rightarrow> (case a of None \<Rightarrow> as | Some b \<Rightarrow> b # as, cb2)))"

fun call_times :: "cb_call \<Rightarrow> instant list" where
  "call_times (Ask now later) = [now, later]"
| "call_times (Succeed later) = [later]"
| "call_times (Fail now later) = [now, later]"

subsection \<open>Lemmas\<close>

lemma setState_simps [simp]:
  "cb_state (setState t st cb) = st" "cb_stateChanged (setState t st cb) = t"
  "cb_config (setState t st cb) = cb_config cb" "cb_failures (setState t st cb) = cb_failures cb"
  "cb_successes (setState t st cb) = cb_successes cb" "cb_attempts (setState t st cb) = cb_attempts cb"
  by (simp_all add: setState_def Let_def)

lemma cb_reset_simps [simp]:
  "cb_state (cb_reset cb) = cb_state cb" "cb_config (cb_reset cb) = cb_config cb"
  "cb_failures (cb_reset cb) = 0" "cb_successes (cb_reset cb) = 0" "cb_attempts (cb_reset cb) = 0"
  by (simp_all add: cb_reset_def)

lemma time_Sub_exceeds: "int64_range d \<Longrightarrow> time_Sub t u > d \<Longrightarrow> t - u > d"
  by (auto simp: time_Sub_def int64_defs split: if_splits)

definition open_since :: "instant \<Rightarrow> breaker \<Rightarrow> bool" where
  "open_since t cb \<longleftrightarrow> cb_state cb = StateOpen \<and> t \<le> cb_stateChanged cb"

lemma open_since_step:
  assumes "open_since t cb" and "int64_range (cfg_Timeout (cb_config cb))"
    and "\<forall>u \<in> set (call_times c). t \<le> u \<and> u \<le> t + cfg_Timeout (cb_config cb)"
  obtains a cb1 where "cb_step c cb = (a, cb1)" "a \<noteq> Some True" "open_since t cb1" "cb_config cb1 = cb_config cb"
proof (cases c)
  case (Ask now later)
  have "\<not> time_Sub now (cb_stateChanged cb) > cfg_Timeout (cb_config cb)"
    using time_Sub_exceeds [OF assms(2), of now "cb_stateChanged cb"] assms(1,3) Ask
    by (auto simp: open_since_def)
  with Ask assms(1) show ?thesis
    by (intro that [of "Some False" cb]) (simp_all add: Allow_def open_since_def)
next
  case (Succeed later)
  with assms(1) show ?thesis by (intro that [of None cb]) (simp_all add: RecordSuccess_def open_since_def)
next
  case (Fail now later)
  with assms(1,3) show ?thesis
    by (intro that [of None "RecordFailure now later cb"]) (simp_all add: RecordFailure_def open_since_def Let_def)
qed

lemma open_since_run:
  "open_since t cb \<Longrightarrow> int64_range (cfg_Timeout (cb_config cb)) \<Longrightarrow>
   \<forall>c \<in> set cs. \<forall>u \<in> set (call_times c). t \<le> u \<and> u \<le> t + cfg_Timeout (cb_config cb) \<Longrightarrow>
   set (fst (cb_run cs cb)) \<subseteq> {False} \<and> open_since t (snd (cb_run cs cb))"
proof (induction cs arbitrary: cb)
  case (Cons c cs)
  have "\<forall>u \<in> set (call_times c). t \<le> u \<and> u \<le> t + cfg_Timeout (cb_config cb)" using Cons.prems(3) by simp
  from open_since_step [OF Cons.prems(1,2) this] obtain a cb1 where
    s: "cb_step c cb = (a, cb1)" "a \<noteq> Some True" "open_since t cb1" "cb_config cb1 = cb_config cb" .
  have "set (fst (cb_run cs cb1)) \<subseteq> {False} \<and> open_since t (snd (cb_run cs cb1))"
    using Cons.prems by (intro Cons.IH) (simp_all add: s)
  with s(1,2) show ?case by (auto split: prod.splits option.splits)
qed simp

text \<open>A run of failures, and a run of successes.\<close>

fun fails :: "nat \<Rightarrow> (nat \<Rightarrow> instant) \<Rightarrow> breaker \<Rightarrow> breaker" where
  "fails 0 t cb = cb"
| "fails (Suc n) t cb = RecordFailure (t n) (t n) (fails n t cb)"

fun succeeds :: "nat \<Rightarrow> (nat \<Rightarrow> instant) \<Rightarrow> breaker \<Rightarrow> breaker" where
  "succeeds 0 t cb = cb"
| "succeeds (Suc n) t cb = RecordSuccess (t n) (succeeds n t cb)"

lemma RecordFailure_simps [simp]:
  "cb_failures (RecordFailure now later cb) = wrap64 (cb_failures cb + 1)"
  "cb_attempts (RecordFailure now later cb) = wrap64 (cb_attempts cb + 1)"
  "cb_config (RecordFailure now later cb) = cb_config cb"
  by (simp_all add: RecordFailure_def Let_def)

lemma fails_counts:
  assumes "0 \<le> cb_failures cb" and "cb_failures cb + int n \<le> max_int64"
  shows "cb_failures (fails n t cb) = cb_failures cb + int n \<and> cb_config (fails n t cb) = cb_config cb"
  using assms by (induction n) (auto simp: wrap64_id int64_defs add.assoc)

lemma succeeds_closed:
  assumes "cb_state cb = StateClosed" and "0 \<le> cb_attempts cb" and "cb_attempts cb + int n \<le> max_int64"
  shows "cb_state (succeeds n t cb) = StateClosed \<and> cb_attempts (succeeds n t cb) = cb_attempts cb + int n \<and>
    cb_failures (succeeds n t cb) = (if n = 0 then cb_failures cb else 0) \<and>
    cb_config (succeeds n t cb) = cb_config cb"
  using assms
proof (induction n)
  case (Suc n)
  then show ?case by (auto simp: RecordSuccess_def wrap64_id int64_defs)
qed simp

lemma succeeds_half_open:
  assumes "cb_state cb = StateHalfOpen" and "0 \<le> cb_successes cb"
    and "cfg_HalfOpenMaxAttempts (cb_config cb) \<le> max_int64"
    and "cb_successes cb + int n < cfg_HalfOpenMaxAttempts (cb_config cb)"
  shows "succeeds n t cb = cb\<lparr>cb_successes := cb_successes cb + int n\<rparr>"
  using assms by (induction n) (auto simp: RecordSuccess_def wrap64_id int64_defs Let_def)

subsection \<open>Properties\<close>

definition demo_cb_config :: cb_config where
  "demo_cb_config = \<lparr>cfg_MaxFailures = 5, cfg_Timeout = 10 * second, cfg_FailureRatio = Fin (1 / 2),
     cfg_HalfOpenMaxAttempts = 3\<rparr>"

text \<open>
  C30. An open breaker refuses every call until its timeout has passed: whatever calls ask and
  whatever late results are recorded, in any order, between the moment it opened and the timeout,
  every \<^verbatim>\<open>Allow\<close> answers false and the breaker stays open.
\<close>

theorem open_breaker_refuses_until_timeout:
  assumes "cb_state cb = StateOpen" and "cb_stateChanged cb = t"
    and "int64_range (cfg_Timeout (cb_config cb))"
    and "\<forall>c \<in> set cs. \<forall>u \<in> set (call_times c). t \<le> u \<and> u \<le> t + cfg_Timeout (cb_config cb)"
  shows "set (fst (cb_run cs cb)) \<subseteq> {False} \<and> cb_state (snd (cb_run cs cb)) = StateOpen"
  using open_since_run [OF _ assms(3,4)] assms(1,2) by (simp add: open_since_def)

theorem open_breaker_refuses_until_timeout_witness:
  "set (fst (cb_run [Ask 5 5, Fail 6 6, Ask 9 9, Succeed 9, Ask (10 * second) (10 * second)]
     (ForceOpen 0 (NewCircuitBreaker 0 demo_cb_config)))) \<subseteq> {False} \<and>
   fst (cb_run [Ask (10 * second + 1) (10 * second + 1)]
     (ForceOpen 0 (NewCircuitBreaker 0 demo_cb_config))) = [True]"
proof -
  let ?cb = "ForceOpen 0 (NewCircuitBreaker 0 demo_cb_config)"
  have cfg: "cb_config ?cb = demo_cb_config"
    by (simp add: ForceOpen_def NewCircuitBreaker_def demo_cb_config_def)
  have "set (fst (cb_run [Ask 5 5, Fail 6 6, Ask 9 9, Succeed 9, Ask (10 * second) (10 * second)] ?cb)) \<subseteq> {False}"
    using open_breaker_refuses_until_timeout [of ?cb 0 "[Ask 5 5, Fail 6 6, Ask 9 9, Succeed 9, Ask (10 * second) (10 * second)]"]
    unfolding cfg by (simp add: ForceOpen_def NewCircuitBreaker_def demo_cb_config_def int64_defs second_def)
  moreover have "fst (cb_run [Ask (10 * second + 1) (10 * second + 1)] ?cb) = [True]"
    by (simp add: ForceOpen_def NewCircuitBreaker_def demo_cb_config_def Allow_def time_Sub_def int64_defs second_def)
  ultimately show ?thesis by blast
qed

text \<open>
  C31. When a closed breaker trips: after \<open>k\<close> successes since it was made, the next failure opens
  it exactly when \<^verbatim>\<open>MaxFailures\<close> is at most one or the failure ratio is positive and at most
  \<open>1 / (k + 1)\<close>, as rounded to a \<^verbatim>\<open>float64\<close>. So a breaker with a positive ratio of at most one, as
  in the default configuration, opens at its very first failure, whatever \<^verbatim>\<open>MaxFailures\<close> is.
\<close>

theorem failure_after_successes_trips_iff:
  assumes "k < 2 ^ 53" and "cfg_FailureRatio config = Fin r"
  shows "cb_state (RecordFailure now later (succeeds k t (NewCircuitBreaker t0 config))) = StateOpen \<longleftrightarrow>
    cfg_MaxFailures config \<le> 1 \<or> (0 < r \<and> r \<le> rnd (1 / of_int (int k + 1)))"
proof -
  let ?cb = "succeeds k t (NewCircuitBreaker t0 config)"
  have new: "cb_state (NewCircuitBreaker t0 config) = StateClosed"
    "cb_attempts (NewCircuitBreaker t0 config) = 0" "cb_failures (NewCircuitBreaker t0 config) = 0"
    "cfg_MaxFailures (cb_config (NewCircuitBreaker t0 config)) = cfg_MaxFailures config"
    "cfg_FailureRatio (cb_config (NewCircuitBreaker t0 config)) = Fin r"
    using assms(2) by (simp_all add: NewCircuitBreaker_def)
  have k: "int k + 1 \<le> 2 ^ 53" using assms(1) by (metis of_nat_less_iff of_nat_numeral of_nat_power zless_imp_add1_zle)
  then have cb: "cb_state ?cb = StateClosed" "cb_attempts ?cb = int k" "cb_failures ?cb = 0"
    "cb_config ?cb = cb_config (NewCircuitBreaker t0 config)"
    using succeeds_closed [OF new(1), of k t] new by (auto simp: int64_defs)
  let ?cb1 = "?cb\<lparr>cb_failures := wrap64 (cb_failures ?cb + 1), cb_lastFailureTime := Some now,
      cb_attempts := wrap64 (cb_attempts ?cb + 1)\<rparr>"
  have c1: "cb_failures ?cb1 = 1" "cb_attempts ?cb1 = int k + 1" "cb_config ?cb1 = cb_config ?cb"
    using k cb by (simp_all add: wrap64_id int64_defs)
  have q: "f_div (f_of_int 1) (f_of_int (int k + 1)) = Fin (rnd (1 / of_int (int k + 1)))"
  proof -
    have "f_div (f_of_int 1) (f_of_int (int k + 1)) = fl (1 / of_int (int k + 1))"
      using f_of_int_small [of 1] f_of_int_small [of "int k + 1"] k by simp
    also have "\<dots> = Fin (rnd (1 / of_int (int k + 1)))"
      using fl_bounded [of 1 "1 / of_int (int k + 1)"] representable_int [of 1] by simp
    finally show ?thesis .
  qed
  have "shouldTrip ?cb1 \<longleftrightarrow> cfg_MaxFailures config \<le> 1 \<or> (0 < r \<and> r \<le> rnd (1 / of_int (int k + 1)))"
    unfolding shouldTrip_def c1 cb(4) new q by (auto simp: f_le_def)
  moreover have "cb_state (RecordFailure now later ?cb) = StateOpen \<longleftrightarrow> shouldTrip ?cb1"
    using cb(1) by (simp add: RecordFailure_def Let_def)
  ultimately show ?thesis by simp
qed

theorem failure_after_successes_trips_iff_witness:
  "cb_state (RecordFailure 1 1 (NewCircuitBreaker 0 demo_cb_config)) = StateOpen"
  using failure_after_successes_trips_iff [of 0 demo_cb_config "1 / 2" 1 1 "\<lambda>_. 0" 0]
    ieee.round_small_int [of 1] by (simp add: demo_cb_config_def)

text \<open>
  A closed breaker whose counters have room opens after \<^verbatim>\<open>MaxFailures\<close> failures in a row at
  the latest.
\<close>

lemma failures_in_a_row_open:
  assumes "0 \<le> cb_failures cb" and "cb_failures cb + int n \<le> max_int64" and "0 < n"
    and "cfg_MaxFailures (cb_config cb) \<le> cb_failures cb + int n"
  shows "cb_state (fails n t cb) = StateOpen"
proof -
  obtain m where n: "n = Suc m" using assms(3) by (cases n) auto
  have "cb_failures (fails m t cb) = cb_failures cb + int m" "cb_config (fails m t cb) = cb_config cb"
    using fails_counts [of cb m t] assms(1,2) n by simp_all
  with assms(1,2,4) n show ?thesis
    by (simp add: RecordFailure_def Let_def shouldTrip_def wrap64_id int64_defs)
qed

lemma failures_in_a_row_open_witness:
  "cb_state (fails 5 (\<lambda>_. 0) (NewCircuitBreaker 0 (demo_cb_config\<lparr>cfg_FailureRatio := Fin 0\<rparr>))) = StateOpen"
  by (rule failures_in_a_row_open) (simp_all add: NewCircuitBreaker_def demo_cb_config_def int64_defs)

text \<open>
  A half-open breaker with room for attempts does not limit its trial calls: until a failure is
  recorded, every \<^verbatim>\<open>Allow\<close> answers true. It closes, with cleared counters, when its count of
  successes reaches \<^verbatim>\<open>HalfOpenMaxAttempts\<close>, and not before.
\<close>

lemma half_open_admits_all_and_closes_on_successes:
  assumes "cb_state cb = StateHalfOpen" and "cb_attempts cb < cfg_HalfOpenMaxAttempts (cb_config cb)"
    and "0 \<le> cb_successes cb" and "cfg_HalfOpenMaxAttempts (cb_config cb) \<le> max_int64"
    and "cb_successes cb + int n + 1 = cfg_HalfOpenMaxAttempts (cb_config cb)"
  shows "cb_run (map (\<lambda>u. Ask u u) us) cb = (replicate (length us) True, cb) \<and>
    (\<forall>m\<le>n. cb_state (succeeds m t cb) = StateHalfOpen) \<and>
    cb_state (succeeds (Suc n) t cb) = StateClosed \<and> cb_failures (succeeds (Suc n) t cb) = 0 \<and>
    cb_successes (succeeds (Suc n) t cb) = 0 \<and> cb_attempts (succeeds (Suc n) t cb) = 0"
proof -
  have "cb_run (map (\<lambda>u. Ask u u) us) cb = (replicate (length us) True, cb)"
    using assms(1,2) by (induction us) (simp_all add: Allow_def)
  moreover have "cb_state (succeeds m t cb) = StateHalfOpen" if "m \<le> n" for m
    using that assms by (subst succeeds_half_open) simp_all
  moreover have "succeeds n t cb = cb\<lparr>cb_successes := cb_successes cb + int n\<rparr>"
    using assms by (intro succeeds_half_open) simp_all
  ultimately show ?thesis
    using assms by (simp add: RecordSuccess_def Let_def wrap64_id int64_defs)
qed

end
