(* ===== verification/Extended_Registry.thy ===== *)
theory Extended_Registry
  imports Method_Registry Registry_Properties Circuit_Breaker
begin

section \<open>The extended session manager (pkg/registry/session_ext.go)\<close>

text \<open>
  The extended manager joins the session registry, the method registry and one circuit breaker
  per peer. A breaker is handed out as a pointer, which a caller may keep after the manager has
  dropped it, so breakers live in a heap of their own. The manager's methods take the locks of its
  parts one after the other; each is modelled as it runs undisturbed, and what a protected call and
  other goroutines do meanwhile is an argument.
\<close>

type_synonym cbref = nat

record ext_manager =
  em_sessionManager :: registry
  em_methodRegistry :: method_registry
  em_cbConfig :: cb_config
  em_circuitBreakers :: "peer_id \<rightharpoonup> cbref"
  em_breakers :: "cbref \<rightharpoonup> breaker"
  em_next :: cbref

record health_result =
  hr_PeerID :: peer_id
  hr_SessionHealthy :: bool
  hr_CircuitBreakerState :: cb_state
  hr_MethodCount :: int
  hr_LastHeartbeat :: "instant option"
  hr_Timestamp :: instant

record extended_stats =
  xs_SessionStats :: session_stats
  xs_TotalMethods :: int
  xs_TotalPeers :: int
  xs_AverageMethodsPerPeer :: f64
  xs_CircuitBreakerStats :: "peer_id \<rightharpoonup> cb_state"

definition Ext_SessionManager :: "ext_manager \<Rightarrow> registry" where
  "Ext_SessionManager e = em_sessionManager e"

definition Ext_MethodRegistry :: "ext_manager \<Rightarrow> method_registry" where
  "Ext_MethodRegistry e = em_methodRegistry e"

definition default_cb_config :: cb_config where
  "default_cb_config =
     \<lparr>cfg_MaxFailures = 5, cfg_Timeout = 10 * second, cfg_FailureRatio = Fin (1 / 2),
      cfg_HalfOpenMaxAttempts = 3\<rparr>"

definition NewExtendedSessionManager ::
  "registry \<Rightarrow> method_registry \<Rightarrow> cb_config option \<Rightarrow> ext_manager" where
  "NewExtendedSessionManager sm mr cfg =
     \<lparr>em_sessionManager = sm, em_methodRegistry = mr,
      em_cbConfig = (case cfg of None \<Rightarrow> default_cb_config | Some c \<Rightarrow> c),
      em_circuitBreakers = Map.empty, em_breakers = Map.empty, em_next = 0\<rparr>"

subsection \<open>Breakers behind pointers\<close>

definition cb_at :: "cbref \<Rightarrow> ext_manager \<Rightarrow> breaker outcome" where
  "cb_at b e = (case em_breakers e b of None \<Rightarrow> Panic nil_panic | Some cb \<Rightarrow> Return cb)"

definition cb_put :: "cbref \<Rightarrow> breaker \<Rightarrow> ext_manager \<Rightarrow> ext_manager" where
  "cb_put b cb e = e\<lparr>em_breakers := (em_breakers e)(b \<mapsto> cb)\<rparr>"

subsection \<open>Sessions and methods\<close>

definition ensure_breaker :: "instant \<Rightarrow> peer_id \<Rightarrow> ext_manager \<Rightarrow> ext_manager" where
  "ensure_breaker now p e =
     (case em_circuitBreakers e p of
        Some b \<Rightarrow> e
      | None \<Rightarrow>
          let b = em_next e; cb = OnStateChange True (NewCircuitBreaker now (em_cbConfig e))
          in (cb_put b cb e)\<lparr>em_circuitBreakers := (em_circuitBreakers e)(p \<mapsto> b), em_next := Suc b\<rparr>)"

definition Ext_RegisterSession ::
  "instant \<Rightarrow> sref option \<Rightarrow> ext_manager \<Rightarrow> (go_error option \<times> ext_manager) outcome" where
  "Ext_RegisterSession now session e =
     bind_outcome (Register session (em_sessionManager e)) (\<lambda>(err, sm).
       let e1 = e\<lparr>em_sessionManager := sm\<rparr> in
       case err of
         Some x \<Rightarrow> Return (Some x, e1)
       | None \<Rightarrow>
           (case session of
              None \<Rightarrow> Panic nil_panic
            | Some a \<Rightarrow>
                bind_outcome (deref a sm) (\<lambda>s. Return (None, ensure_breaker now (ss_PeerID s) e1))))"

definition Ext_RemoveSession :: "peer_id \<Rightarrow> ext_manager \<Rightarrow> (go_error option \<times> ext_manager) outcome" where
  "Ext_RemoveSession peerID e =
     bind_outcome (Remove peerID (em_sessionManager e)) (\<lambda>(err, sm).
       let e1 = e\<lparr>em_sessionManager := sm\<rparr> in
       case err of
         Some x \<Rightarrow> Return (Some x, e1)
       | None \<Rightarrow>
           bind_outcome (RemovePeer peerID (em_methodRegistry e1)) (\<lambda>mr.
             Return (None, e1\<lparr>em_methodRegistry := mr,
                              em_circuitBreakers := (em_circuitBreakers e1)(peerID := None)\<rparr>)))"

definition Ext_UpdateMethods ::
  "instant \<Rightarrow> int \<Rightarrow> peer_id \<Rightarrow> methods \<Rightarrow> ext_manager \<Rightarrow> (go_error option \<times> ext_manager) outcome" where
  "Ext_UpdateMethods now unix peerID ms e =
     (case Get peerID (em_sessionManager e) of
        None \<Rightarrow> Return (Some ErrSessionNotFound, e)
      | Some a \<Rightarrow>
          bind_outcome (UpdateMethods now unix peerID ms (em_methodRegistry e)) (\<lambda>(v, mr).
            Return (None, e\<lparr>em_methodRegistry := mr\<rparr>)))"

definition GetCircuitBreaker :: "peer_id \<Rightarrow> ext_manager \<Rightarrow> cbref option" where
  "GetCircuitBreaker peerID e = em_circuitBreakers e peerID"

subsection \<open>Health\<close>

definition HealthCheck :: "instant \<Rightarrow> peer_id \<Rightarrow> ext_manager \<Rightarrow> health_result outcome" where
  "HealthCheck now peerID e =
     (let r0 = \<lparr>hr_PeerID = peerID, hr_SessionHealthy = False, hr_CircuitBreakerState = StateClosed,
                hr_MethodCount = 0, hr_LastHeartbeat = None, hr_Timestamp = now\<rparr> in
      bind_outcome
        (case Get peerID (em_sessionManager e) of
           None \<Rightarrow> Return r0
         | Some a \<Rightarrow>
             bind_outcome (deref a (em_sessionManager e)) (\<lambda>s.
               Return (r0\<lparr>hr_SessionHealthy := True, hr_LastHeartbeat := Some (ss_LastHeartbeat s)\<rparr>))) (\<lambda>r1.
      bind_outcome
        (case em_circuitBreakers e peerID of
           None \<Rightarrow> Return r1
         | Some b \<Rightarrow> bind_outcome (cb_at b e) (\<lambda>cb. Return (r1\<lparr>hr_CircuitBreakerState := CB_State cb\<rparr>))) (\<lambda>r2.
      Return
        (case GetPeerMethods peerID (em_methodRegistry e) of
           None \<Rightarrow> r2
         | Some ms \<Rightarrow> r2\<lparr>hr_MethodCount := int (length ms)\<rparr>))))"

fun healthy_loop :: "instant \<Rightarrow> ext_manager \<Rightarrow> peer_id list \<Rightarrow> peer_id list \<Rightarrow> peer_id list outcome" where
  "healthy_loop now e [] healthy = Return healthy"
| "healthy_loop now e (p # ps) healthy =
     bind_outcome (HealthCheck now p e) (\<lambda>health.
       healthy_loop now e ps
         (if hr_SessionHealthy health \<and> hr_CircuitBreakerState health \<noteq> StateOpen
          then healthy @ [p] else healthy))"

definition ListHealthyPeers ::
  "instant \<Rightarrow> (sref \<Rightarrow> string list) \<Rightarrow> peer_id list \<Rightarrow> ext_manager \<Rightarrow> peer_id list outcome" where
  "ListHealthyPeers now mds order e =
     bind_outcome (ListAll mds order (em_sessionManager e)) (\<lambda>sessions.
       healthy_loop now e (map ss_PeerID sessions) [])"

definition FindHealthyPeersWithMethod :: "instant \<Rightarrow> string \<Rightarrow> ext_manager \<Rightarrow> peer_id list outcome" where
  "FindHealthyPeersWithMethod now methodName e =
     (let allPeers = (case FindPeersWithMethod methodName (em_methodRegistry e) of
                        None \<Rightarrow> [] | Some ps \<Rightarrow> ps)
      in healthy_loop now e allPeers [])"

fun cb_stats_loop :: "peer_id list \<Rightarrow> ext_manager \<Rightarrow> (peer_id \<rightharpoonup> cb_state) \<Rightarrow> (peer_id \<rightharpoonup> cb_state) outcome" where
  "cb_stats_loop [] e acc = Return acc"
| "cb_stats_loop (p # ps) e acc =
     (case em_circuitBreakers e p of
        None \<Rightarrow> cb_stats_loop ps e acc
      | Some b \<Rightarrow> bind_outcome (cb_at b e) (\<lambda>cb. cb_stats_loop ps e (acc(p \<mapsto> CB_State cb))))"

definition GetExtendedStats ::
  "peer_id list \<Rightarrow> peer_id list \<Rightarrow> peer_id list \<Rightarrow> ext_manager \<Rightarrow> extended_stats outcome" where
  "GetExtendedStats sessions catalogs breakers e =
     bind_outcome (Session_Registry.Stats sessions (em_sessionManager e)) (\<lambda>st.
       let ms = MethodRegistry_Stats catalogs (em_methodRegistry e) in
       bind_outcome (cb_stats_loop breakers e Map.empty) (\<lambda>states.
         Return \<lparr>xs_SessionStats = st, xs_TotalMethods = ms_TotalMethods ms, xs_TotalPeers = ms_TotalPeers ms,
                 xs_AverageMethodsPerPeer = ms_AverageMethods ms, xs_CircuitBreakerStats = states\<rparr>))"

subsection \<open>Protected calls\<close>

text \<open>
  \<open>fn\<close> is the call with everything other goroutines do to the manager while it runs. The breaker
  is asked before and told after through the pointer looked up at the start.
\<close>

definition ExecuteWithCircuitBreaker ::
  "instant \<times> instant \<Rightarrow> instant \<times> instant \<Rightarrow> peer_id \<Rightarrow> (ext_manager \<Rightarrow> go_error option outcome \<times> ext_manager)
     \<Rightarrow> ext_manager \<Rightarrow> go_error option outcome \<times> ext_manager" where
  "ExecuteWithCircuitBreaker t1 t2 peerID fn e =
     (case GetCircuitBreaker peerID e of
        None \<Rightarrow> fn e
      | Some b \<Rightarrow>
          (case em_breakers e b of
             None \<Rightarrow> (Panic nil_panic, e)
           | Some cb \<Rightarrow>
               (case Allow (fst t1) (snd t1) cb of
                  (False, cb1) \<Rightarrow> (Return (Some (ErrorsNew ''circuit breaker open'')), cb_put b cb1 e)
                | (True, cb1) \<Rightarrow>
                    (case fn (cb_put b cb1 e) of
                       (Panic m, e1) \<Rightarrow> (Panic m, e1)
                     | (Return r, e1) \<Rightarrow>
                         (case em_breakers e1 b of
                            None \<Rightarrow> (Panic nil_panic, e1)
                          | Some cb2 \<Rightarrow>
                              (Return r,
                               cb_put b (case r of None \<Rightarrow> RecordSuccess (snd t2) cb2
                                         | Some err \<Rightarrow> RecordFailure (fst t2) (snd t2) cb2) e1))))))"

text \<open>
  When the call leaves the manager alone, this is \<^verbatim>\<open>Execute\<close> on the peer's breaker.
\<close>

lemma ExecuteWithCircuitBreaker_Execute:
  assumes "em_circuitBreakers e p = Some b" and "em_breakers e b = Some cb"
  shows "ExecuteWithCircuitBreaker t1 t2 p (\<lambda>e1. (r, e1)) e =
    (case Execute t1 t2 (\<lambda>cb1. (r, cb1)) cb of (res, cb') \<Rightarrow> (res, cb_put b cb' e))"
  using assms
  by (auto simp: ExecuteWithCircuitBreaker_def GetCircuitBreaker_def Execute_def cb_put_def
      split: prod.splits bool.splits outcome.splits option.splits)

subsection \<open>The invariant\<close>

definition breakers_live :: "ext_manager \<Rightarrow> bool" where
  "breakers_live e \<longleftrightarrow>
     (\<forall>p b. em_circuitBreakers e p = Some b \<longrightarrow> b < em_next e \<and> em_breakers e b \<noteq> None) \<and>
     inj_on (em_circuitBreakers e) (dom (em_circuitBreakers e))"

definition em_wf :: "ext_manager \<Rightarrow> bool" where
  "em_wf e \<longleftrightarrow> reg_wf (em_sessionManager e) \<and> mr_wf (em_methodRegistry e) \<and> breakers_live e"

lemma em_wfD:
  assumes "em_wf e"
  shows "reg_wf (em_sessionManager e)" and "mr_wf (em_methodRegistry e)" and "breakers_live e"
  using assms by (simp_all add: em_wf_def)

lemma em_wf_New [keeps]: "reg_wf sm \<Longrightarrow> mr_wf mr \<Longrightarrow> em_wf (NewExtendedSessionManager sm mr cfg)"
  by (simp add: em_wf_def breakers_live_def NewExtendedSessionManager_def)

lemma breaker_of:
  assumes "em_wf e" and "em_circuitBreakers e p = Some b"
  obtains cb where "em_breakers e b = Some cb" and "b < em_next e"
  using em_wfD(3) [OF assms(1)] assms(2) by (auto simp: breakers_live_def)

lemma breakers_apart:
  assumes "em_wf e" and "em_circuitBreakers e p = Some b" and "em_circuitBreakers e q = Some b"
  shows "p = q"
  using em_wfD(3) [OF assms(1)] assms(2,3) inj_onD [of "em_circuitBreakers e" "dom (em_circuitBreakers e)" p q]
  by (simp add: breakers_live_def domI)

lemma wf_ensure_breaker [keeps]:
  assumes "em_wf e"
  shows "em_wf (ensure_breaker now p e)"
proof (cases "em_circuitBreakers e p")
  case (Some b)
  with assms show ?thesis by (simp add: ensure_breaker_def)
next
  case None
  have "em_circuitBreakers e q \<noteq> Some (em_next e)" for q
    using em_wfD(3) [OF assms] by (auto simp: breakers_live_def)
  with None em_wfD [OF assms] show ?thesis
    by (auto simp: ensure_breaker_def em_wf_def breakers_live_def cb_put_def Let_def inj_on_def less_SucI
        split: if_splits)
qed

lemma wf_cb_put [keeps]: "em_wf e \<Longrightarrow> em_wf (cb_put b cb e)"
  by (auto simp: em_wf_def breakers_live_def cb_put_def)

lemma wf_forget_breaker [keeps]:
  "em_wf e \<Longrightarrow> em_wf (e\<lparr>em_circuitBreakers := (em_circuitBreakers e)(p := None)\<rparr>)"
  by (auto simp: em_wf_def breakers_live_def inj_on_def split: if_splits)

lemma wf_replaced [keeps]:
  "em_wf e \<Longrightarrow> reg_wf sm \<Longrightarrow> em_wf (e\<lparr>em_sessionManager := sm\<rparr>)"
  "em_wf e \<Longrightarrow> mr_wf mr \<Longrightarrow> em_wf (e\<lparr>em_methodRegistry := mr\<rparr>)"
  by (simp_all add: em_wf_def breakers_live_def)

subsection \<open>What a health check sees\<close>

definition is_registered :: "ext_manager \<Rightarrow> peer_id \<Rightarrow> bool" where
  "is_registered e p \<longleftrightarrow> reg_sessions (em_sessionManager e) p \<noteq> None"

definition breaker_open :: "ext_manager \<Rightarrow> peer_id \<Rightarrow> bool" where
  "breaker_open e p \<longleftrightarrow>
     (\<exists>b cb. em_circuitBreakers e p = Some b \<and> em_breakers e b = Some cb \<and> cb_state cb = StateOpen)"

definition method_count :: "ext_manager \<Rightarrow> peer_id \<Rightarrow> int" where
  "method_count e p =
     (case GetPeerMethods p (em_methodRegistry e) of None \<Rightarrow> 0 | Some ms \<Rightarrow> int (length ms))"

lemma HealthCheck_spec:
  assumes "em_wf e"
  shows "\<exists>h. HealthCheck now p e = Return h \<and> (hr_SessionHealthy h \<longleftrightarrow> is_registered e p) \<and>
    (hr_CircuitBreakerState h = StateOpen \<longleftrightarrow> breaker_open e p) \<and> hr_MethodCount h = method_count e p"
proof -
  have s: "\<exists>s. deref a (em_sessionManager e) = Return s" if "reg_sessions (em_sessionManager e) p = Some a" for a
    using reg_wf_entry [OF em_wfD(1) [OF assms] that] by (metis deref_Some)
  have b: "\<exists>cb. em_breakers e b = Some cb" if "em_circuitBreakers e p = Some b" for b
    using breaker_of [OF assms that] by metis
  show ?thesis
  proof (cases "reg_sessions (em_sessionManager e) p")
    case None
    with b show ?thesis
      by (cases "em_circuitBreakers e p"; cases "GetPeerMethods p (em_methodRegistry e)")
         (auto simp: HealthCheck_def Let_def Get_def cb_at_def CB_State_def is_registered_def breaker_open_def
            method_count_def)
  next
    case (Some a)
    with s b show ?thesis
      by (cases "em_circuitBreakers e p"; cases "GetPeerMethods p (em_methodRegistry e)")
         (auto simp: HealthCheck_def Let_def Get_def cb_at_def CB_State_def is_registered_def breaker_open_def
            method_count_def)
  qed
qed

definition healthy :: "ext_manager \<Rightarrow> peer_id \<Rightarrow> bool" where
  "healthy e p \<longleftrightarrow> is_registered e p \<and> \<not> breaker_open e p"

lemma healthy_loop_filter:
  assumes "em_wf e"
  shows "healthy_loop now e ps acc = Return (acc @ filter (healthy e) ps)"
proof (induction ps arbitrary: acc)
  case (Cons p ps)
  obtain h where "HealthCheck now p e = Return h" "hr_SessionHealthy h \<longleftrightarrow> is_registered e p"
    "hr_CircuitBreakerState h = StateOpen \<longleftrightarrow> breaker_open e p"
    using HealthCheck_spec [OF assms] by blast
  with Cons show ?case by (simp add: healthy_def)
qed simp

lemma FindHealthy_filter:
  "em_wf e \<Longrightarrow> FindHealthyPeersWithMethod now m e =
     Return (filter (healthy e) (methods.found m (em_methodRegistry e)))"
  by (simp add: FindHealthyPeersWithMethod_def Let_def healthy_loop_filter methods.found_def)

lemma ListHealthy_filter:
  assumes "em_wf e" and "go_range order (reg_sessions (em_sessionManager e))"
  shows "ListHealthyPeers now mds order e = Return (filter (healthy e) order)"
proof -
  let ?sm = "em_sessionManager e"
  let ?snap = "\<lambda>p. let a = the (reg_sessions ?sm p) in snapshot (mds a) (the (reg_heap ?sm a))"
  have list: "ListAll mds order ?sm = Return (map ?snap order)"
    using List_loop_spec [OF em_wfD(1) [OF assms(1)], of order mds] go_rangeD(2) [OF assms(2)]
    by (simp add: ListAll_def ListSessions_def)
  have "ss_PeerID (?snap p) = p" if "p \<in> set order" for p
  proof -
    from that obtain a where a: "reg_sessions ?sm p = Some a" using go_rangeD(2) [OF assms(2)] by auto
    obtain s where "reg_heap ?sm a = Some s" "ss_PeerID s = p"
      using reg_wf_entry [OF em_wfD(1) [OF assms(1)] a] by metis
    with a show ?thesis by (simp add: snapshot_def Let_def)
  qed
  then have "map ss_PeerID (map ?snap order) = order" by (simp add: map_idI)
  then show ?thesis by (simp add: ListHealthyPeers_def list healthy_loop_filter [OF assms(1)] del: map_map)
qed

subsection \<open>Removing a peer\<close>

lemma Ext_RemoveSession_registered:
  assumes "em_wf e" and "is_registered e p"
  obtains e' where "Ext_RemoveSession p e = Return (None, e')" and "em_wf e'"
    and "reg_sessions (em_sessionManager e') = (reg_sessions (em_sessionManager e))(p := None)"
    and "mr_peerMethods (em_methodRegistry e') = (mr_peerMethods (em_methodRegistry e))(p := None)"
    and "em_circuitBreakers e' = (em_circuitBreakers e)(p := None)"
    and "em_breakers e' = em_breakers e"
proof -
  from assms(2) obtain a where a: "reg_sessions (em_sessionManager e) p = Some a"
    by (auto simp: is_registered_def)
  obtain s where s: "reg_heap (em_sessionManager e) a = Some s"
    using reg_wf_entry [OF em_wfD(1) [OF assms(1)] a] by metis
  obtain mr where mr: "RemovePeer p (em_methodRegistry e) = Return mr" "mr_wf mr"
    "mr_peerMethods mr = (mr_peerMethods (em_methodRegistry e))(p := None)"
    by (rule RemovePeer_spec [OF em_wfD(2) [OF assms(1)]])
  let ?sm = "drop_closed p a s (em_sessionManager e)"
  let ?e = "e\<lparr>em_sessionManager := ?sm, em_methodRegistry := mr,
    em_circuitBreakers := (em_circuitBreakers e)(p := None)\<rparr>"
  have "reg_wf ?sm" by (rule wf_drop [OF em_wfD(1) [OF assms(1)] a s])
  then have "em_wf (e\<lparr>em_sessionManager := ?sm, em_methodRegistry := mr\<rparr>)"
    using assms(1) mr(2) by (simp add: em_wf_def breakers_live_def)
  from wf_forget_breaker [OF this, of p] have wf: "em_wf ?e" by simp
  have "Ext_RemoveSession p e = Return (None, ?e)"
    using Remove_registered [OF em_wfD(1) [OF assms(1)] a s] mr(1) by (simp add: Ext_RemoveSession_def Let_def)
  from that [OF this wf] mr(3) show ?thesis by simp
qed

lemma Ext_RemoveSession_unregistered:
  "\<not> is_registered e p \<Longrightarrow> Ext_RemoveSession p e = Return (Some ErrSessionNotFound, e)"
  by (simp add: is_registered_def Ext_RemoveSession_def Remove_def Let_def)

subsection \<open>Protected calls by a careful client\<close>

lemma Execute_quiet_frame:
  assumes "em_wf e" and "\<And>e1. snd (fn e1) = e1"
    and "em_circuitBreakers e p = Some b" and "p \<noteq> q"
    and "ExecuteWithCircuitBreaker t1 t2 q fn e = (r, e')"
  shows "em_breakers e' b = em_breakers e b \<and> em_circuitBreakers e' = em_circuitBreakers e \<and> em_wf e'"
proof (cases "em_circuitBreakers e q")
  case None
  with assms(2) [of e] assms(1,5) show ?thesis
    by (cases "fn e") (auto simp: ExecuteWithCircuitBreaker_def GetCircuitBreaker_def)
next
  case (Some bq)
  have ne: "bq \<noteq> b" using breakers_apart [OF assms(1) assms(3)] Some assms(4) by auto
  obtain cb where cb: "em_breakers e bq = Some cb" using breaker_of [OF assms(1) Some] by metis
  have "\<exists>cb'. e' = cb_put bq cb' e"
    using assms(2) [of "cb_put bq (snd (Allow (fst t1) (snd t1) cb)) e"] assms(5) Some cb
    by (auto simp: ExecuteWithCircuitBreaker_def GetCircuitBreaker_def cb_put_def
        split: prod.splits bool.splits outcome.splits option.splits)
  with ne assms(1) wf_cb_put show ?thesis by (auto simp: cb_put_def)
qed

text \<open>
  A client that picks its targets with \<^verbatim>\<open>FindHealthyPeersWithMethod\<close> and whose calls do not
  touch the manager, amid updates of methods, new sessions and whatever happens to the session
  registry.
\<close>

inductive careful_step :: "ext_manager \<Rightarrow> ext_manager \<Rightarrow> bool" where
  Call: "FindHealthyPeersWithMethod now m e = Return ps \<Longrightarrow> q \<in> set ps \<Longrightarrow> (\<And>e1. snd (fn e1) = e1) \<Longrightarrow>
    ExecuteWithCircuitBreaker t1 t2 q fn e = (r, e') \<Longrightarrow> careful_step e e'"
| Methods: "Ext_UpdateMethods now unix q ms e = Return (err, e') \<Longrightarrow> careful_step e e'"
| Session: "reg_wf sm \<Longrightarrow> careful_step e (ensure_breaker now q (e\<lparr>em_sessionManager := sm\<rparr>))"
| Sessions: "reg_wf sm \<Longrightarrow> careful_step e (e\<lparr>em_sessionManager := sm\<rparr>)"

lemma Ext_UpdateMethods_frame:
  assumes "em_wf e" and "Ext_UpdateMethods now unix q ms e = Return (err, e')"
  shows "em_wf e' \<and> em_breakers e' = em_breakers e \<and> em_circuitBreakers e' = em_circuitBreakers e"
proof (cases "Get q (em_sessionManager e)")
  case None
  with assms show ?thesis by (simp add: Ext_UpdateMethods_def)
next
  case (Some a)
  with assms(2) obtain v mr where "UpdateMethods now unix q ms (em_methodRegistry e) = Return (v, mr)"
    "e' = e\<lparr>em_methodRegistry := mr\<rparr>"
    by (auto simp: Ext_UpdateMethods_def outcome_simps split: prod.splits)
  with Update_steps_wf [OF em_wfD(2) [OF assms(1)]] wf_replaced(2) [OF assms(1)] show ?thesis by simp
qed

lemma ensure_breaker_frame:
  assumes "em_wf e" and "em_circuitBreakers e p = Some b"
  shows "em_circuitBreakers (ensure_breaker now q e) p = Some b \<and> em_breakers (ensure_breaker now q e) b = em_breakers e b"
proof -
  have "b < em_next e" using breaker_of [OF assms] by metis
  with assms(2) show ?thesis by (auto simp: ensure_breaker_def cb_put_def Let_def split: option.splits)
qed

lemma careful_step_keeps_open:
  assumes "careful_step e e'" and "em_wf e" and "em_circuitBreakers e p = Some b"
    and "em_breakers e b = Some cb" and "cb_state cb = StateOpen"
  shows "em_wf e' \<and> em_circuitBreakers e' p = Some b \<and> em_breakers e' b = Some cb"
  using assms
proof (cases rule: careful_step.cases)
  case (Call now m ps q fn t1 t2 r)
  have "breaker_open e p" using assms(3-5) by (auto simp: breaker_open_def)
  with Call(1,2) have "p \<noteq> q" by (auto simp: FindHealthy_filter [OF assms(2)] healthy_def)
  from Execute_quiet_frame [OF assms(2) Call(3) assms(3) this Call(4)] assms(3,4) show ?thesis by simp
next
  case (Methods now unix q ms err)
  with Ext_UpdateMethods_frame [OF assms(2)] assms(3,4) show ?thesis by simp
next
  case (Session sm now q)
  have "em_wf (e\<lparr>em_sessionManager := sm\<rparr>)" by (rule wf_replaced(1) [OF assms(2) Session(2)])
  with Session(1) ensure_breaker_frame [OF this, of p b now q] wf_ensure_breaker [OF this] assms(3,4)
  show ?thesis by simp
next
  case (Sessions sm)
  with wf_replaced(1) [OF assms(2) Sessions(2)] assms(3,4) show ?thesis by simp
qed

lemma careful_steps_keep_open:
  assumes "careful_step\<^sup>*\<^sup>* e e'" and "em_wf e" and "em_circuitBreakers e p = Some b"
    and "em_breakers e b = Some cb" and "cb_state cb = StateOpen"
  shows "em_wf e' \<and> em_circuitBreakers e' p = Some b \<and> em_breakers e' b = Some cb"
  using assms(1)
proof (induction rule: rtranclp_induct)
  case base
  with assms show ?case by simp
next
  case (step e1 e2)
  with careful_step_keeps_open [OF step(2)] assms(5) show ?case by blast
qed

subsection \<open>Properties\<close>


definition demo_ext :: ext_manager where
  "demo_ext = ensure_breaker 0 ''node-a''
     (NewExtendedSessionManager demo_two
        \<lparr>mr_peerMethods = [''node-a'' \<mapsto> \<lparr>pc_PeerID = ''node-a'', pc_Methods = [plain_method ''m''], pc_Version = 0, pc_UpdatedAt = 0\<rparr>],
         mr_methodPeers = [''m'' \<mapsto> [''node-a'']]\<rparr> None)"

lemma demo_ext_wf: "em_wf demo_ext"
  unfolding demo_ext_def
  by (intro wf_ensure_breaker em_wf_New demo_two_wf)
     (auto simp: mr_wf_def index_tidy_def map_get_def offers_def plain_method_def)

lemma demo_ext_breaker:
  "em_circuitBreakers demo_ext ''node-a'' = Some 0"
  "em_breakers demo_ext 0 = Some (OnStateChange True (NewCircuitBreaker 0 default_cb_config))"
  "em_sessionManager demo_ext = demo_two"
  by (simp_all add: demo_ext_def ensure_breaker_def NewExtendedSessionManager_def cb_put_def Let_def)




text \<open>
  \<^verbatim>\<open>RemoveSession\<close> of a registered peer drops all three records of it and nothing of any other
  peer. But it first asks the session registry: for a peer whose session is gone already, because
  its handler deregistered it or the cleanup dropped it, it reports \<^verbatim>\<open>ErrSessionNotFound\<close> and
  leaves the peer's methods and breaker in place, so that they can never be removed.
\<close>

lemma RemoveSession_all_or_nothing:
  assumes "em_wf e"
  shows "if is_registered e p
    then \<exists>e'. Ext_RemoveSession p e = Return (None, e') \<and> \<not> is_registered e' p \<and>
      GetPeerMethods p (em_methodRegistry e') = None \<and> (\<forall>m. p \<notin> set (methods.found m (em_methodRegistry e'))) \<and>
      GetCircuitBreaker p e' = None \<and>
      (\<forall>q. q \<noteq> p \<longrightarrow> is_registered e' q = is_registered e q \<and>
         GetPeerMethods q (em_methodRegistry e') = GetPeerMethods q (em_methodRegistry e) \<and>
         GetCircuitBreaker q e' = GetCircuitBreaker q e)
    else Ext_RemoveSession p e = Return (Some ErrSessionNotFound, e)"
proof (cases "is_registered e p")
  case True
  obtain e' where e': "Ext_RemoveSession p e = Return (None, e')" "em_wf e'"
    "reg_sessions (em_sessionManager e') = (reg_sessions (em_sessionManager e))(p := None)"
    "mr_peerMethods (em_methodRegistry e') = (mr_peerMethods (em_methodRegistry e))(p := None)"
    "em_circuitBreakers e' = (em_circuitBreakers e)(p := None)"
    by (rule Ext_RemoveSession_registered [OF assms True])
  have "p \<notin> set (methods.found m (em_methodRegistry e'))" for m
    using methods.found_iff [OF em_wfD(2) [OF e'(2)]] e'(4) by (simp add: offers_def)
  with True e' show ?thesis by (simp add: is_registered_def GetPeerMethods_def GetCircuitBreaker_def)
next
  case False
  with Ext_RemoveSession_unregistered show ?thesis by simp
qed

lemma RemoveSession_all_or_nothing_witness:
  "(\<exists>e'. Ext_RemoveSession ''node-a'' demo_ext = Return (None, e') \<and> GetCircuitBreaker ''node-a'' e' = None) \<and>
   Ext_RemoveSession ''node-x'' demo_ext = Return (Some ErrSessionNotFound, demo_ext)"
proof -
  have "is_registered demo_ext ''node-a''" "\<not> is_registered demo_ext ''node-x''"
    unfolding is_registered_def demo_ext_breaker(3) demo_two_unfold by simp_all
  with RemoveSession_all_or_nothing [OF demo_ext_wf, of "''node-a''"]
    RemoveSession_all_or_nothing [OF demo_ext_wf, of "''node-x''"]
  show ?thesis by auto
qed

end
