(* ===== verification/Gateway_Connections.thy ===== *)
theory Gateway_Connections
  imports Reverse_Gateway
begin

section \<open>The connections of the gateway (pkg/reverse/gateway.go)\<close>

text \<open>
  Histories of a gateway: calls, streams, connections handed to callers, and what the callers do with
  them. The claim is about who has to close a connection. Calls that overlap add and take
  connections of their own, in an order that makes no difference to the multiset of the open ones.
\<close>

datatype ('str, 'cc, 'st) gw_op =
    GwInvoke "('str, 'cc) call_env" gateway go_ctx peer_id invoke_request registry
  | GwStream "('str, 'cc) call_env" "'cc \<Rightarrow> go_ctx \<Rightarrow> 'st result" gateway go_ctx peer_id registry
  | GwDial "('str, 'cc) call_env" gateway go_ctx peer_id registry
  | GwCleanup 'cc   \<comment> \<open>a caller calls the cleanup function of its stream\<close>
  | GwClose 'cc     \<comment> \<open>a caller closes a connection it dialled\<close>

datatype ('cc, 'st) gw_answer =
    Answered "invoke_response result" | GaveStream 'st 'cc | GaveConn 'cc | GaveNothing go_error | Gone 'cc

fun gw_step ::
  "('str, 'cc, 'st) gw_op \<Rightarrow> 'cc multiset \<Rightarrow> (('cc, 'st) gw_answer \<times> 'cc multiset) outcome" where
  "gw_step (GwInvoke env g ctx p req st) conns =
     bind_outcome (Gateway_Invoke_conns env g ctx p req st conns) (\<lambda>(r, conns1). Return (Answered r, conns1))"
| "gw_step (GwStream env open_stream g ctx p st) conns =
     bind_outcome (Gateway_InvokeStream env open_stream g ctx p st conns) (\<lambda>(r, conns1).
       Return (case r of Inl e \<Rightarrow> GaveNothing e | Inr (stream, conn) \<Rightarrow> GaveStream stream conn, conns1))"
| "gw_step (GwDial env g ctx p st) conns =
     bind_outcome (Gateway_Dial env g ctx p st conns) (\<lambda>(r, conns1).
       Return (case r of Inl e \<Rightarrow> GaveNothing e | Inr conn \<Rightarrow> GaveConn conn, conns1))"
| "gw_step (GwCleanup conn) conns = Return (Gone conn, stream_cleanup conn conns)"
| "gw_step (GwClose conn) conns = Return (Gone conn, conn_Close conn conns)"

fun gw_run ::
  "('str, 'cc, 'st) gw_op list \<Rightarrow> 'cc multiset \<Rightarrow> (('cc, 'st) gw_answer list \<times> 'cc multiset) outcome" where
  "gw_run [] conns = Return ([], conns)"
| "gw_run (op # ops) conns =
     bind_outcome (gw_step op conns) (\<lambda>(a, conns1).
       bind_outcome (gw_run ops conns1) (\<lambda>(as, conns2). Return (a # as, conns2)))"

text \<open>What the callers hold, read off the answers alone.\<close>

fun held_after :: "('cc, 'st) gw_answer \<Rightarrow> 'cc multiset \<Rightarrow> 'cc multiset" where
  "held_after (GaveStream stream conn) h = add_mset conn h"
| "held_after (GaveConn conn) h = add_mset conn h"
| "held_after (Gone conn) h = h - {#conn#}"
| "held_after (Answered r) h = h"
| "held_after (GaveNothing e) h = h"

fun held :: "('cc, 'st) gw_answer list \<Rightarrow> 'cc multiset \<Rightarrow> 'cc multiset" where
  "held [] h = h"
| "held (a # as) h = held as (held_after a h)"

text \<open>What the claim asks of the registry and the library, and what it says of each answer.\<close>

fun sound_op :: "('str, 'cc, 'st) gw_op \<Rightarrow> bool" where
  "sound_op (GwInvoke env g ctx p req st) \<longleftrightarrow> reg_wf st \<and> dial_returns env \<and> dial_blocks env"
| "sound_op (GwStream env open_stream g ctx p st) \<longleftrightarrow> reg_wf st \<and> dial_returns env \<and> dial_blocks env"
| "sound_op (GwDial env g ctx p st) \<longleftrightarrow> reg_wf st \<and> dial_returns env \<and> dial_blocks env"
| "sound_op _ \<longleftrightarrow> True"

definition dial_failure :: "invoke_request \<Rightarrow> invoke_response \<Rightarrow> bool" where
  "dial_failure req resp \<longleftrightarrow>
     \<not> ir_Success resp \<and> map_option ed_Code (ir_Error resp) = Some ''DIAL_FAILED'' \<and>
     ir_PeerId resp = rq_PeerId req \<and> ir_Method resp = rq_Method req \<and> ir_CorrelationId resp = ''''"

fun right_answer :: "('str, 'cc, 'st) gw_op \<Rightarrow> ('cc, 'st) gw_answer \<Rightarrow> bool" where
  "right_answer (GwInvoke env g ctx p req st) a \<longleftrightarrow>
     (\<exists>resp. a = Answered (Inr resp) \<and> (offline st p \<longrightarrow> dial_failure req resp))"
| "right_answer (GwStream env open_stream g ctx p st) a \<longleftrightarrow>
     (\<exists>e. a = GaveNothing e) \<or> (\<exists>stream conn. a = GaveStream stream conn \<and> \<not> offline st p)"
| "right_answer (GwDial env g ctx p st) a \<longleftrightarrow>
     (\<exists>e. a = GaveNothing e) \<or> (\<exists>conn. a = GaveConn conn \<and> \<not> offline st p)"
| "right_answer (GwCleanup conn) a \<longleftrightarrow> a = Gone conn"
| "right_answer (GwClose conn) a \<longleftrightarrow> a = Gone conn"

subsection \<open>Lemmas\<close>

lemma DialPeer_conns_cases:
  assumes "reg_wf st" and "dial_returns env" and "dial_blocks env"
  obtains (Failed) e where "DialPeer_conns env d ctx p st conns = Return (Inl e, conns)"
  | (Dialled) conn where "DialPeer_conns env d ctx p st conns = Return (Inr conn, add_mset conn conns)"
      and "\<not> offline st p"
proof -
  obtain r where r: "DialPeer env d ctx p st = Return r" using DialPeer_returns [OF assms(1,2)] .
  show ?thesis
  proof (cases r)
    case (Inl e)
    with r show ?thesis by (intro Failed) (simp add: DialPeer_conns_def)
  next
    case (Inr conn)
    then have "\<not> offline st p" using DialPeer_offline [OF assms(1,3), of p d ctx] r by auto
    with Inr r show ?thesis by (intro Dialled) (simp_all add: DialPeer_conns_def)
  qed
qed

text \<open>The answer does not depend on what is open, and the call leaves nothing open.\<close>

lemma Gateway_Invoke_conns_keeps:
  assumes "reg_wf st" and "dial_returns env" and "dial_blocks env"
  shows "\<exists>resp. Gateway_Invoke_conns env g ctx p req st conns = Return (Inr resp, conns) \<and>
    (offline st p \<longrightarrow> dial_failure req resp)"
proof -
  let ?dial = "DialPeer_conns env (gw_dialer g) (ensureDeadline (ce_start env) g ctx (rq_TimeoutMs req)) p st conns"
  from assms show ?thesis
  proof (cases rule: DialPeer_conns_cases
      [of st env "gw_dialer g" "ensureDeadline (ce_start env) g ctx (rq_TimeoutMs req)" p conns])
    case (Failed e)
    then show ?thesis by (simp add: Gateway_Invoke_conns_def Let_def dial_failure_def failed_response_def)
  next
    case (Dialled conn)
    then show ?thesis
      by (auto simp: Gateway_Invoke_conns_def Let_def conn_Close_def split: sum.split option.split prod.split)
  qed
qed

lemma gw_step_right:
  assumes "sound_op op"
  shows "\<exists>a. gw_step op conns = Return (a, held_after a conns) \<and> right_answer op a"
proof (cases op)
  case (GwInvoke env g ctx p req st)
  with assms Gateway_Invoke_conns_keeps [of st env g ctx p req conns] show ?thesis by auto
next
  case (GwStream env open_stream g ctx p st)
  with assms have "reg_wf st" "dial_returns env" "dial_blocks env" by simp_all
  then show ?thesis
  proof (cases rule: DialPeer_conns_cases [of st env "gw_dialer g" ctx p conns])
    case (Failed e)
    with GwStream show ?thesis by (simp add: Gateway_InvokeStream_def)
  next
    case (Dialled conn)
    with GwStream show ?thesis
      by (cases "open_stream conn ctx") (simp_all add: Gateway_InvokeStream_def conn_Close_def)
  qed
next
  case (GwDial env g ctx p st)
  with assms have "reg_wf st" "dial_returns env" "dial_blocks env" by simp_all
  then show ?thesis
    by (cases rule: DialPeer_conns_cases [of st env "gw_dialer g" ctx p conns])
      (simp_all add: GwDial Gateway_Dial_def)
next
  case (GwCleanup conn)
  then show ?thesis by (simp add: stream_cleanup_def conn_Close_def)
next
  case (GwClose conn)
  then show ?thesis by (simp add: conn_Close_def)
qed

subsection \<open>Property\<close>

text \<open>
  C29. The gateway leaks no connection. In any history of unary calls, streams and dialled
  connections, on any registries and with whatever the library answers, nothing panics and the
  connections that are open are exactly those that callers were handed and have not closed: a
  unary call closes the one it dialled, also when the call over it fails, and so does a stream that
  cannot be made. Every unary call gets a response and never an error, for a peer that is offline
  the failure \<^verbatim>\<open>DIAL_FAILED\<close>, whose correlation id is empty whatever the request's was; and only a peer
  that is online is given a stream or a connection.
\<close>

theorem gateway_closes_what_it_keeps:
  assumes "\<forall>op \<in> set ops. sound_op op"
  shows "\<exists>answers. gw_run ops conns = Return (answers, held answers conns) \<and> list_all2 right_answer ops answers"
  using assms
proof (induction ops arbitrary: conns)
  case Nil
  then show ?case by simp
next
  case (Cons op ops)
  then obtain a where a: "gw_step op conns = Return (a, held_after a conns)" "right_answer op a"
    using gw_step_right [of op conns] by auto
  from Cons obtain as where "gw_run ops (held_after a conns) = Return (as, held as (held_after a conns))"
      "list_all2 right_answer ops as"
    by fastforce
  with a show ?case by (intro exI [of _ "a # as"]) simp
qed

text \<open>
  A node that answers, whose connection is the number of the call: a unary call, a stream and a
  dialled connection that is closed leave the stream's connection open.
\<close>

definition numbered_call :: "nat \<Rightarrow> (unit, nat) call_env" where
  "numbered_call n = \<lparr>ce_race = (\<lambda>_. StreamDone (Inr ())),
     ce_grpc_Dial = (\<lambda>ctx t f. bind_outcome (f ctx) (\<lambda>r. Return (case r of Inl e \<Rightarrow> Inl e | Inr _ \<Rightarrow> Inr n))),
     ce_client_Invoke = (\<lambda>conn ctx req. Inl context_DeadlineExceeded),
     ce_start = 0, ce_dialing = 0, ce_finish = 5 * millisecond, ce_Error = (\<lambda>_. ''late''),
     ce_FromError = (\<lambda>_. None), ce_Code_String = (\<lambda>_. ''Unknown'')\<rparr>"

lemma numbered_call_dials: "dial_returns (numbered_call n)" "dial_blocks (numbered_call n)"
proof -
  show "dial_returns (numbered_call n)"
    unfolding dial_returns_def numbered_call_def returns_iff by (auto simp: bind_outcome_Return_iff)
  have "\<exists>e. ce_grpc_Dial (numbered_call n) ctx t f = Return (Inl e)"
    if fails: "\<forall>c. \<exists>e. f c = Return (Inl e)" for ctx t and f :: "go_ctx \<Rightarrow> unit result outcome"
  proof -
    obtain e where "f ctx = Return (Inl e)" using fails by blast
    then show ?thesis by (simp add: numbered_call_def)
  qed
  then show "dial_blocks (numbered_call n)" by (simp add: dial_blocks_def)
qed

lemma numbered_call_dialled:
  "DialPeer_conns (numbered_call n) d ctx ''node-a'' demo_two conns = Return (Inr n, add_mset n conns)"
  unfolding demo_two_unfold
  by (simp add: DialPeer_conns_def DialPeer_def DialContext_def OpenStream_def numbered_call_def new_session_def deref_def)

definition demo_calls :: "(unit, nat, unit) gw_op list" where
  "demo_calls =
     [GwInvoke (numbered_call 1) NewGateway \<lparr>ctx_deadline = None\<rparr> ''node-a'' demo_request demo_two,
      GwStream (numbered_call 2) (\<lambda>_ _. Inr ()) NewGateway \<lparr>ctx_deadline = None\<rparr> ''node-a'' demo_two,
      GwDial (numbered_call 3) NewGateway \<lparr>ctx_deadline = None\<rparr> ''node-a'' demo_two,
      GwClose 3]"

theorem gateway_closes_what_it_keeps_witness:
  "\<exists>answers. gw_run demo_calls {#} = Return (answers, {#2#}) \<and> list_all2 right_answer demo_calls answers"
proof -
  have "\<forall>op \<in> set demo_calls. sound_op op"
    by (simp add: demo_calls_def numbered_call_dials demo_two_wf)
  then obtain answers where run: "gw_run demo_calls {#} = Return (answers, held answers {#})"
      "list_all2 right_answer demo_calls answers"
    using gateway_closes_what_it_keeps by blast
  have "\<exists>as. gw_run demo_calls {#} = Return (as, {#2#})"
    unfolding demo_calls_def
    by (simp add: Gateway_Invoke_conns_def Gateway_InvokeStream_def Gateway_Dial_def numbered_call_dialled
        Let_def conn_Close_def outcome_simps del: One_nat_def split: prod.split)
  with run show ?thesis by auto
qed

end
