(* ===== verification/Tunnel_Silence.thy ===== *)
theory Tunnel_Silence
  imports Tunnel_Properties
begin

section \<open>Clients that say nothing (pkg/tunnel/tunnel.go)\<close>

text \<open>
  Before it has a control stream a handler blocks in two calls that only the client or its network
  can end: the TLS handshake and \<^verbatim>\<open>AcceptStream\<close>. Neither has a deadline, and neither looks at the
  server's context. The handshake frame, which comes after them, is read under the control stream's
  deadline.
\<close>

fun waits_for_client :: "phase \<Rightarrow> bool" where
  "waits_for_client Accepted = True"
| "waits_for_client (Multiplexed y) = True"
| "waits_for_client _ = False"

text \<open>The blocking call of the handler of \<open>c\<close> returns, with whatever result.\<close>

definition client_answers :: "conn \<Rightarrow> tunnel \<Rightarrow> tunnel \<Rightarrow> bool" where
  "client_answers c s s' \<longleftrightarrow>
     (\<exists>r. tn_conns s c = Some Accepted \<and> s' = tls_handshake r c s) \<or>
     (\<exists>w y. tn_conns s c = Some (Multiplexed y) \<and> s' = accept_control w c y s)"

lemma client_answers_moves: "client_answers c s s' \<Longrightarrow> tn_conns s' c \<noteq> tn_conns s c"
  by (auto simp: client_answers_def tls_handshake_def accept_control_def split: option.splits sum.splits)

definition silent_step :: "'v tunnel_env \<Rightarrow> conn \<Rightarrow> tunnel \<Rightarrow> tunnel \<Rightarrow> bool" where
  "silent_step env c s s' \<longleftrightarrow> tunnel_step env s s' \<and> \<not> client_answers c s s'"

lemma conns_absorb:
  "tn_conns s c = x \<Longrightarrow> (\<And>s'. r = Return s' \<Longrightarrow> tn_conns s' c = x) \<Longrightarrow> tn_conns (absorb s r) c = x"
  by (cases r) simp_all

lemma enroll_conns:
  assumes "enroll now d y cs h s = Return s'" and "d \<noteq> c"
  shows "tn_conns s' c = tn_conns s c"
proof -
  obtain r st where "RegisterSession now (hs_NodeID h) (Some h) (Some y) (tn_registry s) = Return (r, st)"
    using assms(1) by (auto simp: enroll_def outcome_simps)
  with assms show ?thesis by (cases r) (auto simp: enroll_def)
qed

text \<open>No other step of the server moves the handler on, the shutdown and the loss of its session included.\<close>

lemma waiting_step:
  "tunnel_step env s s' \<Longrightarrow> counted s \<Longrightarrow> tn_conns s c = Some ph \<Longrightarrow> waits_for_client ph \<Longrightarrow>
     client_answers c s s' \<or> tn_conns s' c = Some ph"
proof (induction rule: tunnel_step.induct)
  case (Accept s)
  then have "c \<noteq> tn_next s" by (auto simp: counted_def)
  with Accept show ?case by (simp add: accept_conn_def)
next
  case (TLS s d r)
  show ?case
  proof (cases "d = c")
    case True
    then show ?thesis using TLS.hyps by (auto simp: client_answers_def)
  qed (use TLS.prems in \<open>simp add: tls_handshake_def split: option.split\<close>)
next
  case (Mux s d r)
  then have "d \<noteq> c" by auto
  with Mux.prems show ?case by (simp add: yamux_Server_def split: option.split)
next
  case (Control s d y w)
  show ?case
  proof (cases "d = c")
    case True
    then show ?thesis using Control.hyps by (auto simp: client_answers_def)
  qed (use Control.prems in \<open>simp add: accept_control_def split: sum.split\<close>)
next
  case (Admit s d y cs now unix)
  then have "d \<noteq> c" by auto
  with Admit.prems show ?case by (simp add: admit_def split: prod.split sum.split option.split)
next
  case (Enroll s d y cs h now)
  then have "d \<noteq> c" by auto
  with Enroll.prems show ?case by (intro disjI2 conns_absorb) (simp_all add: enroll_conns)
next
  case (Turn ph' s d sv now)
  then have "d \<noteq> c" by auto
  with Turn.prems show ?case by (intro disjI2 conns_absorb) (auto simp: reader_turn_def outcome_simps)
next
  case (Abort ph' s d sv e)
  then have "d \<noteq> c" by auto
  with Abort.prems show ?case by (simp add: reader_abort_def)
next
  case (Wake s d sv w)
  then have "d \<noteq> c" by auto
  with Wake.prems show ?case by (simp add: wake_def)
next
  case (Leave s d sv)
  then have "d \<noteq> c" by auto
  with Leave.prems show ?case by (intro disjI2 conns_absorb) (auto simp: deregister_def outcome_simps)
next
  case (Elsewhere f s now)
  then show ?case by (intro disjI2 conns_absorb) (auto simp: outcome_simps)
qed (simp_all add: accept_failed_def stop_signal_def)

lemma waiting_steps:
  assumes "(silent_step env c)\<^sup>*\<^sup>* s s'" and "tunnel_inv env s" and "tn_conns s c = Some ph" and "waits_for_client ph"
  shows "tunnel_inv env s' \<and> tn_conns s' c = Some ph"
  using assms(1)
proof (induction rule: rtranclp_induct)
  case base
  with assms show ?case by simp
next
  case (step s1 s2)
  then show ?case
    using waiting_step [of env s1 s2 c ph] tunnel_step_inv [of env s1 s2] tunnel_invD(6) [of env s1] assms(4)
    by (auto simp: silent_step_def)
qed



end
