(* ===== verification/Stream_Race.thy ===== *)
theory Stream_Race
  imports Session_Registry
begin

section \<open>Opening a stream under a context (pkg/registry/registry.go)\<close>

text \<open>
  The end of \<^verbatim>\<open>OpenStream\<close> step by step: a goroutine calls the library's \<^verbatim>\<open>OpenStream\<close>, sets the
  variables \<^verbatim>\<open>stream\<close> and \<^verbatim>\<open>err\<close> and closes \<^verbatim>\<open>done\<close>, while the caller waits in a \<^verbatim>\<open>select\<close> for
  \<^verbatim>\<open>done\<close> or the context. The steps of the two, of the context's owner and of the peer's session
  interleave. \<open>OpenStream\<close> of the session registry has the outcome of this race as an argument.
\<close>

record 'str race =
  or_done :: bool                          \<comment> \<open>the channel \<^verbatim>\<open>done\<close> is closed\<close>
  or_result :: "'str result option"        \<comment> \<open>what the goroutine put into \<^verbatim>\<open>stream, err\<close>\<close>
  or_ctx :: "go_error option"              \<comment> \<open>\<^verbatim>\<open>ctx.Err()\<close>, once the context is done\<close>
  or_answer :: "'str result option"        \<comment> \<open>what the call returned\<close>
  or_open :: "'str set"                    \<comment> \<open>the streams that are open on the session\<close>
  or_session_closed :: bool

definition race_start :: "'str set \<Rightarrow> 'str race" where
  "race_start opened =
     \<lparr>or_done = False, or_result = None, or_ctx = None, or_answer = None, or_open = opened,
      or_session_closed = False\<rparr>"

definition goroutine_opens :: "'str result \<Rightarrow> 'str race \<Rightarrow> 'str race" where
  "goroutine_opens r s =
     s\<lparr>or_result := Some r, or_done := True,
       or_open := (case r of Inl e \<Rightarrow> or_open s | Inr str \<Rightarrow> insert str (or_open s))\<rparr>"

definition select_done :: "'str race \<Rightarrow> 'str race" where
  "select_done s = s\<lparr>or_answer := or_result s\<rparr>"

definition select_ctx :: "go_error \<Rightarrow> 'str race \<Rightarrow> 'str race" where
  "select_ctx e s = s\<lparr>or_answer := Some (Inl e)\<rparr>"

text \<open>
  A stream the library makes is a new one, and none is made on a closed session. Only who holds a
  stream closes it: the caller it was returned to, or the session when it closes.
\<close>

inductive race_step :: "'str race \<Rightarrow> 'str race \<Rightarrow> bool" where
  Opens: "\<not> or_done s \<Longrightarrow> (\<And>str. r = Inr str \<Longrightarrow> str \<notin> or_open s \<and> \<not> or_session_closed s) \<Longrightarrow>
    race_step s (goroutine_opens r s)"
| CtxDone: "or_ctx s = None \<Longrightarrow> race_step s (s\<lparr>or_ctx := Some e\<rparr>)"
| TakeDone: "or_answer s = None \<Longrightarrow> or_done s \<Longrightarrow> race_step s (select_done s)"
| TakeCtx: "or_answer s = None \<Longrightarrow> or_ctx s = Some e \<Longrightarrow> race_step s (select_ctx e s)"
| CallerCloses: "or_answer s = Some (Inr str) \<Longrightarrow> race_step s (s\<lparr>or_open := or_open s - {str}\<rparr>)"
| SessionCloses: "race_step s (s\<lparr>or_open := {}, or_session_closed := True\<rparr>)"

abbreviation race_steps :: "'str race \<Rightarrow> 'str race \<Rightarrow> bool" where
  "race_steps \<equiv> race_step\<^sup>*\<^sup>*"

inductive_cases race_stepE: "race_step s s'"

lemmas race_defs = goroutine_opens_def select_done_def select_ctx_def

subsection \<open>What the race keeps\<close>

definition race_inv :: "'str race \<Rightarrow> bool" where
  "race_inv s \<longleftrightarrow>
     or_done s = (or_result s \<noteq> None) \<and>
     (\<forall>r. or_answer s = Some r \<longrightarrow> or_result s = Some r \<or> (\<exists>e. or_ctx s = Some e \<and> r = Inl e))"

lemma race_inv_start: "race_inv (race_start opened)"
  by (simp add: race_inv_def race_start_def)

lemma race_inv_step: "race_step s s' \<Longrightarrow> race_inv s \<Longrightarrow> race_inv s'"
  by (elim race_stepE) (auto simp: race_inv_def race_defs)

lemma race_inv_steps: "race_steps s s' \<Longrightarrow> race_inv s \<Longrightarrow> race_inv s'"
  by (induction rule: rtranclp_induct) (blast intro: race_inv_step)+

lemma reachable_race_inv: "race_steps (race_start opened) s \<Longrightarrow> race_inv s"
  using race_inv_steps race_inv_start by blast

text \<open>What is settled stays settled: the answer, and a stream that was made but not returned.\<close>

definition abandoned :: "'str \<Rightarrow> 'str race \<Rightarrow> bool" where
  "abandoned str s \<longleftrightarrow> or_result s = Some (Inr str) \<and> (\<exists>e. or_answer s = Some (Inl e)) \<and>
     (or_session_closed s \<or> str \<in> or_open s)"

lemma abandoned_step: "race_step s s' \<Longrightarrow> race_inv s \<Longrightarrow> abandoned str s \<Longrightarrow> abandoned str s'"
  by (elim race_stepE) (auto simp: abandoned_def race_inv_def race_defs)

lemma abandoned_steps:
  "race_steps s s' \<Longrightarrow> race_inv s \<Longrightarrow> abandoned str s \<Longrightarrow> race_inv s' \<and> abandoned str s'"
  by (induction rule: rtranclp_induct) (blast intro: race_inv_step abandoned_step)+

text \<open>Until the call has answered, a stream that was made is open as long as its session is.\<close>

definition pending :: "'str race \<Rightarrow> bool" where
  "pending s \<longleftrightarrow> (\<forall>str. or_result s = Some (Inr str) \<longrightarrow> or_answer s \<noteq> Some (Inr str) \<longrightarrow>
     or_session_closed s \<or> str \<in> or_open s)"

lemma pending_step: "race_step s s' \<Longrightarrow> race_inv s \<Longrightarrow> pending s \<Longrightarrow> pending s'"
  by (elim race_stepE) (auto simp: pending_def race_inv_def race_defs)

lemma reachable_pending: "race_steps (race_start opened) s \<Longrightarrow> race_inv s \<and> pending s"
proof (induction rule: rtranclp_induct)
  case base
  show ?case using race_inv_start by (simp add: pending_def) (simp add: race_start_def)
next
  case (step s1 s2)
  then show ?case by (blast intro: race_inv_step pending_step)
qed

subsection \<open>The race and the function\<close>

definition connected :: "peer_id \<Rightarrow> registry \<Rightarrow> bool" where
  "connected p st \<longleftrightarrow>
     (\<exists>a s. reg_sessions st p = Some a \<and> reg_heap st a = Some s \<and> ss_Connected s \<and> ss_Session s \<noteq> None)"

lemma OpenStream_connected:
  "connected p st \<Longrightarrow> OpenStream race p st = Return (case race of StreamDone r \<Rightarrow> r | ContextDone e \<Rightarrow> Inl e)"
  by (auto simp: connected_def OpenStream_def deref_def)

lemma answers_are_races:
  assumes "race_inv s" and "or_answer s = Some r" and "connected p st"
  shows "\<exists>race. OpenStream race p st = Return r"
proof -
  from assms(1,2) consider "or_result s = Some r" | e where "r = Inl e"
    by (auto simp: race_inv_def)
  then show ?thesis
  proof cases
    case 1
    then show ?thesis by (intro exI [of _ "StreamDone r"]) (simp add: OpenStream_connected [OF assms(3)])
  next
    case 2
    then show ?thesis by (intro exI [of _ "ContextDone e"]) (simp add: OpenStream_connected [OF assms(3)])
  qed
qed

subsection \<open>Property\<close>

text \<open>
  C26. The race inside \<^verbatim>\<open>OpenStream\<close>, in any interleaving. For a connected peer the call answers, as
  soon as the library has answered or the context is done, what one outcome of the race gives. If
  it returned a stream, this is the stream that was made, and the caller can close it. But when the
  context won and the library makes, or had already made, a stream, nobody holds that stream: it
  stays open for as long as the session lives, whatever happens.
\<close>

theorem OpenStream_abandons_streams:
  assumes "race_steps (race_start opened) s" and "connected p st"
  shows "(or_answer s = None \<and> (or_done s \<or> or_ctx s \<noteq> None) \<longrightarrow> (\<exists>s'. race_step s s' \<and> or_answer s' \<noteq> None)) \<and>
    (\<forall>r. or_answer s = Some r \<longrightarrow> (\<exists>race. OpenStream race p st = Return r)) \<and>
    (\<forall>str. or_answer s = Some (Inr str) \<longrightarrow> or_result s = Some (Inr str)) \<and>
    (\<forall>e str s'. or_answer s = Some (Inl e) \<longrightarrow> or_result s = Some (Inr str) \<longrightarrow> race_steps s s' \<longrightarrow>
       or_answer s' = or_answer s \<and> (or_session_closed s' \<or> str \<in> or_open s'))"
proof -
  have inv: "race_inv s" and pend: "pending s" using reachable_pending [OF assms(1)] by simp_all
  have "\<exists>s'. race_step s s' \<and> or_answer s' \<noteq> None"
    if "or_answer s = None" "or_done s \<or> or_ctx s \<noteq> None"
  proof (cases "or_done s")
    case True
    then have "or_answer (select_done s) \<noteq> None" using inv by (simp add: race_inv_def select_done_def)
    with True that(1) show ?thesis by (blast intro: race_step.TakeDone)
  next
    case False
    with that obtain e where "or_ctx s = Some e" by auto
    then have "race_step s (select_ctx e s)" using that(1) by (rule race_step.TakeCtx [rotated])
    then show ?thesis by (intro exI [of _ "select_ctx e s"]) (simp add: select_ctx_def)
  qed
  moreover have "or_result s = Some (Inr str)" if "or_answer s = Some (Inr str)" for str
    using inv that by (auto simp: race_inv_def)
  moreover have "or_answer s' = or_answer s \<and> (or_session_closed s' \<or> str \<in> or_open s')"
    if "or_answer s = Some (Inl e)" "or_result s = Some (Inr str)" "race_steps s s'" for e str s'
  proof -
    have "abandoned str s" using that pend by (simp add: abandoned_def pending_def)
    with abandoned_steps [OF that(3) inv] have "abandoned str s'" by blast
    moreover have "or_answer s' = or_answer s"
      using that(3,1) by (induction rule: rtranclp_induct) (auto elim!: race_stepE simp: race_defs)
    ultimately show ?thesis by (simp add: abandoned_def)
  qed
  ultimately show ?thesis using answers_are_races [OF inv _ assms(2)] by blast
qed

text \<open>A connected peer, and a race that the context won before the library made the stream 3.\<close>

definition demo_online :: registry where
  "demo_online = (NewRegistry (\<lambda>_. None))\<lparr>reg_sessions := [''node-a'' \<mapsto> 0],
     reg_heap := [0 \<mapsto> \<lparr>ss_PeerID = ''node-a'', ss_Handshake = None, ss_Session = Some 7, ss_ControlChan = Some 0,
        ss_Connected = True, ss_ConnectedAt = 0, ss_LastHeartbeat = 0\<rparr>]\<rparr>"

definition demo_race :: "nat race" where
  "demo_race = goroutine_opens (Inr 3)
     (select_ctx context_DeadlineExceeded ((race_start {})\<lparr>or_ctx := Some context_DeadlineExceeded\<rparr>))"

theorem OpenStream_abandons_streams_witness:
  "race_steps (race_start {}) demo_race \<and> or_answer demo_race = Some (Inl context_DeadlineExceeded) \<and>
   (or_session_closed demo_race \<or> 3 \<in> or_open demo_race)"
proof -
  let ?s1 = "(race_start {})\<lparr>or_ctx := Some context_DeadlineExceeded\<rparr> :: nat race"
  let ?s2 = "select_ctx context_DeadlineExceeded ?s1"
  have "race_step (race_start {}) ?s1" by (rule race_step.CtxDone) (simp add: race_start_def)
  moreover have "race_step ?s1 ?s2" by (rule race_step.TakeCtx) (simp_all add: race_start_def)
  moreover have "race_step ?s2 demo_race"
    unfolding demo_race_def by (rule race_step.Opens) (simp_all add: race_start_def select_ctx_def)
  ultimately have steps: "race_steps (race_start {}) demo_race"
    by (meson converse_rtranclp_into_rtranclp rtranclp.rtrancl_refl)
  have "connected ''node-a'' demo_online" by (simp add: connected_def demo_online_def)
  moreover have "or_answer demo_race = Some (Inl context_DeadlineExceeded)" "or_result demo_race = Some (Inr 3)"
    by (simp_all add: demo_race_def goroutine_opens_def select_ctx_def)
  ultimately show ?thesis
    using OpenStream_abandons_streams [OF steps, of "''node-a''" demo_online] steps by blast
qed

end
