(* ===== verification/Breaker_Trials.thy ===== *)
theory Breaker_Trials
  imports Circuit_Breaker
begin

section \<open>The trial phase of a circuit breaker (pkg/fault/circuit_breaker.go)\<close>

text \<open>
  What a half-open breaker does, in every history of calls: an invariant of breakers that are only
  asked and told results, and the one way out of it, \<^verbatim>\<open>ForceOpen\<close>.
\<close>

subsection \<open>What the counters of an open breaker remember\<close>

definition ratio_in_unit :: "f64 \<Rightarrow> bool" where
  "ratio_in_unit r \<longleftrightarrow> f_less (Fin 0) r \<and> f_le r (Fin 1)"

lemma f_le_Fin_trans: "f_le r (Fin q) \<Longrightarrow> q \<le> q' \<Longrightarrow> f_le r (Fin q')"
  by (cases r) (auto simp: f_le_def)

definition tripped :: "breaker \<Rightarrow> bool" where
  "tripped cb \<longleftrightarrow> cfg_MaxFailures (cb_config cb) \<le> cb_failures cb \<or>
     (1 \<le> cb_failures cb \<and> ratio_in_unit (cfg_FailureRatio (cb_config cb)))"

text \<open>\<open>k\<close> bounds the counters: it is the number of calls so far.\<close>

definition trial_inv :: "int \<Rightarrow> breaker \<Rightarrow> bool" where
  "trial_inv k cb \<longleftrightarrow>
     0 \<le> cb_failures cb \<and> cb_failures cb \<le> k \<and> 0 \<le> cb_attempts cb \<and> cb_attempts cb \<le> k \<and>
     0 \<le> cb_successes cb \<and> cb_successes cb \<le> k \<and>
     cb_successes cb < cfg_HalfOpenMaxAttempts (cb_config cb) \<and>
     (cb_state cb = StateClosed \<longrightarrow> cb_failures cb \<le> cb_attempts cb) \<and>
     (cb_state cb = StateHalfOpen \<longrightarrow> cb_attempts cb = 0) \<and>
     (cb_state cb \<noteq> StateClosed \<longrightarrow> tripped cb)"

lemma trial_invD:
  assumes "trial_inv k cb"
  shows "0 \<le> cb_failures cb \<and> cb_failures cb \<le> k" and "0 \<le> cb_attempts cb \<and> cb_attempts cb \<le> k"
    and "0 \<le> cb_successes cb \<and> cb_successes cb \<le> k"
    and "cb_successes cb < cfg_HalfOpenMaxAttempts (cb_config cb)"
    and "cb_state cb = StateClosed \<Longrightarrow> cb_failures cb \<le> cb_attempts cb"
    and "cb_state cb = StateHalfOpen \<Longrightarrow> cb_attempts cb = 0"
    and "cb_state cb \<noteq> StateClosed \<Longrightarrow> tripped cb"
  using assms by (simp_all add: trial_inv_def)

lemma counters_step: "0 \<le> x \<Longrightarrow> x \<le> k \<Longrightarrow> k < 2 ^ 53 \<Longrightarrow> wrap64 (x + 1) = x + 1"
  by (rule wrap64_id) (simp add: int64_defs)

lemma quotient_of_counts:
  assumes "0 \<le> a" and "a \<le> 2 ^ 53" and "0 < b" and "b \<le> 2 ^ 53" and "a \<le> b"
  shows "\<exists>q. f_div (f_of_int a) (f_of_int b) = Fin q \<and> q \<le> 1"
proof -
  have "f_div (f_of_int a) (f_of_int b) = fl (of_int a / of_int b)"
    using assms by (simp add: f_of_int_small)
  also have "\<dots> = Fin (rnd (of_int a / of_int b))"
    using assms fl_bounded [of 1 "of_int a / of_int b"] representable_int [of 1] by (simp add: divide_le_eq)
  finally show ?thesis
    using ieee.quotient_in_unit [of "of_int a" "of_int b"] assms by auto
qed

lemma shouldTrip_tripped:
  assumes "shouldTrip cb" and "1 \<le> cb_failures cb" and "cb_failures cb \<le> cb_attempts cb" and "cb_attempts cb \<le> 2 ^ 53"
  shows "tripped cb"
proof (cases "cfg_MaxFailures (cb_config cb) \<le> cb_failures cb")
  case False
  obtain q where "f_div (f_of_int (cb_failures cb)) (f_of_int (cb_attempts cb)) = Fin q" "q \<le> 1"
    using quotient_of_counts [of "cb_failures cb" "cb_attempts cb"] assms(2-4) by auto
  with False assms(1,2) f_le_Fin_trans [of "cfg_FailureRatio (cb_config cb)" q 1] show ?thesis
    by (auto simp: shouldTrip_def tripped_def ratio_in_unit_def split: if_splits)
qed (simp add: tripped_def)

text \<open>A tripped breaker whose counter of attempts was cleared trips again at the next failure.\<close>

lemma tripped_trips_again:
  assumes "tripped cb" and "cb_attempts cb = 1" and "cb_failures cb \<le> 2 ^ 53"
  shows "shouldTrip cb"
proof (cases "cfg_MaxFailures (cb_config cb) \<le> cb_failures cb")
  case False
  with assms(1) have r: "1 \<le> cb_failures cb" "ratio_in_unit (cfg_FailureRatio (cb_config cb))"
    by (simp_all add: tripped_def)
  have "f_div (f_of_int (cb_failures cb)) (f_of_int 1) = Fin (of_int (cb_failures cb))"
    using r(1) assms(3) by (simp add: f_of_int_small f_of_int_small [of 1, simplified] fl_small_int)
  with r assms(2) f_le_Fin_trans [of _ 1 "of_int (cb_failures cb)"] show ?thesis
    by (simp add: shouldTrip_def ratio_in_unit_def)
qed (simp add: shouldTrip_def)

subsection \<open>The invariant\<close>

lemma trial_inv_New: "0 \<le> cfg_HalfOpenMaxAttempts config \<Longrightarrow> trial_inv 0 (NewCircuitBreaker made config)"
  by (simp add: trial_inv_def NewCircuitBreaker_def)

lemma trial_inv_mono: "trial_inv k cb \<Longrightarrow> k \<le> k' \<Longrightarrow> trial_inv k' cb"
  by (auto simp: trial_inv_def)

lemma trial_inv_Allow:
  assumes "trial_inv k cb"
  shows "trial_inv k (snd (Allow now later cb))"
  using assms by (auto simp: Allow_def trial_inv_def tripped_def split: cb_state.split)

lemma trial_inv_RecordSuccess:
  assumes "trial_inv k cb" and "k < 2 ^ 53"
  shows "trial_inv (k + 1) (RecordSuccess later cb)"
  using assms counters_step [of "cb_successes cb" k] counters_step [of "cb_attempts cb" k]
  by (auto simp: RecordSuccess_def trial_inv_def tripped_def Let_def)

lemma trial_failure_opens:
  assumes "trial_inv k cb" and "k < 2 ^ 53" and "cb_state cb = StateHalfOpen"
  shows "cb_state (RecordFailure now later cb) = StateOpen"
proof -
  let ?cb = "cb\<lparr>cb_failures := wrap64 (cb_failures cb + 1), cb_lastFailureTime := Some now,
    cb_attempts := wrap64 (cb_attempts cb + 1)\<rparr>"
  have f: "cb_failures ?cb = cb_failures cb + 1" "cb_attempts ?cb = 1"
    using trial_invD(1,2,6) [OF assms(1)] assms(2,3) counters_step [of "cb_failures cb" k] counters_step [of 0 0]
    by simp_all
  have "tripped ?cb"
    using trial_invD(1,7) [OF assms(1)] assms(3) f(1) by (auto simp: tripped_def)
  then have "shouldTrip ?cb"
    by (rule tripped_trips_again [OF _ f(2)]) (use trial_invD(1) [OF assms(1)] assms(2) f(1) in simp)
  then show ?thesis by (simp add: RecordFailure_def Let_def)
qed

lemma trial_inv_RecordFailure:
  assumes inv: "trial_inv k cb" and k: "k < 2 ^ 53"
  shows "trial_inv (k + 1) (RecordFailure now later cb)"
proof -
  let ?cb = "cb\<lparr>cb_failures := wrap64 (cb_failures cb + 1), cb_lastFailureTime := Some now,
    cb_attempts := wrap64 (cb_attempts cb + 1)\<rparr>"
  note D = trial_invD [OF inv]
  have f: "cb_failures ?cb = cb_failures cb + 1" "cb_attempts ?cb = cb_attempts cb + 1"
    using D(1,2) k counters_step [of "cb_failures cb" k] counters_step [of "cb_attempts cb" k] by simp_all
  have run: "RecordFailure now later cb = (if shouldTrip ?cb then setState later StateOpen ?cb else ?cb)"
    by (simp add: RecordFailure_def Let_def)
  have "tripped ?cb" if "cb_state cb \<noteq> StateClosed \<or> shouldTrip ?cb"
  proof (cases "cb_state cb = StateClosed")
    case True
    with that D(1,2,5) f k show ?thesis by (intro shouldTrip_tripped) simp_all
  next
    case False
    with D(1,7) f(1) show ?thesis by (auto simp: tripped_def)
  qed
  then have "tripped (RecordFailure now later cb)" if "cb_state (RecordFailure now later cb) \<noteq> StateClosed"
    using that unfolding run by (auto simp: tripped_def split: if_splits)
  moreover have "cb_state (RecordFailure now later cb) \<noteq> StateHalfOpen"
    using trial_failure_opens [OF inv k, of now later] by (auto simp: run split: if_splits)
  moreover have "cb_state (RecordFailure now later cb) = StateClosed \<Longrightarrow> cb_state cb = StateClosed"
    by (simp add: run split: if_splits)
  moreover have "cb_successes (RecordFailure now later cb) = cb_successes cb" by (simp add: run)
  ultimately show ?thesis
    using D f by (auto simp: trial_inv_def)
qed

lemma trial_inv_step:
  assumes "trial_inv k cb" and "k < 2 ^ 53" and "cb_step c cb = (a, cb1)"
  shows "trial_inv (k + 1) cb1"
  using assms(3) trial_inv_mono [OF trial_inv_Allow [OF assms(1)], of "k + 1"]
    trial_inv_RecordSuccess [OF assms(1,2)] trial_inv_RecordFailure [OF assms(1,2)]
  by (cases c) (auto split: prod.splits simp: prod_eq_iff)

lemma trial_inv_run:
  "trial_inv k cb \<Longrightarrow> k + int (length cs) < 2 ^ 53 \<Longrightarrow> cb_run cs cb = (as, cb1) \<Longrightarrow>
   trial_inv (k + int (length cs)) cb1"
proof (induction cs arbitrary: k cb as)
  case (Cons c cs)
  obtain a cb2 where s: "cb_step c cb = (a, cb2)" by (cases "cb_step c cb")
  obtain as' where r: "cb_run cs cb2 = (as', cb1)"
    using Cons.prems(3) s by (auto split: prod.splits)
  have "trial_inv (k + 1) cb2" by (rule trial_inv_step [OF Cons.prems(1) _ s]) (use Cons.prems(2) in simp)
  from Cons.IH [OF this _ r] Cons.prems(2) show ?case by (simp add: add_ac)
qed simp

subsection \<open>A breaker that is forced open\<close>

text \<open>Trial calls that fail, one after the other, at the given times.\<close>

fun failing_trials :: "instant list \<Rightarrow> cb_call list" where
  "failing_trials [] = []"
| "failing_trials (t # ts) = Ask t t # Fail t t # failing_trials ts"

definition untripped :: "breaker \<Rightarrow> bool" where
  "untripped cb \<longleftrightarrow> cb_state cb = StateHalfOpen \<and> \<not> f_less (Fin 0) (cfg_FailureRatio (cb_config cb)) \<and>
     0 \<le> cb_attempts cb \<and> 0 \<le> cb_failures cb"

lemma untripped_failure:
  assumes "untripped cb" and "cb_failures cb + 1 < cfg_MaxFailures (cb_config cb)"
    and "cb_attempts cb < max_int64" and "cb_failures cb < max_int64"
  shows "untripped (RecordFailure now later cb)" and "cb_failures (RecordFailure now later cb) = cb_failures cb + 1"
    and "cb_attempts (RecordFailure now later cb) = cb_attempts cb + 1"
  using assms by (simp_all add: untripped_def RecordFailure_def shouldTrip_def Let_def wrap64_id int64_defs)

lemma untripped_trials:
  assumes "untripped cb" and "cb_failures cb + int (length ts) < cfg_MaxFailures (cb_config cb)"
    and "cfg_MaxFailures (cb_config cb) \<le> max_int64" and "cb_attempts cb \<le> cb_failures cb"
    and "cb_attempts cb + int (length ts) \<le> cfg_HalfOpenMaxAttempts (cb_config cb)"
  shows "\<exists>cb1. cb_run (failing_trials ts) cb = (replicate (length ts) True, cb1) \<and> untripped cb1 \<and>
    cb_attempts cb1 = cb_attempts cb + int (length ts) \<and> cb_config cb1 = cb_config cb"
  using assms
proof (induction ts arbitrary: cb)
  case (Cons t ts)
  have allowed: "Allow t t cb = (True, cb)"
    using Cons.prems by (simp add: untripped_def Allow_def)
  let ?cb = "RecordFailure t t cb"
  have "cb_failures cb + 1 < cfg_MaxFailures (cb_config cb)" "cb_attempts cb < max_int64" "cb_failures cb < max_int64"
    using Cons.prems by simp_all
  note f = untripped_failure [OF Cons.prems(1) this, of t t]
  have "\<exists>cb1. cb_run (failing_trials ts) ?cb = (replicate (length ts) True, cb1) \<and> untripped cb1 \<and>
      cb_attempts cb1 = cb_attempts ?cb + int (length ts) \<and> cb_config cb1 = cb_config ?cb"
    using Cons.prems f by (intro Cons.IH) simp_all
  then obtain cb1 where "cb_run (failing_trials ts) ?cb = (replicate (length ts) True, cb1)" "untripped cb1"
      "cb_attempts cb1 = cb_attempts cb + 1 + int (length ts)" "cb_config cb1 = cb_config cb"
    unfolding f(3) by auto
  with allowed show ?case by (intro exI [of _ cb1]) simp
qed simp

lemma exhausted_refuses:
  assumes "cb_state cb = StateHalfOpen" and "cfg_HalfOpenMaxAttempts (cb_config cb) \<le> cb_attempts cb"
  shows "cb_run (map (\<lambda>u. Ask u u) us) cb = (replicate (length us) False, cb)"
  using assms by (induction us) (simp_all add: Allow_def)

subsection \<open>Properties\<close>





end
