(* ===== verification/Rate_Bound.thy ===== *)
theory Rate_Bound
  imports Rate_Limit
begin

section \<open>The rate a token bucket allows (pkg/server/ratelimit.go)\<close>

text \<open>
  How many calls a token bucket admits over time, with the tokens computed in \<^verbatim>\<open>float64\<close> as the code
  does: three roundings may add to the exact product of rate and elapsed time, each one part in
  \<open>2 ^ 53\<close>.
\<close>

subsection \<open>Tokens due\<close>

abbreviation slack :: rat where
  "slack \<equiv> 1 + 1 / 2 ^ 51"

lemma three_roundings: "0 \<le> (x::rat) \<Longrightarrow> x * (1 + 1 / 2 ^ 53) * (1 + 1 / 2 ^ 53) * (1 + 1 / 2 ^ 53) \<le> x * slack"
  by (simp add: mult.assoc mult_left_mono)

lemma seconds_split:
  assumes "0 \<le> d"
  shows "go_quot d second = d div second" and "go_rem d second = d mod second"
proof -
  show *: "go_quot d second = d div second"
    using assms by (cases "d = 0") (simp_all add: go_quot_def second_def)
  show "go_rem d second = d mod second"
    unfolding go_rem_def * by (simp add: minus_mult_div_eq_mod)
qed

lemma powi_le_1: "e \<le> 0 \<Longrightarrow> (2::rat) powi e \<le> 1"
  using powi_le_iff [of e 0] by simp

text \<open>The two roundings of \<^verbatim>\<open>Duration.Seconds\<close>: of the fraction of a second, and of the sum.\<close>

lemma representable_nano: "representable (2 powi -30)"
  unfolding representable_def by (intro exI [of _ 1] exI [of _ "-30"]) simp

lemma fraction_of_second:
  assumes "0 \<le> r" and "r < 10 ^ 9"
  defines "q \<equiv> of_int r / 10 ^ 9 :: rat"
  shows "f_div (f_of_int r) (Fin 1000000000) = Fin (rnd q)" and "0 \<le> rnd q" and "rnd q \<le> 1"
    and "rnd q \<le> q * (1 + 1 / 2 ^ 53)" and "rnd q = 0 \<or> 2 powi -30 \<le> rnd q"
proof -
  have q: "0 \<le> q" "q \<le> 1" using assms by (simp_all add: q_def)
  have frac: "q = 0 \<or> 2 powi -30 \<le> q"
  proof (cases "r = 0")
    case False
    with assms(1) have "(1::rat) \<le> of_int r" by simp
    then have "1 / 10 ^ 9 \<le> q" by (simp add: q_def)
    then show ?thesis by (simp add: power_int_minus)
  qed (simp add: q_def)
  show "0 \<le> rnd q" "rnd q \<le> 1" "rnd q \<le> q * (1 + 1 / 2 ^ 53)" "rnd q = 0 \<or> 2 powi -30 \<le> rnd q"
    using frac q rnd_upper [of q] powi_le_iff [of "-1021" "-30"] ieee.exact_le_round [OF representable_nano, of q]
      ieee.round_le_exact [OF representable_int [of 1], of q] ieee.exact_le_round [OF representable_0, of q]
    by (auto simp: rnd_def)
  show "f_div (f_of_int r) (Fin 1000000000) = Fin (rnd q)"
    using assms(1,2) fl_bounded [of 1 q] representable_int [of 1] q by (simp add: f_of_int_small q_def)
qed

lemma rounded_seconds:
  assumes "0 \<le> y" and "y \<le> 2 ^ 34" and "y = 0 \<or> 2 powi -30 \<le> y"
  shows "fl y = Fin (rnd y)" and "0 \<le> rnd y" and "rnd y \<le> 2 ^ 34" and "rnd y = 0 \<or> 2 powi -30 \<le> rnd y"
    and "rnd y \<le> y * (1 + 1 / 2 ^ 53)"
proof -
  have "representable (2 ^ 34)" using representable_int [of "2 ^ 34"] by simp
  then show "fl y = Fin (rnd y)" "rnd y \<le> 2 ^ 34"
    using fl_bounded [of "2 ^ 34" y] assms(1,2) by (simp_all add: abs_le_iff)
  show "0 \<le> rnd y" using ieee.exact_le_round [OF representable_0 assms(1)] .
  show "rnd y = 0 \<or> 2 powi -30 \<le> rnd y"
    using assms(3) ieee.exact_le_round [OF representable_nano, of y] by (auto simp: rnd_def)
  show "rnd y \<le> y * (1 + 1 / 2 ^ 53)"
    using assms(3) powi_le_iff [of "-1021" "-30"] by (intro rnd_upper) auto
qed

lemma duration_Seconds_bound:
  assumes "0 \<le> d" and "d \<le> max_int64"
  shows "\<exists>s. duration_Seconds d = Fin s \<and> 0 \<le> s \<and> s \<le> 2 ^ 34 \<and> (s = 0 \<or> 2 powi -30 \<le> s) \<and>
    s \<le> of_int d / 10 ^ 9 * (1 + 1 / 2 ^ 53) * (1 + 1 / 2 ^ 53)"
proof -
  define k r where "k = d div second" and "r = d mod second"
  have d: "d = k * 10 ^ 9 + r" by (simp add: k_def r_def second_def)
  have r: "0 \<le> r" "r < 10 ^ 9" by (simp_all add: r_def second_def)
  have "0 \<le> k" using assms(1) by (simp add: k_def second_def)
  moreover have "k \<le> 9223372036" using assms(2) d r(1) by (simp add: max_int64_def)
  ultimately have k: "0 \<le> k" "k \<le> 9223372036" by simp_all
  define q x y where "q = (of_int r / 10 ^ 9 :: rat)" and "x = rnd q" and "y = of_int k + x"
  note x = fraction_of_second [OF r, folded q_def, folded x_def]
  have "y = 0 \<or> 2 powi -30 \<le> y"
  proof (cases "k = 0")
    case False
    with k(1) have "(1::rat) \<le> of_int k" by simp
    then show ?thesis using x(2) powi_le_1 [of "-30"] by (simp add: y_def)
  qed (use x(5) in \<open>simp add: y_def\<close>)
  moreover have "0 \<le> y" "y \<le> 2 ^ 34" using k x(2,3) by (simp_all add: y_def)
  ultimately have s: "fl y = Fin (rnd y)" "0 \<le> rnd y" "rnd y \<le> 2 ^ 34" "rnd y = 0 \<or> 2 powi -30 \<le> rnd y"
      "rnd y \<le> y * (1 + 1 / 2 ^ 53)"
    using rounded_seconds [of y] by blast+
  have "duration_Seconds d = Fin (rnd y)"
    unfolding duration_Seconds_def seconds_split [OF assms(1)] k_def [symmetric] r_def [symmetric]
    using k s(1) x(1) by (simp add: f_of_int_small y_def)
  moreover have "y \<le> (of_int k + q) * (1 + 1 / 2 ^ 53)" using x(4) k(1) by (simp add: y_def distrib_right)
  then have "y \<le> of_int d / 10 ^ 9 * (1 + 1 / 2 ^ 53)" by (simp add: d q_def add_divide_distrib)
  then have "y * (1 + 1 / 2 ^ 53) \<le> of_int d / 10 ^ 9 * (1 + 1 / 2 ^ 53) * (1 + 1 / 2 ^ 53)"
    by (rule mult_right_mono) simp
  ultimately show ?thesis using s(2-5) by (meson order_trans)
qed

lemma tokens_due_bound:
  assumes "0 \<le> d" and "d \<le> max_int64" and "0 \<le> rate" and "rate \<le> 2 ^ 28"
  shows "tokens_due unrep rate d \<le> 2 ^ 62" and "0 \<le> tokens_due unrep rate d"
    and "of_int (tokens_due unrep rate d) \<le> of_int d * of_int rate / 10 ^ 9 * slack"
proof -
  obtain s where s: "duration_Seconds d = Fin s" "0 \<le> s" "s \<le> 2 ^ 34" "s = 0 \<or> 2 powi -30 \<le> s"
      "s \<le> of_int d / 10 ^ 9 * (1 + 1 / 2 ^ 53) * (1 + 1 / 2 ^ 53)"
    using duration_Seconds_bound [OF assms(1,2)] by blast
  define z where "z = s * of_int rate"
  have rate: "(0::rat) \<le> of_int rate" "(of_int rate :: rat) \<le> 2 ^ 28"
    using assms(3,4) by (simp, metis of_int_le_iff of_int_numeral of_int_power)
  have z: "0 \<le> z" "z \<le> 2 ^ 34 * 2 ^ 28"
    unfolding z_def using s(2,3) rate by (simp, intro mult_mono) simp_all
  have z_low: "2 powi -1021 \<le> z \<or> z = 0"
  proof (cases "s = 0 \<or> rate = 0")
    case False
    then have "2 powi -30 \<le> s" "(1::rat) \<le> of_int rate" using s(4) assms(3) by simp_all
    then have "2 powi -30 * 1 \<le> z" unfolding z_def by (intro mult_mono) (use s(2) in simp_all)
    then show ?thesis using powi_le_iff [of "-1021" "-30"] by simp
  qed (auto simp: z_def)
  have "representable (2 ^ 62)"
    unfolding representable_def by (intro exI [of _ 1] exI [of _ 62]) (simp add: power_int_def)
  then have fl: "fl z = Fin (rnd z)" "rnd z \<le> 2 ^ 62"
    using fl_bounded [of "2 ^ 62" z] z by (simp_all add: abs_le_iff)
  have "0 \<le> rnd z" using ieee.exact_le_round [OF representable_0 z(1)] .
  then have floor: "0 \<le> \<lfloor>rnd z\<rfloor>" "\<lfloor>rnd z\<rfloor> \<le> 2 ^ 62"
    using fl(2) floor_mono [OF fl(2)] by simp_all
  have "f_of_int rate = Fin (of_int rate)" using assms(3,4) by (simp add: f_of_int_small)
  then have due: "tokens_due unrep rate d = \<lfloor>rnd z\<rfloor>"
    using \<open>0 \<le> rnd z\<close> floor by (simp add: tokens_due_def s(1) z_def [symmetric] fl(1) int64_defs)
  with floor show "tokens_due unrep rate d \<le> 2 ^ 62" and "0 \<le> tokens_due unrep rate d" by simp_all
  have "of_int \<lfloor>rnd z\<rfloor> \<le> rnd z" by simp
  also have "\<dots> \<le> z * (1 + 1 / 2 ^ 53)" by (rule rnd_upper [OF z_low])
  also have "\<dots> \<le> (of_int d * of_int rate / 10 ^ 9) * (1 + 1 / 2 ^ 53) * (1 + 1 / 2 ^ 53) * (1 + 1 / 2 ^ 53)"
  proof (rule mult_right_mono)
    have "z \<le> of_int d / 10 ^ 9 * (1 + 1 / 2 ^ 53) * (1 + 1 / 2 ^ 53) * of_int rate"
      unfolding z_def by (rule mult_right_mono [OF s(5) rate(1)])
    then show "z \<le> of_int d * of_int rate / 10 ^ 9 * (1 + 1 / 2 ^ 53) * (1 + 1 / 2 ^ 53)"
      by (simp only: mult_ac times_divide_eq_left times_divide_eq_right)
  qed simp
  also have "\<dots> \<le> of_int d * of_int rate / 10 ^ 9 * slack"
    using assms(1) rate(1) by (intro three_roundings) simp
  finally show "of_int (tokens_due unrep rate d) \<le> of_int d * of_int rate / 10 ^ 9 * slack"
    by (simp only: due)
qed

subsection \<open>Calls over time\<close>

text \<open>A history of calls, of any peers and methods: the key of each, and whether it was admitted.\<close>

type_synonym tb_call = "(instant \<times> instant) \<times> string \<times> string"

fun tb_history :: "(f64 \<Rightarrow> int) \<Rightarrow> tb_call list \<Rightarrow> token_bucket \<Rightarrow> (string \<times> bool) list" where
  "tb_history unrep [] tb = []"
| "tb_history unrep ((t, p, m) # cs) tb =
     (case TokenBucket_Allow unrep t p m tb of (r, tb1) \<Rightarrow> (limit_key p m, r) # tb_history unrep cs tb1)"

definition admitted :: "string \<Rightarrow> (string \<times> bool) list \<Rightarrow> nat" where
  "admitted key h = count_list h (key, True)"

text \<open>The readings of the clock, in the order of the calls.\<close>

definition readings :: "tb_call list \<Rightarrow> instant list" where
  "readings cs = concat (map (\<lambda>((made, now), _). [made, now]) cs)"

lemma readings_Cons [simp]: "readings (((made, now), pm) # cs) = made # now # readings cs"
  by (simp add: readings_def)

lemma Allow_frame:
  assumes "TokenBucket_Allow unrep t p m tb = (r, tb1)"
  shows "tb_rate tb1 = tb_rate tb" and "tb_burst tb1 = tb_burst tb"
    and "key \<noteq> limit_key p m \<Longrightarrow> tb_buckets tb1 key = tb_buckets tb key"
  using assms by (auto simp: TokenBucket_Allow_def Let_def split: if_splits option.splits)

text \<open>Time pays for what a call takes: the tokens left, plus what was admitted, are paid for by the refill.\<close>

lemma Allow_pays:
  assumes "tb_buckets tb (limit_key p m) = Some b" and "0 \<le> bk_tokens b" and "bk_tokens b \<le> tb_burst tb"
    and "tb_burst tb < 2 ^ 62" and "0 \<le> tb_rate tb" and "tb_rate tb \<le> 2 ^ 28" and "bk_lastRefill b \<le> now"
    and "TokenBucket_Allow unrep (made, now) p m tb = (r, tb1)"
  shows "\<exists>b1. tb_buckets tb1 (limit_key p m) = Some b1 \<and> 0 \<le> bk_tokens b1 \<and> bk_tokens b1 \<le> tb_burst tb \<and>
    bk_lastRefill b \<le> bk_lastRefill b1 \<and> bk_lastRefill b1 \<le> now \<and>
    (if r then 1 else 0) + of_int (bk_tokens b1) \<le>
      (of_int (bk_tokens b) :: rat) +
      of_int (bk_lastRefill b1 - bk_lastRefill b) * of_int (tb_rate tb) / 10 ^ 9 * slack"
proof -
  define d where "d = time_Sub now (bk_lastRefill b)"
  define add where "add = tokens_due unrep (tb_rate tb) d"
  have d: "0 \<le> d" "d \<le> max_int64" "d \<le> now - bk_lastRefill b"
    using time_Sub_nonneg [OF assms(7)] assms(7) by (auto simp: d_def time_Sub_def int64_defs)
  note due = tokens_due_bound [OF d(1,2) assms(5,6), of unrep, folded add_def]
  have pay: "of_int add \<le> of_int (now - bk_lastRefill b) * of_int (tb_rate tb) / 10 ^ 9 * slack"
  proof -
    have "(of_int d :: rat) \<le> of_int (now - bk_lastRefill b)" using d(3) by (simp only: of_int_le_iff)
    then have "of_int d * of_int (tb_rate tb) / 10 ^ 9 * slack \<le>
        of_int (now - bk_lastRefill b) * of_int (tb_rate tb) / 10 ^ 9 * slack"
      using assms(5) by (intro mult_right_mono divide_right_mono) simp_all
    with due(3) show ?thesis by linarith
  qed
  have wrap: "wrap64 (bk_tokens b + add) = bk_tokens b + add"
    using assms(2-4) due(1,2) by (intro wrap64_id) (simp add: int64_defs)
  define b1 where "b1 = (if add > 0 then \<lparr>bk_tokens = min (tb_burst tb) (bk_tokens b + add), bk_lastRefill = now\<rparr> else b)"
  define b2 where "b2 = (if bk_tokens b1 > 0 then b1\<lparr>bk_tokens := bk_tokens b1 - 1\<rparr> else b1)"
  have run: "r = (bk_tokens b1 > 0)" "tb_buckets tb1 (limit_key p m) = Some b2"
    using assms(8) unfolding TokenBucket_Allow_def Let_def fst_conv snd_conv assms(1) option.case
      d_def [symmetric] add_def [symmetric] wrap
    by (auto simp: b1_def b2_def min_def split: if_splits)
  have b1: "0 \<le> bk_tokens b1" "bk_tokens b1 \<le> tb_burst tb" "bk_lastRefill b \<le> bk_lastRefill b1" "bk_lastRefill b1 \<le> now"
    using assms(2,3,7) by (auto simp: b1_def)
  have "of_int (bk_tokens b1) \<le> (of_int (bk_tokens b) :: rat) +
      of_int (bk_lastRefill b1 - bk_lastRefill b) * of_int (tb_rate tb) / 10 ^ 9 * slack"
  proof (cases "add > 0")
    case True
    have "(of_int (bk_tokens b1) :: rat) \<le> of_int (bk_tokens b + add)"
      using True by (simp only: of_int_le_iff) (simp add: b1_def)
    with pay True show ?thesis by (simp add: b1_def)
  qed (simp add: b1_def)
  with run b1 show ?thesis by (intro exI [of _ b2]) (auto simp: b2_def)
qed

definition limits_ok :: "token_bucket \<Rightarrow> bool" where
  "limits_ok tb \<longleftrightarrow> 0 \<le> tb_burst tb \<and> tb_burst tb < 2 ^ 62 \<and> 0 \<le> tb_rate tb \<and> tb_rate tb \<le> 2 ^ 28"

definition allowance :: "token_bucket \<Rightarrow> duration \<Rightarrow> rat" where
  "allowance tb d = of_int d * of_int (tb_rate tb) / 10 ^ 9 * slack"

lemma allowance_add: "allowance tb d + allowance tb e = allowance tb (d + e)"
  by (simp add: allowance_def algebra_simps add_divide_distrib)

lemma allowance_mono: "limits_ok tb \<Longrightarrow> d \<le> e \<Longrightarrow> allowance tb d \<le> allowance tb e"
  unfolding allowance_def limits_ok_def by (intro mult_right_mono divide_right_mono) simp_all

lemma limits_frame:
  assumes "TokenBucket_Allow unrep t p m tb = (r, tb1)"
  shows "limits_ok tb1 = limits_ok tb" and "allowance tb1 = allowance tb"
  using Allow_frame(1,2) [OF assms] by (simp_all add: limits_ok_def allowance_def fun_eq_iff)

lemma history_pays:
  assumes "limits_ok tb" and "tb_buckets tb key = Some b" and "0 \<le> bk_tokens b" and "bk_tokens b \<le> tb_burst tb"
    and "sorted (readings cs)" and "\<forall>u \<in> set (readings cs). bk_lastRefill b \<le> u \<and> u \<le> stop" and "bk_lastRefill b \<le> stop"
  shows "of_nat (admitted key (tb_history unrep cs tb)) \<le> of_int (bk_tokens b) + allowance tb (stop - bk_lastRefill b)"
  using assms
proof (induction cs arbitrary: tb b)
  case Nil
  then show ?case
    using allowance_mono [of tb 0 "stop - bk_lastRefill b"] by (simp add: admitted_def) (simp add: allowance_def)
next
  case (Cons c cs)
  obtain made now p m where c: "c = ((made, now), p, m)" by (metis prod.exhaust)
  obtain r tb1 where run: "TokenBucket_Allow unrep (made, now) p m tb = (r, tb1)" by fastforce
  note same = Allow_frame [OF run] limits_frame [OF run]
  have hist: "admitted key (tb_history unrep (c # cs) tb) =
      (if limit_key p m = key \<and> r then 1 else 0) + admitted key (tb_history unrep cs tb1)"
    by (simp add: c run admitted_def)
  have times: "sorted (readings cs)" "\<forall>u \<in> set (readings cs). now \<le> u \<and> u \<le> stop" "bk_lastRefill b \<le> now" "now \<le> stop"
    using Cons.prems(5,6) by (auto simp: c)
  show ?case
  proof (cases "limit_key p m = key")
    case True
    obtain b1 where b1: "tb_buckets tb1 key = Some b1" "0 \<le> bk_tokens b1" "bk_tokens b1 \<le> tb_burst tb"
        "bk_lastRefill b \<le> bk_lastRefill b1" "bk_lastRefill b1 \<le> now"
        "(if r then 1 else 0) + of_int (bk_tokens b1) \<le>
           (of_int (bk_tokens b) :: rat) + allowance tb (bk_lastRefill b1 - bk_lastRefill b)"
      using Allow_pays [of tb p m b now unrep made r tb1] Cons.prems(1-4) times(3) run True
      by (auto simp: limits_ok_def allowance_def)
    have "of_nat (admitted key (tb_history unrep cs tb1)) \<le> of_int (bk_tokens b1) + allowance tb1 (stop - bk_lastRefill b1)"
      using Cons.prems(1) b1 times same by (intro Cons.IH) force+
    moreover have "allowance tb (bk_lastRefill b1 - bk_lastRefill b) + allowance tb (stop - bk_lastRefill b1) =
        allowance tb (stop - bk_lastRefill b)" by (simp add: allowance_add)
    ultimately show ?thesis using b1(6) True unfolding hist same(5) by auto
  next
    case False
    then have "tb_buckets tb1 key = Some b" using same(3) [of key] Cons.prems(2) by simp
    then have "of_nat (admitted key (tb_history unrep cs tb1)) \<le> of_int (bk_tokens b) + allowance tb1 (stop - bk_lastRefill b)"
      using Cons.prems times same by (intro Cons.IH) force+
    with False show ?thesis unfolding hist same(5) by simp
  qed
qed

subsection \<open>Property\<close>

text \<open>
  C39. The rate a token bucket promises. From the first call for a peer and method on, and whatever
  calls for others are in between, the calls admitted up to any time are at most the burst plus the
  configured rate times the seconds that have passed, but for one part in \<open>2 ^ 51\<close> of the latter:
  the rounding of the \<^verbatim>\<open>float64\<close> arithmetic, summed over all refills, cannot add more.
\<close>

theorem token_bucket_keeps_its_rate:
  assumes "tb_buckets tb key = None" and "limits_ok tb" and "sorted (readings cs)"
    and "\<forall>u \<in> set (readings cs). start \<le> u \<and> u \<le> stop" and "start \<le> stop"
  shows "of_nat (admitted key (tb_history unrep cs tb)) \<le>
    of_int (tb_burst tb) + of_int (stop - start) * of_int (tb_rate tb) / 10 ^ 9 * slack"
  unfolding allowance_def [symmetric] using assms
proof (induction cs arbitrary: tb)
  case Nil
  then show ?case
    using allowance_mono [of tb 0 "stop - start"] by (simp add: admitted_def limits_ok_def) (simp add: allowance_def)
next
  case (Cons c cs)
  obtain made now p m where c: "c = ((made, now), p, m)" by (metis prod.exhaust)
  obtain r tb1 where run: "TokenBucket_Allow unrep (made, now) p m tb = (r, tb1)" by fastforce
  note same = Allow_frame [OF run] limits_frame [OF run]
  show ?case
  proof (cases "limit_key p m = key")
    case True
    let ?b = "\<lparr>bk_tokens = tb_burst tb, bk_lastRefill = made\<rparr>"
    let ?tb = "tb\<lparr>tb_buckets := (tb_buckets tb)(key \<mapsto> ?b)\<rparr>"
    have fresh: "TokenBucket_Allow unrep (made, now) p m ?tb = TokenBucket_Allow unrep (made, now) p m tb"
      using Cons.prems(1) True by (simp add: TokenBucket_Allow_def Let_def)
    have ok: "limits_ok ?tb" "allowance ?tb = allowance tb"
      using Cons.prems(2) by (simp_all add: limits_ok_def allowance_def fun_eq_iff)
    have "of_nat (admitted key (tb_history unrep (c # cs) ?tb)) \<le> of_int (bk_tokens ?b) + allowance ?tb (stop - bk_lastRefill ?b)"
      using Cons.prems ok by (intro history_pays) (auto simp: c limits_ok_def)
    moreover have "allowance tb (stop - made) \<le> allowance tb (stop - start)"
      using Cons.prems by (intro allowance_mono) (simp_all add: c)
    ultimately show ?thesis by (simp add: c fresh ok(2))
  next
    case False
    then have "of_nat (admitted key (tb_history unrep cs tb1)) \<le> of_int (tb_burst tb1) + allowance tb1 (stop - start)"
      using Cons.prems same by (intro Cons.IH) (auto simp: c)
    with False show ?thesis by (simp add: c run admitted_def same)
  qed
qed

theorem token_bucket_keeps_its_rate_witness:
  "admitted ''a:m'' (tb_history (\<lambda>_. 0)
     [((0, 0), ''a'', ''m''), ((1, 1), ''b'', ''m''), ((2, 3), ''a'', ''m''), ((second, second), ''a'', ''m'')]
     (NewTokenBucketLimiter 2 1)) \<le> 3"
proof -
  let ?cs = "[((0, 0), ''a'', ''m''), ((1, 1), ''b'', ''m''), ((2, 3), ''a'', ''m''), ((second, second), ''a'', ''m'')]"
  have "of_nat (admitted ''a:m'' (tb_history (\<lambda>_. 0) ?cs (NewTokenBucketLimiter 2 1))) \<le>
      (of_int (tb_burst (NewTokenBucketLimiter 2 1)) :: rat) +
      of_int (second - 0) * of_int (tb_rate (NewTokenBucketLimiter 2 1)) / 10 ^ 9 * slack"
    by (rule token_bucket_keeps_its_rate)
       (simp_all add: NewTokenBucketLimiter_def limits_ok_def readings_def second_def)
  also have "\<dots> < 4" by (simp add: NewTokenBucketLimiter_def second_def)
  finally have "of_nat (admitted ''a:m'' (tb_history (\<lambda>_. 0) ?cs (NewTokenBucketLimiter 2 1))) < (of_nat 4 :: rat)" by simp
  then show ?thesis by (simp only: of_nat_less_iff)
qed

end
