(* ===== verification/Tunnel_Metrics.thy ===== *)
theory Tunnel_Metrics
  imports Go_Float
begin

section \<open>The collectors of the tunnel (pkg/metrics/metrics.go)\<close>

text \<open>
  The metrics of the tunnel and their only instance. The Prometheus library is a parameter: how a
  collector is made (\<open>'g\<close>, \<open>'h\<close> and \<open>'v\<close> are a gauge, a histogram and a vector of counters) and
  what its operations make of it. A \<^verbatim>\<open>*TunnelMetrics\<close> is never copied and points to the one instance,
  so the methods are functions of its value.
\<close>

record opts =
  op_Name :: string
  op_Help :: string

record ('g, 'h, 'v) prometheus =
  pm_NewGauge :: "opts \<Rightarrow> 'g"
  pm_Set :: "f64 \<Rightarrow> 'g \<Rightarrow> 'g"
  pm_Add :: "f64 \<Rightarrow> 'g \<Rightarrow> 'g"
  pm_NewHistogram :: "opts \<Rightarrow> 'h"               \<comment> \<open>with the library's default buckets\<close>
  pm_Observe :: "f64 \<Rightarrow> 'h \<Rightarrow> 'h"
  pm_NewCounterVec :: "opts \<Rightarrow> string list \<Rightarrow> 'v"
  pm_Inc :: "string \<Rightarrow> 'v \<Rightarrow> 'v"                 \<comment> \<open>\<^verbatim>\<open>WithLabelValues(l).Inc()\<close>\<close>

record ('g, 'h, 'v) tunnel_metrics =
  tm_sessionsGauge :: 'g
  tm_streamsGauge :: 'g
  tm_handshakeDuration :: 'h
  tm_streamEvents :: 'v

definition newTunnelMetrics :: "('g, 'h, 'v) prometheus \<Rightarrow> ('g, 'h, 'v) tunnel_metrics" where
  "newTunnelMetrics lib =
     \<lparr>tm_sessionsGauge = pm_NewGauge lib
        \<lparr>op_Name = ''tunnel_sessions_active'', op_Help = ''Number of active tunnel sessions''\<rparr>,
      tm_streamsGauge = pm_NewGauge lib
        \<lparr>op_Name = ''tunnel_streams_active'', op_Help = ''Number of active yamux streams''\<rparr>,
      tm_handshakeDuration = pm_NewHistogram lib
        \<lparr>op_Name = ''tunnel_handshake_duration_seconds'', op_Help = ''Duration of handshake process''\<rparr>,
      tm_streamEvents = pm_NewCounterVec lib
        \<lparr>op_Name = ''tunnel_stream_events_total'', op_Help = ''Total number of stream events''\<rparr> [''type'']\<rparr>"

subsection \<open>The instance\<close>

text \<open>The global variables: whether \<^verbatim>\<open>sync.Once\<close> has run its function, and the instance.\<close>

record ('g, 'h, 'v) metrics_globals =
  mg_tunnelMetricsOnce :: bool
  mg_tunnelMetricsInst :: "('g, 'h, 'v) tunnel_metrics option"

definition metrics_globals_start :: "('g, 'h, 'v) metrics_globals" where
  "metrics_globals_start = \<lparr>mg_tunnelMetricsOnce = False, mg_tunnelMetricsInst = None\<rparr>"

definition getTunnelMetrics ::
  "('g, 'h, 'v) prometheus \<Rightarrow> ('g, 'h, 'v) metrics_globals
     \<Rightarrow> ('g, 'h, 'v) tunnel_metrics option \<times> ('g, 'h, 'v) metrics_globals" where
  "getTunnelMetrics lib mg =
     (let mg1 = (if mg_tunnelMetricsOnce mg then mg
                 else \<lparr>mg_tunnelMetricsOnce = True, mg_tunnelMetricsInst = Some (newTunnelMetrics lib)\<rparr>)
      in (mg_tunnelMetricsInst mg1, mg1))"

datatype ('g, 'h, 'v) collector = Gauge 'g | Histogram 'h | CounterVec 'v

definition TunnelCollectors ::
  "('g, 'h, 'v) prometheus \<Rightarrow> ('g, 'h, 'v) metrics_globals
     \<Rightarrow> ('g, 'h, 'v) collector list outcome \<times> ('g, 'h, 'v) metrics_globals" where
  "TunnelCollectors lib mg =
     (case getTunnelMetrics lib mg of
        (None, mg1) \<Rightarrow> (Panic ''invalid memory address or nil pointer dereference'', mg1)
      | (Some m, mg1) \<Rightarrow>
          (Return [Gauge (tm_sessionsGauge m), Gauge (tm_streamsGauge m),
                   Histogram (tm_handshakeDuration m), CounterVec (tm_streamEvents m)], mg1))"

subsection \<open>Recording\<close>

definition SetSessions ::
  "('g, 'h, 'v) prometheus \<Rightarrow> int \<Rightarrow> ('g, 'h, 'v) tunnel_metrics \<Rightarrow> ('g, 'h, 'v) tunnel_metrics" where
  "SetSessions lib n m = m\<lparr>tm_sessionsGauge := pm_Set lib (f_of_int n) (tm_sessionsGauge m)\<rparr>"

definition AddStreams ::
  "('g, 'h, 'v) prometheus \<Rightarrow> int \<Rightarrow> ('g, 'h, 'v) tunnel_metrics \<Rightarrow> ('g, 'h, 'v) tunnel_metrics" where
  "AddStreams lib delta m = m\<lparr>tm_streamsGauge := pm_Add lib (f_of_int delta) (tm_streamsGauge m)\<rparr>"

definition SetAccepting :: "bool \<Rightarrow> ('g, 'h, 'v) tunnel_metrics \<Rightarrow> ('g, 'h, 'v) tunnel_metrics" where
  "SetAccepting accepting m = m"

definition ObserveHandshake ::
  "('g, 'h, 'v) prometheus \<Rightarrow> duration \<Rightarrow> ('g, 'h, 'v) tunnel_metrics \<Rightarrow> ('g, 'h, 'v) tunnel_metrics" where
  "ObserveHandshake lib d m =
     m\<lparr>tm_handshakeDuration := pm_Observe lib (duration_Seconds d) (tm_handshakeDuration m)\<rparr>"

definition IncStreamEvent ::
  "('g, 'h, 'v) prometheus \<Rightarrow> string \<Rightarrow> ('g, 'h, 'v) tunnel_metrics \<Rightarrow> ('g, 'h, 'v) tunnel_metrics" where
  "IncStreamEvent lib eventType m = m\<lparr>tm_streamEvents := pm_Inc lib eventType (tm_streamEvents m)\<rparr>"

definition IncIncoming ::
  "('g, 'h, 'v) prometheus \<Rightarrow> ('g, 'h, 'v) tunnel_metrics \<Rightarrow> ('g, 'h, 'v) tunnel_metrics" where
  "IncIncoming lib m = m\<lparr>tm_streamEvents := pm_Inc lib ''incoming'' (tm_streamEvents m)\<rparr>"

definition IncKeepalive ::
  "('g, 'h, 'v) prometheus \<Rightarrow> ('g, 'h, 'v) tunnel_metrics \<Rightarrow> ('g, 'h, 'v) tunnel_metrics" where
  "IncKeepalive lib m = m\<lparr>tm_streamEvents := pm_Inc lib ''keepalive'' (tm_streamEvents m)\<rparr>"

definition IncBackoff ::
  "('g, 'h, 'v) prometheus \<Rightarrow> ('g, 'h, 'v) tunnel_metrics \<Rightarrow> ('g, 'h, 'v) tunnel_metrics" where
  "IncBackoff lib m = m\<lparr>tm_streamEvents := pm_Inc lib ''backoff'' (tm_streamEvents m)\<rparr>"

subsection \<open>One instance, four collectors\<close>

text \<open>
  The collectors asked for first are the ones every later request returns, whatever is recorded in
  between: \<^verbatim>\<open>sync.Once\<close> makes one instance, and the recorded values live in it.
\<close>

definition same_instance :: "('g, 'h, 'v) metrics_globals \<Rightarrow> bool" where
  "same_instance mg \<longleftrightarrow> mg_tunnelMetricsOnce mg = (mg_tunnelMetricsInst mg \<noteq> None)"

lemma same_instance_start: "same_instance metrics_globals_start"
  by (simp add: same_instance_def metrics_globals_start_def)

lemma getTunnelMetrics_once:
  assumes "same_instance mg" and "getTunnelMetrics lib mg = (r, mg1)"
  shows "same_instance mg1 \<and> (\<exists>m. r = Some m \<and> getTunnelMetrics lib mg1 = (Some m, mg1)) \<and>
    (\<forall>m. mg_tunnelMetricsInst mg = Some m \<longrightarrow> r = Some m \<and> mg1 = mg)"
  using assms by (auto simp: getTunnelMetrics_def same_instance_def Let_def split: if_splits)

lemma TunnelCollectors_never_panics:
  assumes "same_instance mg"
  shows "\<exists>m cs mg1. TunnelCollectors lib mg = (Return cs, mg1) \<and> same_instance mg1 \<and> length cs = 4 \<and>
    mg_tunnelMetricsInst mg1 = Some m \<and> CounterVec (tm_streamEvents m) \<in> set cs"
  using assms by (auto simp: TunnelCollectors_def getTunnelMetrics_def same_instance_def Let_def split: if_splits)

text \<open>What is counted under one label depends on the events of this label only.\<close>

definition counts_events :: "('g, 'h, 'v) prometheus \<Rightarrow> (string \<Rightarrow> 'v \<Rightarrow> nat) \<Rightarrow> bool" where
  "counts_events lib reading \<longleftrightarrow>
     (\<forall>made ls l. reading l (pm_NewCounterVec lib made ls) = 0) \<and>
     (\<forall>l k v. reading l (pm_Inc lib k v) = (if l = k then Suc (reading l v) else reading l v))"

lemma stream_events_counted:
  assumes "counts_events lib reading"
  shows "reading l (tm_streamEvents (fold (IncStreamEvent lib) events (newTunnelMetrics lib))) =
    count_list events l"
proof -
  have "reading l (tm_streamEvents (fold (IncStreamEvent lib) events m)) =
      reading l (tm_streamEvents m) + count_list events l" for m
    using assms by (induction events arbitrary: m) (simp_all add: IncStreamEvent_def counts_events_def)
  with assms show ?thesis by (simp add: newTunnelMetrics_def counts_events_def)
qed

lemma named_events:
  "IncIncoming lib = IncStreamEvent lib ''incoming''" "IncKeepalive lib = IncStreamEvent lib ''keepalive''"
  "IncBackoff lib = IncStreamEvent lib ''backoff''"
  by (simp_all add: fun_eq_iff IncIncoming_def IncKeepalive_def IncBackoff_def IncStreamEvent_def)

end
