(* ===== verification/Mesh_Lib.thy ===== *)
theory Mesh_Lib
  imports Server_Lifecycle
begin

section \<open>The C library (cmd/meshlib/main.go)\<close>

text \<open>
  The server behind a C interface, for embedding in foreign runtimes. Servers and strings are
  handed out as numbers. Strings live on the C heap: \<open>ct_heap\<close> is what is allocated, and freeing
  what is not allocated is undefined behaviour, recorded in \<open>ct_undefined\<close>. The allocator may give
  any free address, one used before included; the address it gives in a call is the argument \<open>a\<close>.
  A call runs on the caller's thread \<open>t\<close>, which has an error text of its own. Every export
  recovers from panics. What \<^verbatim>\<open>fmt.Sprintf\<close> makes of a format is left structured.
\<close>

subsection \<open>Strings on the C heap\<close>

type_synonym addr = nat
type_synonym thread = nat
type_synonym uint64 = "64 word"

datatype c_text = CText string | CFormatted string "fmt_arg list"

record c_strings =
  ct_nextStrID :: uint64
  ct_liveStrs :: "uint64 \<rightharpoonup> addr"
  ct_errStr :: "thread \<rightharpoonup> addr"
  ct_heap :: "addr \<rightharpoonup> c_text"
  ct_undefined :: bool

definition no_strings :: c_strings where
  "no_strings =
     \<lparr>ct_nextStrID = 0, ct_liveStrs = Map.empty, ct_errStr = Map.empty, ct_heap = Map.empty, ct_undefined = False\<rparr>"

definition C_CString :: "addr \<Rightarrow> c_text \<Rightarrow> c_strings \<Rightarrow> c_strings" where
  "C_CString a s c = c\<lparr>ct_heap := (ct_heap c)(a \<mapsto> s)\<rparr>"

definition C_free :: "addr \<Rightarrow> c_strings \<Rightarrow> c_strings" where
  "C_free a c =
     (case ct_heap c a of
        None \<Rightarrow> c\<lparr>ct_undefined := True\<rparr>
      | Some s \<Rightarrow> c\<lparr>ct_heap := (ct_heap c)(a := None)\<rparr>)"

definition mesh_set_err :: "thread \<Rightarrow> addr \<Rightarrow> c_strings \<Rightarrow> c_strings" where
  "mesh_set_err t a c =
     (let c1 = (case ct_errStr c t of None \<Rightarrow> c | Some old \<Rightarrow> C_free old c)
      in c1\<lparr>ct_errStr := (ct_errStr c1)(t \<mapsto> a)\<rparr>)"

definition setErr :: "thread \<Rightarrow> addr \<Rightarrow> c_text \<Rightarrow> c_strings \<Rightarrow> c_strings" where
  "setErr t a s c = mesh_set_err t a (C_CString a s c)"

text \<open>\<open>None\<close> is the static empty string.\<close>

definition mesh_last_error :: "thread \<Rightarrow> c_strings \<Rightarrow> addr option" where
  "mesh_last_error t c = ct_errStr c t"

definition registerCString :: "addr \<Rightarrow> c_text \<Rightarrow> c_strings \<Rightarrow> uint64 \<times> c_strings" where
  "registerCString a s c =
     (let c1 = C_CString a s c; i = ct_nextStrID c1 + 1
      in (i, c1\<lparr>ct_nextStrID := i, ct_liveStrs := (ct_liveStrs c1)(i \<mapsto> a)\<rparr>))"

definition mesh_str_data :: "uint64 \<Rightarrow> c_strings \<Rightarrow> addr option" where
  "mesh_str_data h c = ct_liveStrs c h"

definition mesh_str_release :: "uint64 \<Rightarrow> c_strings \<Rightarrow> c_strings" where
  "mesh_str_release h c =
     (let cs = ct_liveStrs c h; c1 = c\<lparr>ct_liveStrs := (ct_liveStrs c)(h := None)\<rparr> in
      case cs of None \<Rightarrow> c1 | Some a \<Rightarrow> C_free a c1)"

subsection \<open>Server handles\<close>

record ('c, 'g, 'l) mesh_lib =
  ml_nextID :: uint64
  ml_handles :: "uint64 \<rightharpoonup> nat"
  ml_servers :: "nat \<rightharpoonup> ('c, 'g) mesh_server"
  ml_nextServer :: nat
  ml_logger :: "'l option"
  ml_strings :: c_strings

definition lib_start :: "('c, 'g, 'l) mesh_lib" where
  "lib_start =
     \<lparr>ml_nextID = 0, ml_handles = Map.empty, ml_servers = Map.empty, ml_nextServer = 0, ml_logger = None,
      ml_strings = no_strings\<rparr>"

definition lookup :: "uint64 \<Rightarrow> ('c, 'g, 'l) mesh_lib \<Rightarrow> nat option" where
  "lookup h m = ml_handles m h"

definition fails :: "thread \<Rightarrow> addr \<Rightarrow> string \<Rightarrow> fmt_arg list \<Rightarrow> ('c, 'g, 'l) mesh_lib \<Rightarrow> ('c, 'g, 'l) mesh_lib" where
  "fails t a fmt args m = m\<lparr>ml_strings := setErr t a (CFormatted fmt args) (ml_strings m)\<rparr>"

definition answers :: "addr \<Rightarrow> string \<Rightarrow> ('c, 'g, 'l) mesh_lib \<Rightarrow> uint64 \<times> ('c, 'g, 'l) mesh_lib" where
  "answers a s m =
     (case registerCString a (CText s) (ml_strings m) of (h, c) \<Rightarrow> (h, m\<lparr>ml_strings := c\<rparr>))"

definition bad_handle :: "uint64 \<Rightarrow> fmt_arg list" where
  "bad_handle h = [ArgInt (uint h)]"

text \<open>What building a server needs of the world, and how errors print.\<close>

record ('d, 'c, 'g, 'l, 'str, 'cc) lib_env =
  le_calls :: "nat \<Rightarrow> ('str, 'cc) call_env"   \<comment> \<open>what surrounds the \<open>k\<close>-th call\<close>
  le_viper :: "'d viper_lib"
  le_stat :: "string \<Rightarrow> go_error option"
  le_grpc :: "'g grpc_lib"
  le_build :: "zap_config \<Rightarrow> 'l result"
  le_generated :: "'c result"
  le_loaded :: "'c result"
  le_order :: "string list"
  le_yamux_err :: "yamux \<Rightarrow> go_error option"
  le_show :: "go_error \<Rightarrow> string"

definition mesh_server_new ::
  "('d, 'c, 'g, 'l, 'str, 'cc) lib_env \<Rightarrow> thread \<Rightarrow> addr \<Rightarrow> string \<Rightarrow> ('c, 'g, 'l) mesh_lib \<Rightarrow> uint64 \<times> ('c, 'g, 'l) mesh_lib" where
  "mesh_server_new env t a cfgJSON m =
     (case LoadBytes (le_viper env) (le_stat env) cfgJSON of
        Inl err \<Rightarrow> (0, fails t a ''invalid config: %v'' [ArgStr (le_show env err)] m)
      | Inr cfg \<Rightarrow>
          (case server_New (le_grpc env) (le_build env) (le_generated env) (le_loaded env) (le_order env)
                  (le_yamux_err env) cfg (ml_logger m) of
             (Inl err, lg) \<Rightarrow>
               (0, fails t a ''failed to construct server: %v'' [ArgStr (le_show env err)] (m\<lparr>ml_logger := lg\<rparr>))
           | (Inr srv, lg) \<Rightarrow>
               let i = ml_nextID m + 1; n = ml_nextServer m in
               (i, m\<lparr>ml_logger := lg, ml_nextID := i, ml_handles := (ml_handles m)(i \<mapsto> n),
                     ml_servers := (ml_servers m)(n \<mapsto> srv), ml_nextServer := Suc n\<rparr>)))"

text \<open>A call on a handle's server. A \<^verbatim>\<open>nil\<close> server would panic; the recovery reports it.\<close>

definition with_server ::
  "thread \<Rightarrow> addr \<Rightarrow> string \<Rightarrow> 'r \<Rightarrow> uint64 \<Rightarrow>
   (nat \<Rightarrow> ('c, 'g) mesh_server \<Rightarrow> ('r \<times> ('c, 'g, 'l) mesh_lib) outcome) \<Rightarrow> ('c, 'g, 'l) mesh_lib
     \<Rightarrow> 'r \<times> ('c, 'g, 'l) mesh_lib" where
  "with_server t a export failure h body m =
     (case lookup h m of
        None \<Rightarrow> (failure, fails t a ''invalid handle: %d'' (bad_handle h) m)
      | Some n \<Rightarrow>
          (case (case ml_servers m n of None \<Rightarrow> Panic ''nil pointer dereference'' | Some srv \<Rightarrow> body n srv) of
             Return r \<Rightarrow> r
           | Panic msg \<Rightarrow> (failure, fails t a (''panic in '' @ export @ '': %v'') [ArgStr msg] m)))"

definition mesh_server_start ::
  "(go_error \<Rightarrow> string) \<Rightarrow> bindings \<Rightarrow> thread \<Rightarrow> addr \<Rightarrow> uint64 \<Rightarrow> ('c, 'g, 'l) mesh_lib \<Rightarrow> int \<times> ('c, 'g, 'l) mesh_lib" where
  "mesh_server_start show bd t a h m =
     with_server t a ''mesh_server_start'' 1 h (\<lambda>n srv.
       Return
         (case server_Start bd srv of
            (Some err, srv1) \<Rightarrow>
              (1, fails t a ''start failed: %v'' [ArgStr (show err)] (m\<lparr>ml_servers := (ml_servers m)(n \<mapsto> srv1)\<rparr>))
          | (None, srv1) \<Rightarrow> (0, m\<lparr>ml_servers := (ml_servers m)(n \<mapsto> srv1)\<rparr>))) m"

definition mesh_server_stop ::
  "'g grpc_lib \<Rightarrow> go_error option \<Rightarrow> thread \<Rightarrow> addr \<Rightarrow> uint64 \<Rightarrow> ('c, 'g, 'l) mesh_lib \<Rightarrow> int \<times> ('c, 'g, 'l) mesh_lib" where
  "mesh_server_stop glib closing t a h m =
     with_server t a ''mesh_server_stop'' 1 h (\<lambda>n srv.
       Return (0, m\<lparr>ml_servers := (ml_servers m)(n \<mapsto> server_Stop glib closing srv)\<rparr>)) m"

text \<open>\<open>mesh_server_free\<close> swallows a panic of the stop without a trace.\<close>

definition mesh_server_free ::
  "'g grpc_lib \<Rightarrow> go_error option \<Rightarrow> uint64 \<Rightarrow> ('c, 'g, 'l) mesh_lib \<Rightarrow> ('c, 'g, 'l) mesh_lib" where
  "mesh_server_free glib closing h m =
     (let ms = ml_handles m h; m1 = m\<lparr>ml_handles := (ml_handles m)(h := None)\<rparr> in
      case ms of
        None \<Rightarrow> m1
      | Some n \<Rightarrow>
          (case ml_servers m1 n of
             None \<Rightarrow> m1
           | Some srv \<Rightarrow> m1\<lparr>ml_servers := (ml_servers m1)(n \<mapsto> server_Stop glib closing srv)\<rparr>))"

subsection \<open>Calls\<close>

definition mesh_invoke ::
  "('str, 'cc) call_env \<Rightarrow> (invoke_response \<Rightarrow> string result) \<Rightarrow> thread \<Rightarrow> addr \<Rightarrow> uint64 \<Rightarrow> string \<Rightarrow> string
     \<Rightarrow> byte list \<Rightarrow> int \<Rightarrow> 32 word \<Rightarrow> ('c, 'g, 'l) mesh_lib \<Rightarrow> uint64 \<times> ('c, 'g, 'l) mesh_lib" where
  "mesh_invoke env marshal t a h peerID method payload payloadLen timeoutMs m =
     with_server t a ''mesh_invoke'' 0 h (\<lambda>n srv.
       let payloadBytes = (if payloadLen > 0 then take (nat payloadLen) payload else []);
           req = \<lparr>rq_PeerId = peerID, rq_Method = method, rq_Payload = payloadBytes, rq_CorrelationId = '''',
                  rq_TimeoutMs = timeoutMs\<rparr>
       in bind_outcome
            (Gateway_Invoke env (ReverseGateway srv) \<lparr>ctx_deadline = None\<rparr> (rq_PeerId req) req (server_Registry srv))
            (\<lambda>answer. Return
               (case answer of
                  Inl err \<Rightarrow> (0, fails t a ''invoke failed: %v'' [ArgStr (ce_Error env err)] m)
                | Inr resp \<Rightarrow>
                    (case marshal resp of
                       Inl err \<Rightarrow> (0, fails t a ''marshal response: %v'' [ArgStr (ce_Error env err)] m)
                     | Inr data \<Rightarrow> answers a data m)))) m"

record node_json =
  nj_NodeID :: string
  nj_Version :: string
  nj_Methods :: "string list"
  nj_ConnectedAt :: string
  nj_LastHeartbeat :: string

fun node_loop :: "(instant \<Rightarrow> string) \<Rightarrow> session_state list \<Rightarrow> node_json list outcome" where
  "node_loop format [] = Return []"
| "node_loop format (s # ss) =
     (let methods = (case Methods s of None \<Rightarrow> [] | Some ms \<Rightarrow> ms) in
      case ss_Handshake s of
        None \<Rightarrow> Panic ''nil pointer dereference''
      | Some hs \<Rightarrow>
          bind_outcome (node_loop format ss) (\<lambda>rest. Return
            (\<lparr>nj_NodeID = ss_PeerID s, nj_Version = hs_Version hs, nj_Methods = methods,
              nj_ConnectedAt = format (ss_ConnectedAt s), nj_LastHeartbeat = format (ss_LastHeartbeat s)\<rparr> # rest)))"

definition mesh_list_nodes ::
  "(node_json list \<Rightarrow> string result) \<Rightarrow> (instant \<Rightarrow> string) \<Rightarrow> (go_error \<Rightarrow> string) \<Rightarrow> (sref \<Rightarrow> string list)
     \<Rightarrow> peer_id list \<Rightarrow> thread \<Rightarrow> addr \<Rightarrow> uint64 \<Rightarrow> ('c, 'g, 'l) mesh_lib \<Rightarrow> uint64 \<times> ('c, 'g, 'l) mesh_lib" where
  "mesh_list_nodes marshal format show mds order t a h m =
     with_server t a ''mesh_list_nodes'' 0 h (\<lambda>n srv.
       bind_outcome (ListSessions mds order (server_Registry srv)) (\<lambda>sessions.
         bind_outcome (node_loop format sessions) (\<lambda>nodes. Return
           (case marshal nodes of
              Inl err \<Rightarrow> (0, fails t a ''marshal nodes: %v'' [ArgStr (show err)] m)
            | Inr data \<Rightarrow> answers a data m)))) m"

subsection \<open>What a call does to the strings\<close>

text \<open>
  One step of the string store: nothing, a new error text, a new string, or a release, which bears
  its handle. The allocator never gives an address that is in use.
\<close>

inductive c_step :: "uint64 option \<Rightarrow> c_strings \<Rightarrow> c_strings \<Rightarrow> bool" where
  Quiet: "c_step None c c"
| Error: "ct_heap c a = None \<Longrightarrow> c_step None c (setErr t a s c)"
| Issue: "ct_heap c a = None \<Longrightarrow> c_step None c (snd (registerCString a s c))"
| Release: "c_step (Some h) c (mesh_str_release h c)"

text \<open>The calls of the library.\<close>

inductive abi_step :: "('d, 'c, 'g, 'l, 'str, 'cc) lib_env \<Rightarrow> uint64 option \<Rightarrow> ('c, 'g, 'l) mesh_lib \<Rightarrow> ('c, 'g, 'l) mesh_lib \<Rightarrow> bool"
  for env where
  New: "ct_heap (ml_strings m) a = None \<Longrightarrow> mesh_server_new env t a json m = (h, m') \<Longrightarrow> abi_step env None m m'"
| Start: "ct_heap (ml_strings m) a = None \<Longrightarrow> mesh_server_start (le_show env) bd t a h m = (rc, m') \<Longrightarrow> abi_step env None m m'"
| Stop: "ct_heap (ml_strings m) a = None \<Longrightarrow> mesh_server_stop (le_grpc env) closing t a h m = (rc, m') \<Longrightarrow> abi_step env None m m'"
| Free: "abi_step env None m (mesh_server_free (le_grpc env) closing h m)"
| Call: "ct_heap (ml_strings m) a = None \<Longrightarrow> mesh_invoke (le_calls env k) marshal t a h p meth payload n ms m = (out, m') \<Longrightarrow> abi_step env None m m'"
| Nodes: "ct_heap (ml_strings m) a = None \<Longrightarrow> mesh_list_nodes marshal' format (le_show env) mds order t a h m = (out, m') \<Longrightarrow> abi_step env None m m'"
| Done: "abi_step env (Some h) m (m\<lparr>ml_strings := mesh_str_release h (ml_strings m)\<rparr>)"

lemma fails_strings [simp]: "ml_strings (fails t a fmt args m) = setErr t a (CFormatted fmt args) (ml_strings m)"
  by (simp add: fails_def)

lemma answers_strings: "ml_strings (snd (answers a s m)) = snd (registerCString a (CText s) (ml_strings m))"
  by (simp add: answers_def split: prod.split)

lemma with_server_strings:
  assumes "ct_heap (ml_strings m) a = None"
    and "\<And>n srv r. body n srv = Return r \<Longrightarrow> c_step None (ml_strings m) (ml_strings (snd r))"
  shows "c_step None (ml_strings m) (ml_strings (snd (with_server t a export failure h body m)))"
  using assms(2) c_step.Error [OF assms(1)]
  by (auto simp: with_server_def split: option.splits outcome.splits)

lemma bind_returns: "bind_outcome w f = Return r \<Longrightarrow> (\<And>x. w = Return x \<Longrightarrow> f x = Return r \<Longrightarrow> P) \<Longrightarrow> P"
  by (cases w) auto

lemma bind_strings:
  assumes "bind_outcome w (\<lambda>x. Return (f x)) = Return r" and "\<And>x. c_step None c (ml_strings (snd (f x)))"
  shows "c_step None c (ml_strings (snd r))"
  using assms by (cases w) auto

lemma abi_step_strings:
  "abi_step env l m m' \<Longrightarrow> c_step l (ml_strings m) (ml_strings m')"
proof (induction rule: abi_step.induct)
  case (New m a t json h m')
  then show ?case
    using c_step.Error [OF New(1)] c_step.Quiet
    by (auto simp: mesh_server_new_def Let_def split: sum.splits prod.splits)
next
  case (Start m a bd t h rc m')
  have "c_step None (ml_strings m) (ml_strings (snd (mesh_server_start (le_show env) bd t a h m)))"
    unfolding mesh_server_start_def
    using c_step.Error [OF Start(1)] c_step.Quiet
    by (intro with_server_strings [OF Start(1)]) (auto split: prod.splits option.splits)
  with Start(2) show ?case by simp
next
  case (Stop m a closing t h rc m')
  have "c_step None (ml_strings m) (ml_strings (snd (mesh_server_stop (le_grpc env) closing t a h m)))"
    unfolding mesh_server_stop_def
    using c_step.Quiet by (intro with_server_strings [OF Stop(1)]) auto
  with Stop(2) show ?case by simp
next
  case (Free m closing h)
  then show ?case using c_step.Quiet by (auto simp: mesh_server_free_def Let_def split: option.splits)
next
  case (Call m a k marshal t h p meth payload n ms out m')
  have "c_step None (ml_strings m) (ml_strings (snd (mesh_invoke (le_calls env k) marshal t a h p meth payload n ms m)))"
    unfolding mesh_invoke_def
    by (intro with_server_strings [OF Call(1)], unfold Let_def, erule bind_strings)
       (auto simp: answers_strings intro: c_step.Error [OF Call(1)] c_step.Issue [OF Call(1)] split: sum.splits)
  with Call(2) show ?case by simp
next
  case (Nodes m a marshal' format mds order t h out m')
  have "c_step None (ml_strings m) (ml_strings (snd (mesh_list_nodes marshal' format (le_show env) mds order t a h m)))"
    unfolding mesh_list_nodes_def
    by (intro with_server_strings [OF Nodes(1)], erule bind_returns, erule bind_strings)
       (auto simp: answers_strings intro: c_step.Error [OF Nodes(1)] c_step.Issue [OF Nodes(1)] split: sum.splits)
  with Nodes(2) show ?case by simp
next
  case (Done h m)
  then show ?case using c_step.Release by simp
qed

subsection \<open>Ownership of the C heap\<close>

text \<open>
  Every allocation has exactly one owner, a string handle or a thread's error text, and every owner
  holds an allocation. Handles have been issued in order: those up to the counter.
\<close>

definition one_owner :: "(addr \<rightharpoonup> 't) \<Rightarrow> ('o \<rightharpoonup> addr) \<Rightarrow> bool" where
  "one_owner heap own \<longleftrightarrow> dom heap = ran own \<and> (\<forall>x y a. own x = Some a \<longrightarrow> own y = Some a \<longrightarrow> x = y)"

lemma one_owner_alloc:
  assumes "one_owner heap own" and "heap a = None" and "own x = None"
  shows "one_owner (heap(a \<mapsto> s)) (own(x \<mapsto> a))"
proof -
  have "a \<notin> ran own" using assms(1,2) by (auto simp: one_owner_def)
  then have "own y \<noteq> Some a" for y by (auto simp: ran_def)
  with assms(1,3) show ?thesis by (auto simp: one_owner_def)
qed

lemma one_owner_free:
  assumes "one_owner heap own" and "own x = Some a"
  shows "one_owner (heap(a := None)) (own(x := None))"
proof -
  have "ran (own(x := None)) = ran own - {a}"
    using assms by (auto simp: one_owner_def ran_def) (metis option.inject)
  with assms(1) show ?thesis by (auto simp: one_owner_def)
qed

lemma one_owner_eq: "one_owner heap own \<Longrightarrow> own x = Some a \<Longrightarrow> own y = Some a \<Longrightarrow> x = y"
  by (simp add: one_owner_def)

lemma one_owner_live: "one_owner heap own \<Longrightarrow> own x = Some a \<Longrightarrow> \<exists>s. heap a = Some s"
  by (metis domD one_owner_def ranI)

definition owner :: "c_strings \<Rightarrow> uint64 + thread \<Rightarrow> addr option" where
  "owner c x = (case x of Inl h \<Rightarrow> ct_liveStrs c h | Inr t \<Rightarrow> ct_errStr c t)"

definition owned :: "c_strings \<Rightarrow> bool" where
  "owned c \<longleftrightarrow> \<not> ct_undefined c \<and> one_owner (ct_heap c) (owner c) \<and>
     (\<forall>h a. ct_liveStrs c h = Some a \<longrightarrow> 0 < h \<and> h \<le> ct_nextStrID c)"

lemma ownedD:
  assumes "owned c"
  shows "\<not> ct_undefined c" and "one_owner (ct_heap c) (owner c)"
    and "ct_liveStrs c h = Some a \<Longrightarrow> 0 < h \<and> h \<le> ct_nextStrID c"
    and "ct_liveStrs c h = Some a \<Longrightarrow> \<exists>s. ct_heap c a = Some s"
    and "ct_errStr c t = Some a \<Longrightarrow> \<exists>s. ct_heap c a = Some s"
  using assms one_owner_live [of "ct_heap c" "owner c" "Inl h"] one_owner_live [of "ct_heap c" "owner c" "Inr t"]
  by (auto simp: owned_def owner_def)

lemma owned_start: "owned no_strings"
  by (simp add: owned_def no_strings_def one_owner_def owner_def ran_def split: sum.split)

lemma owner_upd:
  "owner (c\<lparr>ct_liveStrs := (ct_liveStrs c)(h := v)\<rparr>) = (owner c)(Inl h := v)"
  "owner (c\<lparr>ct_errStr := (ct_errStr c)(t := v)\<rparr>) = (owner c)(Inr t := v)"
  "owner (c\<lparr>ct_heap := hp\<rparr>) = owner c" "owner (c\<lparr>ct_nextStrID := i\<rparr>) = owner c"
  by (auto simp: owner_def fun_eq_iff split: sum.splits)

lemma owned_setErr:
  assumes "owned c" and "ct_heap c a = None"
  shows "owned (setErr t a s c)"
proof (cases "ct_errStr c t")
  case None
  let ?c = "c\<lparr>ct_heap := (ct_heap c)(a \<mapsto> s), ct_errStr := (ct_errStr c)(t \<mapsto> a)\<rparr>"
  have "owner ?c = (owner c)(Inr t \<mapsto> a)" by (auto simp: owner_def fun_eq_iff split: sum.splits)
  moreover have "one_owner ((ct_heap c)(a \<mapsto> s)) ((owner c)(Inr t \<mapsto> a))"
    by (rule one_owner_alloc [OF ownedD(2) [OF assms(1)] assms(2)]) (simp add: owner_def None)
  moreover have "setErr t a s c = ?c" using None by (simp add: setErr_def mesh_set_err_def C_CString_def)
  ultimately show ?thesis using assms(1) by (auto simp: owned_def)
next
  case (Some old)
  obtain s0 where old: "ct_heap c old = Some s0" using ownedD(5) [OF assms(1) Some] by blast
  then have ne: "old \<noteq> a" using assms(2) by auto
  let ?c = "c\<lparr>ct_heap := ((ct_heap c)(old := None))(a \<mapsto> s), ct_errStr := (ct_errStr c)(t \<mapsto> a)\<rparr>"
  have o: "owner ?c = ((owner c)(Inr t := None))(Inr t \<mapsto> a)"
    by (auto simp: owner_def fun_eq_iff split: sum.splits)
  have "one_owner ((ct_heap c)(old := None)) ((owner c)(Inr t := None))"
    by (rule one_owner_free [OF ownedD(2) [OF assms(1)]]) (simp add: owner_def Some)
  then have "one_owner (((ct_heap c)(old := None))(a \<mapsto> s)) (((owner c)(Inr t := None))(Inr t \<mapsto> a))"
    by (rule one_owner_alloc) (simp_all add: assms(2))
  moreover have "setErr t a s c = ?c"
    using Some old ne by (simp add: setErr_def mesh_set_err_def C_CString_def C_free_def fun_upd_twist)
  ultimately show ?thesis using assms(1) o by (auto simp: owned_def)
qed

lemma next_id:
  fixes n :: uint64
  assumes "unat n + 1 < 2 ^ 64"
  shows "unat (n + 1) = unat n + 1" and "0 < n + 1" and "h \<le> n \<Longrightarrow> h \<le> n + 1" and "h \<le> n \<Longrightarrow> h \<noteq> n + 1"
proof -
  show *: "unat (n + 1) = unat n + 1" using assms by (simp add: unat_word_ariths)
  then show "0 < n + 1" "h \<le> n \<Longrightarrow> h \<le> n + 1" "h \<le> n \<Longrightarrow> h \<noteq> n + 1"
    by (auto simp: word_less_nat_alt word_le_nat_alt)
qed

lemma registerCString_eq:
  "snd (registerCString a s c) =
     c\<lparr>ct_heap := (ct_heap c)(a \<mapsto> s), ct_nextStrID := ct_nextStrID c + 1,
       ct_liveStrs := (ct_liveStrs c)(ct_nextStrID c + 1 \<mapsto> a)\<rparr>"
  by (simp add: registerCString_def C_CString_def Let_def)

lemma owned_register:
  assumes "owned c" and "ct_heap c a = None" and "unat (ct_nextStrID c) + 1 < 2 ^ 64"
  shows "owned (snd (registerCString a s c))"
proof -
  let ?i = "ct_nextStrID c + 1"
  note ids = next_id(2-4) [OF assms(3)]
  have fresh: "ct_liveStrs c ?i = None"
    using ids(3) ownedD(3) [OF assms(1), of ?i] by (cases "ct_liveStrs c ?i") auto
  have "owner (snd (registerCString a s c)) = (owner c)(Inl ?i \<mapsto> a)"
    by (auto simp: registerCString_eq owner_def fun_eq_iff split: sum.splits)
  moreover have "one_owner ((ct_heap c)(a \<mapsto> s)) ((owner c)(Inl ?i \<mapsto> a))"
    by (rule one_owner_alloc [OF ownedD(2) [OF assms(1)] assms(2)]) (simp add: owner_def fresh)
  moreover have "0 < h \<and> h \<le> ?i" if "((ct_liveStrs c)(?i \<mapsto> a)) h = Some b" for h b
    using that ids(1,2) ownedD(3) [OF assms(1), of h b] by (auto split: if_splits)
  ultimately show ?thesis using ownedD(1) [OF assms(1)] by (simp add: owned_def registerCString_eq)
qed

lemma release_dead: "ct_liveStrs c h = None \<Longrightarrow> mesh_str_release h c = c"
  by (simp add: mesh_str_release_def Let_def fun_upd_idem)

lemma release_live:
  "ct_liveStrs c h = Some a \<Longrightarrow> ct_heap c a = Some s \<Longrightarrow>
   mesh_str_release h c = c\<lparr>ct_liveStrs := (ct_liveStrs c)(h := None), ct_heap := (ct_heap c)(a := None)\<rparr>"
  by (simp add: mesh_str_release_def C_free_def Let_def)

lemma owned_release:
  assumes "owned c"
  shows "owned (mesh_str_release h c)"
proof (cases "ct_liveStrs c h")
  case None
  with assms show ?thesis by (simp add: release_dead)
next
  case (Some a)
  obtain s where s: "ct_heap c a = Some s" using ownedD(4) [OF assms Some] by blast
  have "owner (mesh_str_release h c) = (owner c)(Inl h := None)"
    unfolding release_live [OF Some s] by (auto simp: owner_def fun_eq_iff split: sum.splits)
  moreover have "one_owner ((ct_heap c)(a := None)) ((owner c)(Inl h := None))"
    by (rule one_owner_free [OF ownedD(2) [OF assms]]) (simp add: owner_def Some)
  ultimately show ?thesis using assms by (auto simp: owned_def release_live [OF Some s])
qed

lemma c_step_counts:
  "c_step l c c' \<Longrightarrow> unat (ct_nextStrID c') \<le> unat (ct_nextStrID c) + 1"
proof (induction rule: c_step.induct)
  case (Issue c a s)
  have "unat (ct_nextStrID c + 1) \<le> unat (ct_nextStrID c) + 1"
    by (simp add: unat_word_ariths)
  then show ?case by (simp add: registerCString_eq)
qed (simp_all add: setErr_def mesh_set_err_def C_CString_def C_free_def mesh_str_release_def Let_def
    split: option.splits)

lemma c_step_owned:
  assumes "c_step l c c'" and "owned c" and "unat (ct_nextStrID c) + 1 < 2 ^ 64"
  shows "owned c'"
  using assms(1)
proof (cases rule: c_step.cases)
  case (Issue a s)
  then show ?thesis by (simp only: owned_register [OF assms(2) Issue(3) assms(3)])
qed (simp_all add: assms(2) owned_setErr owned_release)

subsection \<open>Runs of calls\<close>

text \<open>Calls one after the other, by any threads; the labels say which handles were released.\<close>

inductive abi_run ::
  "('d, 'c, 'g, 'l, 'str, 'cc) lib_env \<Rightarrow> uint64 option list \<Rightarrow> ('c, 'g, 'l) mesh_lib \<Rightarrow> ('c, 'g, 'l) mesh_lib \<Rightarrow> bool"
  for env where
  Stay: "abi_run env [] m m"
| Then: "abi_run env ls m m1 \<Longrightarrow> abi_step env l m1 m2 \<Longrightarrow> abi_run env (ls @ [l]) m m2"

definition issued :: "('c, 'g, 'l) mesh_lib \<Rightarrow> nat" where
  "issued m = unat (ct_nextStrID (ml_strings m))"

lemma abi_run_owned:
  assumes "abi_run env ls m m'" and "owned (ml_strings m)" and "issued m + length ls < 2 ^ 64"
  shows "owned (ml_strings m') \<and> issued m' \<le> issued m + length ls"
  using assms
proof (induction rule: abi_run.induct)
  case (Then ls m m1 l m2)
  then have m1: "owned (ml_strings m1)" "issued m1 \<le> issued m + length ls" by simp_all
  have c: "c_step l (ml_strings m1) (ml_strings m2)" by (rule abi_step_strings [OF Then(2)])
  have "unat (ct_nextStrID (ml_strings m1)) + 1 < 2 ^ 64"
    using m1(2) Then.prems(2) unfolding issued_def length_append by (simp only: list.size)
  from c_step_owned [OF c m1(1) this] c_step_counts [OF c] m1(2) show ?case by (simp add: issued_def)
qed simp

lemma lib_start_owned: "owned (ml_strings lib_start)" "issued lib_start = 0"
  using owned_start by (simp_all add: lib_start_def issued_def) (simp add: no_strings_def)

lemma abi_run_from_start:
  assumes "abi_run env ls lib_start m" and "length ls < 2 ^ 64"
  shows "owned (ml_strings m)" and "issued m \<le> length ls"
proof -
  have "issued (lib_start :: ('b, 'c, 'd) mesh_lib) + length ls < 2 ^ 64"
    using assms(2) by (simp only: lib_start_owned(2) add_0)
  from abi_run_owned [OF assms(1) lib_start_owned(1) this]
  show "owned (ml_strings m)" "issued m \<le> length ls" by (simp_all add: lib_start_owned(2))
qed

lemma c_step_keeps_string:
  assumes "c_step l c c'" and "owned c" and "ct_liveStrs c h = Some a" and "l \<noteq> Some h"
    and "unat (ct_nextStrID c) + 1 < 2 ^ 64"
  shows "ct_liveStrs c' h = Some a \<and> ct_heap c' a = ct_heap c a"
  using assms(1)
proof (cases rule: c_step.cases)
  case Quiet
  with assms(3) show ?thesis by simp
next
  case (Error b t s)
  have "b \<noteq> a" using Error(3) ownedD(4) [OF assms(2,3)] by auto
  moreover have "ct_errStr c t \<noteq> Some a"
    using ownedD(2) [OF assms(2)] assms(3) by (auto simp: one_owner_def owner_def split: sum.splits)
  ultimately show ?thesis using Error(2) assms(3)
    by (auto simp: setErr_def mesh_set_err_def C_CString_def C_free_def split: option.splits)
next
  case (Issue b s)
  have "b \<noteq> a" using Issue(3) ownedD(4) [OF assms(2,3)] by auto
  moreover have "h \<noteq> ct_nextStrID c + 1"
    using next_id(4) [OF assms(5)] ownedD(3) [OF assms(2,3)] by blast
  ultimately show ?thesis using Issue(2) assms(3) by (simp add: registerCString_eq)
next
  case (Release k)
  then have k: "k \<noteq> h" "c' = mesh_str_release k c" using assms(4) by auto
  show ?thesis
  proof (cases "ct_liveStrs c k")
    case None
    with k(2) assms(3) show ?thesis by (simp add: release_dead)
  next
    case (Some b)
    obtain s where s: "ct_heap c b = Some s" using ownedD(4) [OF assms(2) Some] by blast
    have "owner c (Inl h) = Some a" "owner c (Inl k) = Some b" using assms(3) Some by (simp_all add: owner_def)
    then have "b \<noteq> a" using one_owner_eq [OF ownedD(2) [OF assms(2)], of "Inl h" a "Inl k"] k(1) by auto
    with k assms(3) release_live [OF Some s] show ?thesis by simp
  qed
qed

lemma c_step_keeps_dead:
  assumes "c_step l c c'" and "ct_liveStrs c h = None" and "h \<le> ct_nextStrID c"
    and "unat (ct_nextStrID c) + 1 < 2 ^ 64"
  shows "ct_liveStrs c' h = None \<and> h \<le> ct_nextStrID c'"
  using assms(1)
proof (cases rule: c_step.cases)
  case (Issue a s)
  with assms(2) next_id(3,4) [OF assms(4) assms(3)] show ?thesis by (simp add: registerCString_eq)
qed (use assms(2,3) in \<open>auto simp: setErr_def mesh_set_err_def C_CString_def C_free_def mesh_str_release_def Let_def
       split: option.splits\<close>)

lemma abi_run_keeps_string:
  assumes "abi_run env ls m m'" and "owned (ml_strings m)" and "issued m + length ls < 2 ^ 64"
    and "ct_liveStrs (ml_strings m) h = Some a" and "Some h \<notin> set ls"
  shows "ct_liveStrs (ml_strings m') h = Some a \<and> ct_heap (ml_strings m') a = ct_heap (ml_strings m) a"
  using assms
proof (induction rule: abi_run.induct)
  case (Then ls m m1 l m2)
  from Then.prems have b: "issued m + length ls < 2 ^ 64" by simp
  from abi_run_owned [OF Then(1) Then.prems(1) b]
  have m1: "owned (ml_strings m1)" "unat (ct_nextStrID (ml_strings m1)) + 1 < 2 ^ 64"
    using Then.prems(2) by (simp_all add: issued_def)
  from Then have "ct_liveStrs (ml_strings m1) h = Some a" "ct_heap (ml_strings m1) a = ct_heap (ml_strings m) a"
    by simp_all
  moreover have "l \<noteq> Some h" using Then.prems(4) by auto
  ultimately show ?case
    using c_step_keeps_string [OF abi_step_strings [OF Then(2)] m1(1) _ _ m1(2), of h a] by simp
qed simp

lemma abi_run_keeps_dead:
  assumes "abi_run env ls m m'" and "owned (ml_strings m)" and "issued m + length ls < 2 ^ 64"
    and "ct_liveStrs (ml_strings m) h = None" and "h \<le> ct_nextStrID (ml_strings m)"
  shows "ct_liveStrs (ml_strings m') h = None \<and> h \<le> ct_nextStrID (ml_strings m')"
  using assms
proof (induction rule: abi_run.induct)
  case (Then ls m m1 l m2)
  from Then.prems have b: "issued m + length ls < 2 ^ 64" by simp
  from abi_run_owned [OF Then(1) Then.prems(1) b]
  have "unat (ct_nextStrID (ml_strings m1)) + 1 < 2 ^ 64" using Then.prems(2) by (simp add: issued_def)
  moreover from Then have "ct_liveStrs (ml_strings m1) h = None" "h \<le> ct_nextStrID (ml_strings m1)" by simp_all
  ultimately show ?case using c_step_keeps_dead [OF abi_step_strings [OF Then(2)]] by blast
qed simp

subsection \<open>Properties\<close>

text \<open>
  C13. The C heap stays sound: whatever calls a foreign runtime makes, with whatever handles, stale
  or made up, from whatever threads, and however the allocator reuses addresses, the library never
  frees what is not allocated, and what is allocated is exactly the strings of the handles not yet
  released and the last error text of each thread: nothing leaks. Handle zero is never issued. The
  bound is on the handles a 64 bit counter can number.
\<close>

theorem C_heap_stays_sound:
  assumes "abi_run env ls lib_start m" and "length ls < 2 ^ 64"
  shows "\<not> ct_undefined (ml_strings m) \<and>
    dom (ct_heap (ml_strings m)) =
      {a. \<exists>h. mesh_str_data h (ml_strings m) = Some a} \<union> {a. \<exists>t. mesh_last_error t (ml_strings m) = Some a} \<and>
    mesh_str_data 0 (ml_strings m) = None"
proof -
  note o = abi_run_from_start(1) [OF assms]
  have "ran (owner (ml_strings m)) =
      {a. \<exists>h. ct_liveStrs (ml_strings m) h = Some a} \<union> {a. \<exists>t. ct_errStr (ml_strings m) t = Some a}"
    by (auto simp: ran_def owner_def split: sum.split_asm intro: exI [of _ "Inl _"] exI [of _ "Inr _"])
  moreover have "ct_liveStrs (ml_strings m) 0 = None"
    using ownedD(3) [OF o, of 0] by (cases "ct_liveStrs (ml_strings m) 0") auto
  ultimately show ?thesis
    using ownedD(1,2) [OF o] by (simp add: one_owner_def mesh_str_data_def mesh_last_error_def)
qed

definition demo_lib_env :: "(unit, nat, socket set \<times> bool, unit, unit, unit) lib_env" where
  "demo_lib_env =
     \<lparr>le_calls = (\<lambda>_. demo_call), le_viper = demo_viper, le_stat = (\<lambda>_. None), le_grpc = plain_grpc, le_build = (\<lambda>_. Inr ()),
      le_generated = Inr 7, le_loaded = Inl (Foreign ''no file''), le_order = [], le_yamux_err = (\<lambda>_. None),
      le_show = (\<lambda>_. ''error'')\<rparr>"

text \<open>A call with a made-up handle on thread 1, whose error text gets the address 4.\<close>

abbreviation demo_lib :: "(nat, socket set \<times> bool, unit) mesh_lib" where
  "demo_lib \<equiv> lib_start"

abbreviation demo_after_error :: "(nat, socket set \<times> bool, unit) mesh_lib" where
  "demo_after_error \<equiv> snd (mesh_server_stop plain_grpc None 1 4 99 demo_lib)"

lemma demo_env_grpc: "le_grpc demo_lib_env = plain_grpc"
  by (simp add: demo_lib_env_def)

lemma demo_free: "ct_heap (ml_strings demo_lib) a = None"
  by (simp add: lib_start_def no_strings_def)

lemma demo_error_run: "abi_run demo_lib_env [None] demo_lib demo_after_error"
proof -
  have "abi_step demo_lib_env None demo_lib demo_after_error"
    by (rule abi_step.Stop [where rc = "fst (mesh_server_stop plain_grpc None 1 4 99 demo_lib)" and a = 4
          and t = 1 and h = 99 and closing = None])
       (simp_all only: demo_env_grpc demo_free prod.collapse)
  from abi_run.Then [OF abi_run.Stay this] show ?thesis by simp
qed

theorem C_heap_stays_sound_witness:
  "\<not> ct_undefined (ml_strings demo_after_error) \<and> mesh_str_data 0 (ml_strings demo_after_error) = None"
  using C_heap_stays_sound [OF demo_error_run] by simp

text \<open>
  C14. The life of a string handle: from the call that issued it until its first release, whatever
  happens in between, it yields the same address with the same text. After the release it yields
  \<^verbatim>\<open>NULL\<close> for ever, though its address may have been given to another string, and every further
  release of it does nothing.
\<close>

theorem string_handle_lifetime:
  assumes "abi_run env ls0 lib_start m" and "ct_heap (ml_strings m) a = None"
    and "registerCString a s (ml_strings m) = (h, c)"
    and "abi_run env ls1 (m\<lparr>ml_strings := c\<rparr>) m1" and "Some h \<notin> set ls1"
    and "abi_run env ls2 (m1\<lparr>ml_strings := mesh_str_release h (ml_strings m1)\<rparr>) m2"
    and "length ls0 + length ls1 + length ls2 + 1 < 2 ^ 64"
  shows "h \<noteq> 0 \<and> mesh_str_data h (ml_strings m1) = Some a \<and> ct_heap (ml_strings m1) a = Some s \<and>
    mesh_str_data h (ml_strings m2) = None \<and> mesh_str_release h (ml_strings m2) = ml_strings m2"
proof -
  let ?m = "m\<lparr>ml_strings := c\<rparr>" and ?r = "m1\<lparr>ml_strings := mesh_str_release h (ml_strings m1)\<rparr>"
  have "length ls0 < 2 ^ 64" using assms(7) by linarith
  note m = abi_run_from_start [OF assms(1) this]
  then have b: "unat (ct_nextStrID (ml_strings m)) + 1 < 2 ^ 64" using assms(7) by (simp add: issued_def)
  have c: "c = snd (registerCString a s (ml_strings m))" "h = ct_nextStrID (ml_strings m) + 1"
    using assms(3) by (auto simp: registerCString_def C_CString_def Let_def)
  have mc: "owned (ml_strings ?m)" "ct_liveStrs (ml_strings ?m) h = Some a" "ct_heap (ml_strings ?m) a = Some s"
    "issued ?m = issued m + 1"
    using owned_register [OF m(1) assms(2) b] c next_id(1) [OF b] by (simp_all add: registerCString_eq issued_def)
  have b1: "issued ?m + length ls1 < 2 ^ 64" using mc(4) m(2) assms(7) by simp
  have live: "ct_liveStrs (ml_strings m1) h = Some a" "ct_heap (ml_strings m1) a = Some s"
    using abi_run_keeps_string [OF assms(4) mc(1) b1 mc(2) assms(5)] mc(3) by simp_all
  have o1: "owned (ml_strings m1)" "issued m1 \<le> issued ?m + length ls1"
    using abi_run_owned [OF assms(4) mc(1) b1] by simp_all
  have r1: "owned (ml_strings ?r)" using owned_release [OF o1(1)] by simp
  have r: "ct_liveStrs (ml_strings ?r) h = None" "issued ?r = issued m1"
    "h \<le> ct_nextStrID (ml_strings ?r)"
    using release_live [OF live] ownedD(3) [OF o1(1) live(1)] by (simp_all add: issued_def)
  have "issued ?r + length ls2 < 2 ^ 64" using r(2) o1(2) mc(4) m(2) assms(7) by simp
  from abi_run_keeps_dead [OF assms(6) r1 this r(1,3)] have dead: "ct_liveStrs (ml_strings m2) h = None" by simp
  have "h \<noteq> 0" using next_id(2) [OF b] c(2) by auto
  with live dead release_dead [OF dead] show ?thesis by (simp add: mesh_str_data_def)
qed

theorem string_handle_lifetime_witness:
  "\<exists>h c. registerCString 5 (CText ''{}'') (ml_strings demo_after_error) = (h, c) \<and>
     mesh_str_data h c = Some 5 \<and> mesh_str_data h (mesh_str_release h c) = None"
proof -
  obtain h c where hc: "registerCString 5 (CText ''{}'') (ml_strings demo_after_error) = (h, c)"
    by (cases "registerCString 5 (CText ''{}'') (ml_strings demo_after_error)")
  have free: "ct_heap (ml_strings demo_after_error) 5 = None"
    by (simp add: mesh_server_stop_def with_server_def lookup_def lib_start_def fails_def setErr_def mesh_set_err_def
        C_CString_def no_strings_def)
  from string_handle_lifetime [OF demo_error_run free hc abi_run.Stay _ abi_run.Stay] hc
  show ?thesis by auto
qed

lemma setErr_last [simp]: "mesh_last_error t (setErr t a s c) = Some a"
  by (simp add: mesh_last_error_def setErr_def mesh_set_err_def Let_def)

lemma setErr_text: "owned c \<Longrightarrow> ct_heap c a = None \<Longrightarrow> ct_heap (setErr t a s c) a = Some s"
  by (auto simp: setErr_def mesh_set_err_def C_CString_def C_free_def Let_def
      dest: ownedD(5) split: option.splits)

lemma answers_reports:
  assumes "answers a s m = (out, m')" and "unat (ct_nextStrID (ml_strings m)) + 1 < 2 ^ 64"
  shows "out \<noteq> 0 \<and> mesh_str_data out (ml_strings m') = Some a \<and> ct_heap (ml_strings m') a = Some (CText s)"
  using assms(1) next_id(2) [OF assms(2)]
  by (auto simp: answers_def registerCString_def C_CString_def Let_def mesh_str_data_def split: prod.splits)

text \<open>What an export leaves behind when it failed: the thread's error text is a new string.\<close>

definition failed_call :: "thread \<Rightarrow> addr \<Rightarrow> ('c, 'g, 'l) mesh_lib \<Rightarrow> bool" where
  "failed_call t a m \<longleftrightarrow>
     mesh_last_error t (ml_strings m) = Some a \<and> (\<exists>fmt args. ct_heap (ml_strings m) a = Some (CFormatted fmt args))"

lemma fails_failed_call:
  "owned (ml_strings m) \<Longrightarrow> ct_heap (ml_strings m) a = None \<Longrightarrow> failed_call t a (fails t a fmt args m)"
  by (simp add: failed_call_def setErr_text)

lemma with_server_cases:
  assumes "with_server t a export failure h body m = r"
  obtains (Bad) msg args where "r = (failure, fails t a msg args m)"
    | (Done) n srv where "lookup h m = Some n" "ml_servers m n = Some srv" "body n srv = Return r"
  using assms by (auto simp: with_server_def split: option.splits outcome.splits)



end
