(* ===== verification/Mesh_Testhooks.thy ===== *)
theory Mesh_Testhooks
  imports Mesh_Lib
begin

section \<open>Calling the C interface from Go (cmd/meshlib/testhooks.go)\<close>

text \<open>
  The wrappers with which Go code of the same package plays the foreign caller. An argument is
  copied to the C heap first, at the address \<open>b\<close>, and the text at an address is read up to the first
  NUL. Reading what is not allocated is undefined behaviour and recorded as such.
\<close>

subsection \<open>Texts across the border\<close>

fun upto_nul :: "c_text \<Rightarrow> c_text" where
  "upto_nul (CText s) = CText (takeWhile (\<lambda>c. c \<noteq> CHR 0x00) s)"
| "upto_nul (CFormatted fmt args) = CFormatted fmt args"

definition C_GoString :: "addr \<Rightarrow> c_strings \<Rightarrow> c_text \<times> c_strings" where
  "C_GoString a c =
     (case ct_heap c a of
        None \<Rightarrow> (CText '''', c\<lparr>ct_undefined := True\<rparr>)
      | Some s \<Rightarrow> (upto_nul s, c))"

definition on_strings :: "('r \<times> c_strings) \<Rightarrow> ('c, 'g, 'l) mesh_lib \<Rightarrow> 'r \<times> ('c, 'g, 'l) mesh_lib" where
  "on_strings r m = (fst r, m\<lparr>ml_strings := snd r\<rparr>)"

definition pass_string :: "addr \<Rightarrow> string \<Rightarrow> ('c, 'g, 'l) mesh_lib \<Rightarrow> ('c, 'g, 'l) mesh_lib" where
  "pass_string b s m = m\<lparr>ml_strings := C_CString b (CText s) (ml_strings m)\<rparr>"

definition as_c_string :: "string \<Rightarrow> string" where
  "as_c_string s = takeWhile (\<lambda>c. c \<noteq> CHR 0x00) s"

subsection \<open>The wrappers\<close>

definition newServerForTest ::
  "('d, 'c, 'g, 'l, 'str, 'cc) lib_env \<Rightarrow> thread \<Rightarrow> addr \<Rightarrow> addr \<Rightarrow> string \<Rightarrow> ('c, 'g, 'l) mesh_lib
     \<Rightarrow> uint64 \<times> ('c, 'g, 'l) mesh_lib" where
  "newServerForTest env t b a cfg m = mesh_server_new env t a (as_c_string cfg) (pass_string b cfg m)"

definition lastErrorForTest :: "thread \<Rightarrow> ('c, 'g, 'l) mesh_lib \<Rightarrow> c_text \<times> ('c, 'g, 'l) mesh_lib" where
  "lastErrorForTest t m =
     (case mesh_last_error t (ml_strings m) of
        None \<Rightarrow> (CText '''', m)
      | Some a \<Rightarrow> on_strings (C_GoString a (ml_strings m)) m)"

definition startForTest ::
  "(go_error \<Rightarrow> string) \<Rightarrow> bindings \<Rightarrow> thread \<Rightarrow> addr \<Rightarrow> uint64 \<Rightarrow> ('c, 'g, 'l) mesh_lib \<Rightarrow> int \<times> ('c, 'g, 'l) mesh_lib" where
  "startForTest show bd t a h m = mesh_server_start show bd t a h m"

definition stopForTest ::
  "'g grpc_lib \<Rightarrow> go_error option \<Rightarrow> thread \<Rightarrow> addr \<Rightarrow> uint64 \<Rightarrow> ('c, 'g, 'l) mesh_lib \<Rightarrow> int \<times> ('c, 'g, 'l) mesh_lib" where
  "stopForTest glib closing t a h m = mesh_server_stop glib closing t a h m"

definition freeHandleForTest ::
  "'g grpc_lib \<Rightarrow> go_error option \<Rightarrow> uint64 \<Rightarrow> ('c, 'g, 'l) mesh_lib \<Rightarrow> ('c, 'g, 'l) mesh_lib" where
  "freeHandleForTest glib closing h m = mesh_server_free glib closing h m"

definition strDataForTest :: "uint64 \<Rightarrow> ('c, 'g, 'l) mesh_lib \<Rightarrow> c_text \<times> ('c, 'g, 'l) mesh_lib" where
  "strDataForTest h m =
     (case mesh_str_data h (ml_strings m) of
        None \<Rightarrow> (CText '''', m)
      | Some cs \<Rightarrow> on_strings (C_GoString cs (ml_strings m)) m)"

definition strReleaseForTest :: "uint64 \<Rightarrow> ('c, 'g, 'l) mesh_lib \<Rightarrow> ('c, 'g, 'l) mesh_lib" where
  "strReleaseForTest h m = m\<lparr>ml_strings := mesh_str_release h (ml_strings m)\<rparr>"

definition registerCStringForTest :: "addr \<Rightarrow> string \<Rightarrow> ('c, 'g, 'l) mesh_lib \<Rightarrow> uint64 \<times> ('c, 'g, 'l) mesh_lib" where
  "registerCStringForTest a s m = on_strings (registerCString a (CText s) (ml_strings m)) m"

text \<open>The text is read before the deferred release runs.\<close>

definition readStringHandle :: "uint64 \<Rightarrow> ('c, 'g, 'l) mesh_lib \<Rightarrow> (c_text \<times> bool) \<times> ('c, 'g, 'l) mesh_lib" where
  "readStringHandle h m =
     (case mesh_str_data h (ml_strings m) of
        None \<Rightarrow> ((CText '''', False), m)
      | Some cs \<Rightarrow>
          (case on_strings (C_GoString cs (ml_strings m)) m of
             (s, m1) \<Rightarrow> ((s, True), strReleaseForTest h m1)))"

text \<open>\<open>b1\<close> and \<open>b2\<close> are where the two names are put; the length of the payload becomes a C \<^verbatim>\<open>int\<close>.\<close>

definition invokeForTest ::
  "('str, 'cc) call_env \<Rightarrow> (invoke_response \<Rightarrow> string result) \<Rightarrow> thread \<Rightarrow> addr \<Rightarrow> addr \<Rightarrow> addr \<Rightarrow> uint64
     \<Rightarrow> string \<Rightarrow> string \<Rightarrow> byte list \<Rightarrow> 32 word \<Rightarrow> ('c, 'g, 'l) mesh_lib \<Rightarrow> (c_text \<times> bool) \<times> ('c, 'g, 'l) mesh_lib" where
  "invokeForTest env marshal t b1 b2 a h peer meth payload timeoutMs m =
     (let m1 = pass_string b2 meth (pass_string b1 peer m);
          len = sint (word_of_nat (length payload) :: 32 word)
      in case mesh_invoke env marshal t a h (as_c_string peer) (as_c_string meth) payload len timeoutMs m1 of
           (strHandle, m2) \<Rightarrow>
             if strHandle = 0 then ((CText '''', False), m2) else readStringHandle strHandle m2)"

definition listNodesForTest ::
  "(node_json list \<Rightarrow> string result) \<Rightarrow> (instant \<Rightarrow> string) \<Rightarrow> (go_error \<Rightarrow> string) \<Rightarrow> (sref \<Rightarrow> string list)
     \<Rightarrow> peer_id list \<Rightarrow> thread \<Rightarrow> addr \<Rightarrow> uint64 \<Rightarrow> ('c, 'g, 'l) mesh_lib \<Rightarrow> (c_text \<times> bool) \<times> ('c, 'g, 'l) mesh_lib" where
  "listNodesForTest marshal format show mds order t a h m =
     (case mesh_list_nodes marshal format show mds order t a h m of
        (strHandle, m1) \<Rightarrow>
          if strHandle = 0 then ((CText '''', False), m1) else readStringHandle strHandle m1)"

subsection \<open>Lemmas\<close>

text \<open>
  The caller's pattern is sound: a string registered at a free address is read back, cut at its first
  NUL, the heap is then what it was, and every further reading finds nothing.
\<close>

lemma string_handle_round_trip:
  assumes "owned (ml_strings m)" and "ct_heap (ml_strings m) a = None"
    and "unat (ct_nextStrID (ml_strings m)) + 1 < 2 ^ 64" and "registerCStringForTest a s m = (h, m1)"
  shows "\<exists>m2. readStringHandle h m1 = ((CText (as_c_string s), True), m2) \<and>
    ct_heap (ml_strings m2) = ct_heap (ml_strings m) \<and> \<not> ct_undefined (ml_strings m2) \<and>
    readStringHandle h m2 = ((CText '''', False), m2) \<and> strDataForTest h m2 = (CText '''', m2)"
proof -
  have h: "h = ct_nextStrID (ml_strings m) + 1"
      and m1: "ml_strings m1 = snd (registerCString a (CText s) (ml_strings m))"
    using assms(4) by (auto simp: registerCStringForTest_def on_strings_def registerCString_def C_CString_def Let_def)
  have live: "ct_liveStrs (ml_strings m1) h = Some a" "ct_heap (ml_strings m1) a = Some (CText s)"
      "\<not> ct_undefined (ml_strings m1)"
    using ownedD(1) [OF assms(1)] by (simp_all add: m1 h registerCString_eq)
  have heap: "(ct_heap (ml_strings m1))(a := None) = ct_heap (ml_strings m)"
    using assms(2) by (auto simp: m1 registerCString_eq fun_eq_iff)
  let ?m2 = "strReleaseForTest h m1"
  have m2: "ml_strings ?m2 = (ml_strings m1)\<lparr>ct_liveStrs := (ct_liveStrs (ml_strings m1))(h := None),
      ct_heap := ct_heap (ml_strings m)\<rparr>"
    by (simp add: strReleaseForTest_def release_live [OF live(1,2)] heap)
  have "readStringHandle h m1 = ((CText (as_c_string s), True), ?m2)"
    using live by (simp add: readStringHandle_def on_strings_def C_GoString_def mesh_str_data_def as_c_string_def)
  then show ?thesis
    using m2 live(3) by (intro exI [of _ ?m2]) (simp add: readStringHandle_def [of _ ?m2] strDataForTest_def mesh_str_data_def)
qed

text \<open>What the library leaves alone: a text at an address that nothing of it owns.\<close>

lemma c_step_keeps_foreign:
  assumes "c_step None c c'" and "ct_heap c b = Some s" and "b \<notin> ran (ct_errStr c)"
  shows "ct_heap c' b = Some s"
  using assms(1)
proof (cases rule: c_step.cases)
  case (Error a t s')
  with assms(2) have "a \<noteq> b" by auto
  moreover have "ct_errStr c t \<noteq> Some b" using assms(3) by (auto simp: ran_def)
  ultimately show ?thesis using Error(1) assms(2)
    by (auto simp: setErr_def mesh_set_err_def C_CString_def C_free_def split: option.splits)
next
  case (Issue a s')
  with assms(2) show ?thesis by (auto simp: registerCString_eq)
qed (use assms(2) in simp)

text \<open>
  The wrapper that makes a server leaks its argument: the copy of the configuration stays on the C
  heap, although neither a handle nor an error text refers to it.
\<close>

lemma newServerForTest_leaks:
  assumes "owned (ml_strings m)" and "ct_heap (ml_strings m) b = None"
    and "ct_heap (ml_strings m) a = None" and "a \<noteq> b" and "newServerForTest env t b a cfg m = (h, m')"
  shows "ct_heap (ml_strings m') b = Some (CText cfg)"
proof -
  let ?m = "pass_string b cfg m"
  have "abi_step env None ?m m'"
    using assms(3-5) by (intro abi_step.New [where a = a])
      (simp_all add: newServerForTest_def pass_string_def C_CString_def)
  then have step: "c_step None (ml_strings ?m) (ml_strings m')" by (rule abi_step_strings)
  have "b \<notin> ran (ct_errStr (ml_strings ?m))"
    using ownedD(5) [OF assms(1)] assms(2) by (fastforce simp: ran_def pass_string_def C_CString_def)
  then show ?thesis
    by (intro c_step_keeps_foreign [OF step]) (simp_all add: pass_string_def C_CString_def)
qed

end
