(* ===== verification/Spec2Isabelle.thy ===== *)
theory Spec2Isabelle
  imports Server_Shutdown Registry_Refinement Tunnel_Tls Retry Server_Command Extended_Registry
    Gateway_Connections Tunnel_Silence Stream_Race Breaker_Trials Rate_Bound Tunnel_Metrics Mesh_Testhooks
begin

section \<open>The gRPC mesh server\<close>

text \<open>
  A development about the Go server of this repository. Nodes behind a firewall connect to the
  server over TLS and yamux and authenticate with a handshake; the server keeps a registry of
  their sessions and routes calls of external gRPC clients to them over new streams of these
  sessions. Everything below is about the Go code under \<^verbatim>\<open>src/\<close>.

  \<^bold>\<open>Conventions.\<close> A Go struct is a record, a value of an interface type a datatype with one
  constructor per implementation, a pointer that is compared or shared an address into an
  explicit heap. An operation that may panic returns an \<open>outcome\<close>, one that returns an error an
  \<open>option\<close> or a sum with \<open>Inl\<close>. Integers are mathematical ones with Go's wrap-around written out
  where a value of any size can come in (\<open>wrap64\<close>), or words. \<^verbatim>\<open>float64\<close> is a model of its own,
  rationals rounded to the nearest representable one. The clock, the order of a \<^verbatim>\<open>range\<close> over a
  map, random numbers and what the libraries (yamux, gRPC, TLS, JSON) return are arguments.
  Log statements are left out.

  \<^item> \<open>Mesh_Prelude\<close>: outcomes, errors, durations, maps and range loops. \<open>Go_Strings\<close>: the
    functions of package \<^verbatim>\<open>strings\<close> the code uses. \<open>Go_Float\<close>: \<^verbatim>\<open>float64\<close>.
  \<^item> \<open>Control_Types\<close>, \<open>Auth_Policy\<close>, \<open>Control_Stream\<close> (package \<^verbatim>\<open>pkg/control\<close>): the messages and
    their checks, the tokens, the framing. The framing implements a decoder on flat byte
    sequences (\<open>parse_frame\<close>), whatever pieces the network delivers.
  \<^item> \<open>Session_Registry\<close> (\<^verbatim>\<open>pkg/registry/registry.go\<close>): the session manager. \<open>Registry_Contract\<close> has
    its invariant \<open>reg_wf\<close>, the effect of every operation, and the locale \<open>session_directory\<close>
    of what connection handlers rely on, with its interpretation. \<open>Registry_Properties\<close> has the
    claims, \<open>Registry_Refinement\<close> the specification as a table of values and the simulation.
    \<open>Stream_Race\<close> has the goroutine and the \<^verbatim>\<open>select\<close> inside \<^verbatim>\<open>OpenStream\<close> as the steps of
    \<open>race_step\<close>, whose outcome is an argument of \<open>OpenStream\<close>.
  \<^item> \<open>Tunnel_Server\<close> (\<^verbatim>\<open>pkg/tunnel/tunnel.go\<close>): handlers and read loops as the step relation
    \<open>tunnel_step\<close>; each step is what a goroutine does between two blocking calls.
    \<open>Tunnel_Proofs\<close> has its invariant, and the life of one connection as the automaton
    \<open>phase_step\<close> that every step follows; \<open>Tunnel_Properties\<close> has the claims,
    \<open>Tunnel_Silence\<close> one about clients that say nothing. \<open>Tunnel_Shutdown\<close>: how the handlers can be
    brought to their end, one after the other. \<open>Tunnel_Tls\<close>: certificates,
    those of the configuration and the throw-away one, and the watcher that reloads them.
  \<^item> \<open>Circuit_Breaker\<close>, \<open>Retry\<close> (\<^verbatim>\<open>pkg/fault\<close>). \<open>Breaker_Trials\<close>: what holds in every history of a
    breaker, by the invariant \<open>trial_inv\<close>.
  \<^item> \<open>Method_Registry\<close> (\<^verbatim>\<open>pkg/registry/method_registry.go\<close>): the catalogs and the reverse index,
    which refines them; the contract is the locale \<open>method_directory\<close>. \<open>Extended_Registry\<close>
    (\<^verbatim>\<open>pkg/registry/session_ext.go\<close>): sessions, methods and breakers joined. The server does not use
    these two; they are for programs that import the package.
  \<^item> \<open>Acl\<close>, \<open>Rate_Limit\<close>, \<open>Invoke_Proxy\<close> (\<^verbatim>\<open>pkg/server\<close>) and \<open>Reverse_Gateway\<close> (\<^verbatim>\<open>pkg/reverse\<close>): the
    way of a call. \<open>Gateway_Connections\<close>: histories of the gateway, and who closes its
    connections. The contracts of access policies and of limiters are the locales
    \<open>access_policy\<close>, \<open>limiter_contract\<close> and \<open>bounded_limiter\<close>, interpreted for the policies and
    limiters of the code; the proxy's claim about calls in flight rests on them. \<open>Rate_Bound\<close>
    bounds what a token bucket admits, with the error of each \<^verbatim>\<open>float64\<close> rounding.
  \<^item> \<open>Mesh_System\<close>: the tunnel's steps and the calls of clients over one session registry, and the
    claim that spans both: only authorised nodes are called.
  \<^item> \<open>Mesh_Config\<close> (\<^verbatim>\<open>pkg/config\<close>), \<open>Mesh_Logging\<close> (\<^verbatim>\<open>pkg/logging\<close>), \<open>Server_Lifecycle\<close>
    (\<^verbatim>\<open>pkg/server/server.go\<close> and the exporter of \<^verbatim>\<open>pkg/metrics\<close>), \<open>Server_Command\<close> (\<^verbatim>\<open>cmd/server\<close>):
    from a configuration file to a running server and its end, with the sockets it holds.
    \<open>Server_Shutdown\<close> has the end step by step (\<open>service_step\<close>), among the nodes and the calls of
    \<open>Mesh_System\<close>: what is left when it returns, and when it does not return.
    \<open>Tunnel_Metrics\<close>: the collectors of \<^verbatim>\<open>pkg/metrics\<close> and their single instance.
  \<^item> \<open>Mesh_Lib\<close> (\<^verbatim>\<open>cmd/meshlib\<close>): the C interface, with the C heap and who owns what on it.
    \<open>Mesh_Testhooks\<close>: the wrappers in \<^verbatim>\<open>testhooks.go\<close> through which Go code calls it.

  \<^bold>\<open>Loops.\<close> Every loop is a terminating function: range loops run over the list of what is
  visited, the retry loop ends by its counter (\<open>retry_loop\<close>), the read loop of a session because
  each round takes bytes off the stream (\<open>control_turns\<close>). No fuel is used. Loops that wait for the
  network are steps of a relation, and what they wait for is a guard of the step.

  \<^bold>\<open>Not modelled.\<close> Generated protobuf code, whose messages are records here, and the log output, on
  which nothing in the program depends. Code outside the repository is an argument with the
  behaviour its documentation promises: yamux, gRPC, TLS, \<^verbatim>\<open>protojson\<close> and \<^verbatim>\<open>encoding/json\<close>, viper, zap,
  the file watcher, the crypto library behind \<^verbatim>\<open>generateDevCertificate\<close>, and Prometheus. Memory
  reuse inside Go slices is left out where the code hands out copies only. Of the fields that are read
  without a lock, the rules of an access policy are modelled while they change (\<open>match_rounds\<close>);
  elsewhere an operation that holds its lock, or would if it took it, is one step.
\<close>

end
